(* ===== verification/Prelude.thy ===== *)
theory Prelude
  imports Complex_Main "HOL-Library.Word"
begin

text \<open>
  Shared vocabulary of the development: the names of the model's basic types, Go's string
  helpers that the source uses (\<^verbatim>\<open>strings.TrimPrefix\<close>, \<^verbatim>\<open>strings.Split\<close>, \<^verbatim>\<open>strings.ToLower\<close>, \<^verbatim>\<open>%d\<close>),
  durations, and the outcome of a call to a remote service. Strings are byte strings
  (Isabelle's \<^typ>\<open>string\<close>), as Go's are. Instants and durations are Go's nanoseconds.
\<close>

subsection \<open>Collections of facts\<close>

named_theorems redis_simps \<open>what each Redis command does to the two views of the server\<close>
named_theorems table_simps \<open>keys and rows that a table operation leaves alone\<close>

subsection \<open>Basic types\<close>

type_synonym instant = int
type_synonym duration = int
type_synonym pubkey = string
type_synonym u64 = "64 word"
type_synonym u32 = "32 word"
type_synonym byte = "8 word"
type_synonym float64 = rat

abbreviation second :: duration where "second \<equiv> 1000000000"
abbreviation minute :: duration where "minute \<equiv> 60000000000"

text \<open>\<^verbatim>\<open>time.Time.Unix\<close>: whole seconds.\<close>

definition Unix :: "instant \<Rightarrow> int" where
  "Unix t = t div second"

text \<open>
  One request to a remote service. The request can be lost before the service acts, or the
  reply can be lost after it acted; the Go client returns an error in both cases. The
  definitions take the fate of each of their requests as a parameter.
\<close>

datatype fate = Delivered | RequestLost | ReplyLost

definition remote :: "fate \<Rightarrow> ('s \<Rightarrow> 's \<times> 'a) \<Rightarrow> 's \<Rightarrow> 's \<times> 'a option" where
  "remote f c s =
     (case f of
        Delivered \<Rightarrow> (fst (c s), Some (snd (c s)))
      | RequestLost \<Rightarrow> (s, None)
      | ReplyLost \<Rightarrow> (fst (c s), None))"

lemma remote_simps [simp]:
  "remote Delivered c s = (fst (c s), Some (snd (c s)))"
  "remote RequestLost c s = (s, None)"
  "remote ReplyLost c s = (fst (c s), None)"
  by (simp_all add: remote_def)

lemma remote_Some_iff [simp]:
  "remote f c s = (s', Some a) \<longleftrightarrow> f = Delivered \<and> c s = (s', a)"
  by (cases f) (auto simp: prod_eq_iff)

subsection \<open>Go's string helpers\<close>

text \<open>\<^verbatim>\<open>strings.TrimPrefix(s, p)\<close>: without the prefix if it is there, unchanged otherwise.\<close>

definition trim_prefix :: "string \<Rightarrow> string \<Rightarrow> string" where
  "trim_prefix p s = (if take (length p) s = p then drop (length p) s else s)"

lemma trim_prefix_append [simp]: "trim_prefix p (p @ s) = s"
  by (simp add: trim_prefix_def)

text \<open>\<^verbatim>\<open>strings.HasPrefix(s, p)\<close>.\<close>

definition has_prefix :: "string \<Rightarrow> string \<Rightarrow> bool" where
  "has_prefix p s \<longleftrightarrow> take (length p) s = p"

text \<open>\<^verbatim>\<open>strings.Split(s, sep)\<close> for a separator of one byte: never an empty list.\<close>

fun split_on :: "char \<Rightarrow> string \<Rightarrow> string list" where
  "split_on c [] = [[]]"
| "split_on c (x # xs) =
     (if x = c then [] # split_on c xs
      else (case split_on c xs of [] \<Rightarrow> [[x]] | y # ys \<Rightarrow> (x # y) # ys))"

lemma split_on_nonempty [simp]: "split_on c s \<noteq> []"
  by (induction s) (auto split: list.splits)

lemma hd_split_on: "hd (split_on c s) = takeWhile (\<lambda>x. x \<noteq> c) s"
  by (induction s) (auto split: list.splits)

lemma hd_split_on_append:
  "c \<notin> set a \<Longrightarrow> hd (split_on c (a @ c # b)) = a"
  by (auto simp: hd_split_on takeWhile_tail)

text \<open>\<^verbatim>\<open>strings.ToLower\<close> on the bytes of ASCII letters.\<close>

definition lower_char :: "char \<Rightarrow> char" where
  "lower_char c =
     (let n = of_char c :: nat in if 65 \<le> n \<and> n \<le> 90 then char_of (n + 32) else c)"

definition to_lower :: "string \<Rightarrow> string" where
  "to_lower s = map lower_char s"

text \<open>The verb \<^verbatim>\<open>%d\<close> on an integer: decimal digits, most significant first.\<close>

fun digits_of :: "nat \<Rightarrow> string" where
  "digits_of n =
     (if n < 10 then [char_of (48 + n)]
      else digits_of (n div 10) @ [char_of (48 + n mod 10)])"

declare digits_of.simps [simp del]

definition show_int :: "int \<Rightarrow> string" where
  "show_int i = (if i < 0 then CHR ''-'' # digits_of (nat (- i)) else digits_of (nat i))"

lemma digits_of_small [simp]: "n < 10 \<Longrightarrow> digits_of n = [char_of (48 + n)]"
  by (simp add: digits_of.simps)

text \<open>Printing is injective: reading the digits back gives the number.\<close>

fun value_of :: "nat \<Rightarrow> string \<Rightarrow> nat" where
  "value_of acc [] = acc"
| "value_of acc (c # cs) = value_of (10 * acc + (of_char c - 48)) cs"

lemma value_of_append: "value_of acc (xs @ ys) = value_of (value_of acc xs) ys"
  by (induction xs arbitrary: acc) auto

lemma value_of_digits [simp]: "value_of 0 (digits_of n) = n"
proof (induction n rule: digits_of.induct)
  case (1 n)
  show ?case
  proof (cases "n < 10")
    case True
    then show ?thesis by simp
  next
    case False
    with "1.IH" show ?thesis
      by (subst digits_of.simps) (simp add: value_of_append)
  qed
qed

lemma digits_of_inject [simp]: "digits_of m = digits_of n \<longleftrightarrow> m = n"
  by (metis value_of_digits)

lemma digits_of_chars: "c \<in> set (digits_of n) \<Longrightarrow> 48 \<le> (of_char c :: nat) \<and> of_char c \<le> (57 :: nat)"
proof (induction n rule: digits_of.induct)
  case (1 n)
  show ?case
  proof (cases "n < 10")
    case True
    with "1.prems" show ?thesis by simp
  next
    case False
    with "1.prems" have "c \<in> set (digits_of (n div 10)) \<or> c = char_of (48 + n mod 10)"
      by (auto simp: digits_of.simps [of n])
    with "1.IH" False show ?thesis by auto
  qed
qed

lemma digits_of_no_sign [simp]: "digits_of n \<noteq> CHR ''-'' # s"
proof
  assume "digits_of n = CHR ''-'' # s"
  then have "CHR ''-'' \<in> set (digits_of n)" by simp
  then show False using digits_of_chars by fastforce
qed

lemma show_int_inject [simp]: "show_int i = show_int j \<longleftrightarrow> i = j"
proof
  assume eq: "show_int i = show_int j"
  show "i = j"
  proof (cases "(i < 0) = (j < 0)")
    case True
    with eq have "nat \<bar>i\<bar> = nat \<bar>j\<bar>" by (auto simp: show_int_def abs_if split: if_splits)
    with True show ?thesis by (auto simp: abs_if split: if_splits)
  next
    case False
    with eq show ?thesis by (auto simp: show_int_def split: if_splits dest: sym)
  qed
qed simp

subsection \<open>Lists in order\<close>

lemma sorted_map_append:
  "sorted (map f (xs @ ys)) \<Longrightarrow> a \<in> set xs \<Longrightarrow> b \<in> set ys \<Longrightarrow> f a \<le> f b"
  by (auto simp: sorted_append)

end
