(* ===== verification/Binary64.thy ===== *)
theory Binary64
  imports Prelude "HOL-Library.Log_Nat"
begin

text \<open>
  Go's \<^verbatim>\<open>float64\<close> where its rounding matters: the result of an operation is the exact rational
  rounded to 53 significant bits, halves to even. Magnitudes are those of a normal number (from \<open>2\<^sup>-\<^sup>1\<^sup>0\<^sup>2\<^sup>2\<close>
  up to \<open>2\<^sup>1\<^sup>0\<^sup>2\<^sup>4\<close>), which the amounts of the program are.
\<close>

subsection \<open>The binary exponent of a positive rational\<close>

definition exponent :: "rat \<Rightarrow> int" where
  "exponent x =
     (let (p, q) = quotient_of x; k = bitlen p - bitlen q
      in if x < 2 powi k then k - 1 else k)"

lemma bitlen_powi:
  assumes "0 < (p :: int)"
  shows "2 powi (bitlen p - 1) \<le> (of_int p :: rat)" "(of_int p :: rat) < 2 powi bitlen p"
proof -
  have b: "2 ^ nat (bitlen p - 1) \<le> p" "p < 2 ^ nat (bitlen p)"
    using bitlen_bounds [OF assms] by auto
  have pos: "1 \<le> bitlen p" using assms bitlen_ge_iff_power [of 1 p] by simp
  have "(2 powi (bitlen p - 1) :: rat) = of_int (2 ^ nat (bitlen p - 1))"
    using pos by (simp add: power_int_def)
  also have "\<dots> \<le> of_int p" using b(1) by (simp only: of_int_le_iff)
  finally show "2 powi (bitlen p - 1) \<le> (of_int p :: rat)" .
  have "(of_int p :: rat) < of_int (2 ^ nat (bitlen p))" using b(2) by (simp only: of_int_less_iff)
  also have "\<dots> = 2 powi bitlen p" using pos by (simp add: power_int_def)
  finally show "(of_int p :: rat) < 2 powi bitlen p" .
qed

lemma exponent_bounds:
  assumes "0 < x"
  shows "2 powi exponent x \<le> x" "x < 2 powi (exponent x + 1)"
proof -
  obtain p q where pq: "quotient_of x = (p, q)" by fastforce
  have x: "x = of_int p / of_int q" using quotient_of_div [OF pq] .
  have q: "0 < q" using quotient_of_denom_pos [OF pq] .
  have p: "0 < p" using assms x q by (simp add: zero_less_divide_iff)
  let ?k = "bitlen p - bitlen q"
  have low: "2 powi (?k - 1) < x"
  proof -
    have "(2 powi (?k - 1) :: rat) = 2 powi (bitlen p - 1) / 2 powi bitlen q"
      by (simp add: power_int_diff)
    also have "\<dots> \<le> of_int p / 2 powi bitlen q"
      by (intro divide_right_mono bitlen_powi p) simp
    also have "\<dots> < of_int p / of_int q"
      using bitlen_powi(2) [OF q] p q by (intro divide_strict_left_mono) auto
    finally show ?thesis by (simp add: x)
  qed
  have high: "x < 2 powi (?k + 1)"
  proof -
    have "x < 2 powi bitlen p / of_int q"
      unfolding x using bitlen_powi(2) [OF p] q by (intro divide_strict_right_mono) auto
    also have "\<dots> \<le> 2 powi bitlen p / 2 powi (bitlen q - 1)"
      using bitlen_powi(1) [OF q] q by (intro divide_left_mono) auto
    also have "\<dots> = 2 powi (?k + 1)"
      by (simp add: power_int_diff power_int_add)
    finally show ?thesis .
  qed
  have e: "exponent x = (if x < 2 powi ?k then ?k - 1 else ?k)"
    by (simp add: exponent_def pq)
  show "2 powi exponent x \<le> x" using low by (simp add: e)
  show "x < 2 powi (exponent x + 1)" using high by (simp add: e)
qed

subsection \<open>Rounding\<close>

definition round_half_even :: "rat \<Rightarrow> int" where
  "round_half_even y =
     (let f = \<lfloor>y\<rfloor>; d = y - of_int f
      in if d < 1 / 2 then f else if 1 / 2 < d then f + 1 else if even f then f else f + 1)"

lemma round_half_even_error: "\<bar>of_int (round_half_even y) - y\<bar> \<le> 1 / 2"
proof -
  define d where "d = y - of_int \<lfloor>y\<rfloor>"
  have d: "0 \<le> d" "d < 1" using floor_correct [of y] by (auto simp: d_def)
  have "of_int (round_half_even y) - y = (if d < 1 / 2 then - d else if 1 / 2 < d then 1 - d
      else if even \<lfloor>y\<rfloor> then - d else 1 - d)"
    by (simp add: round_half_even_def Let_def d_def)
  with d show ?thesis by (auto simp: abs_if)
qed

lemma round_half_even_int [simp]: "round_half_even (of_int n) = n"
  by (simp add: round_half_even_def)

definition fl :: "rat \<Rightarrow> rat" where
  "fl x =
     (if x = 0 then 0
      else (let u = 2 powi (exponent \<bar>x\<bar> - 52) in sgn x * (of_int (round_half_even (\<bar>x\<bar> / u)) * u)))"

lemma fl_zero [simp]: "fl 0 = 0"
  by (simp add: fl_def)

text \<open>The relative error of one rounding is at most \<open>2\<^sup>-\<^sup>5\<^sup>3\<close>.\<close>

lemma fl_error: "\<bar>fl x - x\<bar> \<le> \<bar>x\<bar> / 2 ^ 53"
proof (cases "x = 0")
  case False
  define u :: rat where "u = 2 powi (exponent \<bar>x\<bar> - 52)"
  define r where "r = (of_int (round_half_even (\<bar>x\<bar> / u)) :: rat)"
  have u: "0 < u" by (simp add: u_def)
  have "\<bar>r - \<bar>x\<bar> / u\<bar> \<le> 1 / 2" unfolding r_def by (rule round_half_even_error)
  then have "\<bar>r - \<bar>x\<bar> / u\<bar> * u \<le> 1 / 2 * u" using u by (intro mult_right_mono) auto
  moreover have "\<bar>r - \<bar>x\<bar> / u\<bar> * u = \<bar>r * u - \<bar>x\<bar>\<bar>"
    using u abs_mult [of "r - \<bar>x\<bar> / u" u] by (simp add: left_diff_distrib)
  ultimately have "\<bar>r * u - \<bar>x\<bar>\<bar> \<le> u / 2" by simp
  moreover have "u \<le> \<bar>x\<bar> / 2 ^ 52"
  proof -
    have "u = 2 powi exponent \<bar>x\<bar> / 2 ^ 52" by (simp add: u_def power_int_diff)
    also have "\<dots> \<le> \<bar>x\<bar> / 2 ^ 52"
      using exponent_bounds(1) [of "\<bar>x\<bar>"] False by (intro divide_right_mono) auto
    finally show ?thesis .
  qed
  moreover have "\<bar>fl x - x\<bar> = \<bar>r * u - \<bar>x\<bar>\<bar>"
  proof -
    have "fl x = sgn x * (r * u)" using False by (simp add: fl_def Let_def u_def r_def)
    moreover have "x = sgn x * \<bar>x\<bar>" by (simp add: sgn_mult_abs)
    ultimately have "fl x - x = sgn x * (r * u - \<bar>x\<bar>)"
      by (metis right_diff_distrib)
    then show ?thesis using False by (simp add: abs_mult)
  qed
  ultimately show ?thesis by simp
qed simp

text \<open>The exponent is the only one that fits, which gives the value of a rounding.\<close>

lemma exponent_unique:
  assumes "2 powi e \<le> x" "x < 2 powi (e + 1)"
  shows "exponent x = e"
proof -
  have "0 < x" using assms(1) zero_less_power_int [of "2 :: rat" e] by linarith
  note b = exponent_bounds [OF this]
  have "(2 :: rat) powi exponent x < 2 powi (e + 1)" "(2 :: rat) powi e < 2 powi (exponent x + 1)"
    using b assms by linarith+
  then have "\<not> e + 1 \<le> exponent x" "\<not> exponent x + 1 \<le> e"
    using power_int_increasing [of "e + 1" "exponent x" "2 :: rat"]
      power_int_increasing [of "exponent x + 1" e "2 :: rat"] by auto
  then show ?thesis by simp
qed

lemma fl_eval:
  assumes "2 powi e \<le> x" "x < 2 powi (e + 1)"
  shows "fl x = of_int (round_half_even (x / 2 powi (e - 52))) * 2 powi (e - 52)"
proof -
  have "0 < x" using assms(1) zero_less_power_int [of "2 :: rat" e] by linarith
  then show ?thesis by (simp add: fl_def exponent_unique [OF assms] Let_def)
qed

lemma round_half_even_near:
  assumes "\<bar>y - of_int n\<bar> < 1 / 2"
  shows "round_half_even y = n"
proof -
  have "\<bar>of_int (round_half_even y) - of_int n\<bar> < (1 :: rat)"
    using round_half_even_error [of y] assms by linarith
  then show ?thesis by linarith
qed

lemma fl_near:
  assumes "2 powi e \<le> x" "x < 2 powi (e + 1)" "\<bar>x / 2 powi (e - 52) - of_int n\<bar> < 1 / 2"
  shows "fl x = of_int n * 2 powi (e - 52)"
  using fl_eval [OF assms(1,2)] round_half_even_near [OF assms(3)] by simp

lemma fl_nonneg: "0 \<le> x \<Longrightarrow> 0 \<le> fl x"
proof -
  assume "0 \<le> x"
  then have "\<bar>fl x - x\<bar> \<le> x / 2 ^ 53" using fl_error [of x] by simp
  moreover have "x / 2 ^ 53 \<le> x" using \<open>0 \<le> x\<close> by (simp add: field_simps)
  ultimately show ?thesis by linarith
qed

text \<open>Integers of up to 53 bits are represented exactly.\<close>

lemma fl_int:
  assumes "\<bar>i\<bar> < 2 ^ 53"
  shows "fl (of_int i) = of_int i"
proof (cases "i = 0")
  case False
  define e where "e = exponent (of_int \<bar>i\<bar> :: rat)"
  define m :: int where "m = \<bar>i\<bar> * 2 ^ nat (52 - e)"
  have pos: "(0 :: rat) < of_int \<bar>i\<bar>" using False by simp
  have "2 powi e \<le> (of_int \<bar>i\<bar> :: rat)" unfolding e_def by (rule exponent_bounds(1) [OF pos])
  also have "(of_int \<bar>i\<bar> :: rat) < of_int (2 ^ 53)" using assms by (simp only: of_int_less_iff)
  also have "(of_int (2 ^ 53) :: rat) = 2 powi 53" by simp
  finally have "e < 53" using power_int_increasing [of 53 e "2 :: rat"] by (cases "e < 53") auto
  then have "(2 :: rat) powi (e - 52) * 2 ^ nat (52 - e) = 2 powi (e - 52) * 2 powi (52 - e)"
    by (simp add: power_int_def)
  also have "\<dots> = 1" by (simp add: power_int_add [symmetric])
  finally have u: "(2 :: rat) powi (e - 52) * 2 ^ nat (52 - e) = 1" .
  then have q: "of_int \<bar>i\<bar> / 2 powi (e - 52) = (of_int m :: rat)"
    by (simp add: m_def field_simps)
  have "fl (of_int i) = sgn (of_int i) * (of_int (round_half_even (of_int \<bar>i\<bar> / 2 powi (e - 52))) * 2 powi (e - 52))"
    using False by (simp add: fl_def e_def Let_def)
  also have "\<dots> = sgn (of_int i) * (of_int m * 2 powi (e - 52))"
    by (simp only: q round_half_even_int)
  also have "of_int m * 2 powi (e - 52) = (of_int \<bar>i\<bar> :: rat)"
    using u by (simp add: m_def) (simp add: mult.commute)
  also have "sgn (of_int i) * of_int \<bar>i\<bar> = (of_int i :: rat)"
    by (cases "i < 0") (simp_all add: sgn_if)
  finally show ?thesis .
qed simp

end
