(* ===== verification/Models.thy ===== *)
theory Models
  imports Prelude
begin

text \<open>
  The domain records of \<^verbatim>\<open>db/repositories/storage.go\<close>. A field keeps its name behind a short
  prefix, since Isabelle's field names are global. A table row extends the struct with the
  columns the program never reads into it. Monetary columns are \<^verbatim>\<open>NUMERIC\<close>, exact decimal
  numbers, and are rationals here.
\<close>

record User =
  u_ID :: int
  u_Email :: string
  u_PasswordHash :: string
  u_WalletPubkey :: string
  u_CreditBalance :: int
  u_CreatedAt :: instant

record Monitor =
  m_ID :: string
  m_OwnerID :: int
  m_TargetURL :: string
  m_CheckIntervalSeconds :: int
  m_TotalSpentTokens :: rat
  m_IsActive :: bool
  m_CreatedAt :: instant

record RunnerNode =
  r_ID :: int
  r_OwnerEmail :: string
  r_OwnerPubkey :: pubkey
  r_NodePubkey :: "string option"
  r_Region :: string
  r_Latitude :: float64
  r_Longitude :: float64
  r_OffchainAccumulatedTokens :: rat
  r_TotalEarnedTokensAllTime :: rat
  r_PendingSolanaSync :: bool
  r_LastSeenTimestamp :: instant
  r_CreatedAt :: instant
  r_UpdatedAt :: instant
  r_DeletedAt :: "instant option"
  r_IsValidator :: bool
  r_StakedAmount :: int
  r_UnstakeRequestAt :: "instant option"

record PingLog =
  p_ID :: int
  p_MonitorID :: string
  p_RunnerPubkey :: pubkey
  p_DnsUs :: u64
  p_TcpUs :: u64
  p_TlsUs :: u64
  p_TtfbUs :: u64
  p_TotalUs :: u64
  p_LatencyMs :: float64
  p_StatusCode :: int
  p_Success :: bool
  p_ErrorKind :: string
  p_GeoRegion :: string
  p_Latitude :: float64
  p_Longitude :: float64
  p_Timestamp :: instant
  p_TimestampMs :: int

text \<open>
  \<^verbatim>\<open>dto.PingResultItem\<close> and \<^verbatim>\<open>services.ResultPacket\<close>. An \<^verbatim>\<open>int64\<close> is a 64-bit word read by \<^const>\<open>sint\<close>,
  a \<^verbatim>\<open>uint64\<close> one read by \<^const>\<open>unat\<close>: Go's conversion between the two keeps the bits.
\<close>

type_synonym i64 = "64 word"

record PingResultItem =
  pr_JobID :: string
  pr_BatchID :: string
  pr_NodeID :: string
  pr_TargetURL :: string
  pr_Success :: bool
  pr_StatusCode :: int
  pr_DnsUs :: i64
  pr_TcpUs :: i64
  pr_TlsUs :: i64
  pr_TtfbUs :: i64
  pr_TotalUs :: i64
  pr_LatencyMs :: int
  pr_TaskNonce :: string
  pr_ErrorKind :: string
  pr_ErrorMsg :: string
  pr_MonitorID :: string
  pr_GeoRegion :: string
  pr_TimestampMs :: i64
  pr_Latitude :: float64
  pr_Longitude :: float64

record ResultPacket =
  rp_NodeId :: string
  rp_RunnerPubkey :: pubkey
  rp_Signature :: string
  rp_Results :: "PingResultItem list"

text \<open>Rows: the struct and its soft-delete mark.\<close>

record user_row = User +
  u_deleted_at :: "instant option"

record monitor_row = Monitor +
  m_deleted_at :: "instant option"

record runner_row = RunnerNode +
  r_node_pda :: "string option"

text \<open>
  \<^verbatim>\<open>dto.SolanaSyncEvent\<close>, a row of \<^verbatim>\<open>solana_sync_events\<close> as \<^verbatim>\<open>solana.sql\<close> creates it; the column
  \<^verbatim>\<open>owner_pubkey\<close> is the field \<^verbatim>\<open>RunnerPubkey\<close>.
\<close>

datatype sync_status = PENDING | PROCESSING | DONE

record SolanaSyncEvent =
  e_ID :: string
  e_RunnerPubkey :: pubkey
  e_Amount :: rat
  e_Status :: sync_status
  e_RetryCount :: nat
  e_TxSignature :: "string option"
  e_CreatedAt :: instant
  e_UpdatedAt :: instant

end
