(* ===== verification/Store.thy ===== *)
theory Store
  imports Models
begin

text \<open>
  The tables and the repositories of \<^verbatim>\<open>db/repositories/\<close>: \<^verbatim>\<open>user.go\<close>, \<^verbatim>\<open>monitor.go\<close>, \<^verbatim>\<open>runners.go\<close>. A
  table is the list of its rows, in the order a scan visits them; each SQL statement of the
  source is translated as a function on the tables. The constraints that a statement can violate
  are those of \<^verbatim>\<open>schema.sql\<close>. Nullable columns that no statement of the program sets to \<^verbatim>\<open>NULL\<close> are
  not optional here.
\<close>

subsection \<open>Errors\<close>

datatype db_error =
    Unavailable
  | NoRows
  | BadUUID
  | ScanError
  | OutOfRange
  | TooLong
  | UniqueViolation
  | NotNullViolation
  | ForeignKeyViolation
  | NoArbiter
  | UndefinedColumn
  | NoPartition
  | InsufficientCredits

text \<open>A query that is answered, and a statement whose request or reply can be lost.\<close>

definition query :: "bool \<Rightarrow> (db_error + 'a) \<Rightarrow> db_error + 'a" where
  "query up r = (if up then r else Inl Unavailable)"

lemma query_simps [simp]:
  "query True r = r"
  "query False r = Inl Unavailable"
  by (simp_all add: query_def)

lemma query_Inr_iff: "query up r = Inr x \<longleftrightarrow> up \<and> r = Inr x"
  by (simp add: query_def)

definition exec :: "fate \<Rightarrow> ('s \<Rightarrow> 's) \<Rightarrow> 's \<Rightarrow> 's \<times> (db_error + unit)" where
  "exec f st s =
     (case f of
        Delivered \<Rightarrow> (st s, Inr ())
      | RequestLost \<Rightarrow> (s, Inl Unavailable)
      | ReplyLost \<Rightarrow> (st s, Inl Unavailable))"

lemma exec_simps [simp]:
  "exec Delivered st s = (st s, Inr ())"
  "exec RequestLost st s = (s, Inl Unavailable)"
  "exec ReplyLost st s = (st s, Inl Unavailable)"
  by (simp_all add: exec_def)

lemma exec_Inr_iff [simp]: "exec f st s = (s', Inr x) \<longleftrightarrow> f = Delivered \<and> s' = st s"
  by (cases f) auto

subsection \<open>Tables\<close>

record db =
  t_users :: "user_row list"
  t_monitors :: "monitor_row list"
  t_runner_nodes :: "runner_row list"
  t_ping_logs :: "PingLog list"
  t_sync_events :: "SolanaSyncEvent list"
  t_partitions :: "(instant \<times> instant) list"
  t_user_seq :: int
  t_runner_seq :: int
  t_ping_seq :: int

definition update_where :: "('r \<Rightarrow> bool) \<Rightarrow> ('r \<Rightarrow> 'r) \<Rightarrow> 'r list \<Rightarrow> 'r list" where
  "update_where P f rows = map (\<lambda>r. if P r then f r else r) rows"

lemma update_where_simps [simp]:
  "update_where P f [] = []"
  "update_where P f (r # rs) = (if P r then f r else r) # update_where P f rs"
  by (simp_all add: update_where_def)

lemma length_update_where [simp]: "length (update_where P f rs) = length rs"
  by (simp add: update_where_def)

lemma set_update_where:
  "set (update_where P f rs) = {f r | r. r \<in> set rs \<and> P r} \<union> {r \<in> set rs. \<not> P r}"
  by (auto simp: update_where_def)

lemma map_update_where [table_simps]:
  "(\<And>r. P r \<Longrightarrow> k (f r) = k r) \<Longrightarrow> map k (update_where P f rs) = map k rs"
  by (simp add: update_where_def)

lemma update_where_none [table_simps]: "\<forall>r \<in> set rs. \<not> P r \<Longrightarrow> update_where P f rs = rs"
  by (simp add: update_where_def map_idI)

text \<open>An update on the row with a given key leaves exactly the other rows as they are.\<close>

lemma update_where_split:
  assumes "distinct (map k rs)" "r \<in> set rs"
  shows "\<exists>a b. rs = a @ r # b \<and>
    update_where (\<lambda>x. k x = k r) f rs = a @ f r # b"
proof -
  obtain a b where ab: "rs = a @ r # b" using assms(2) by (meson split_list)
  with assms(1) have "\<forall>x \<in> set a \<union> set b. k x \<noteq> k r" by (fastforce simp: image_iff)
  then have "update_where (\<lambda>x. k x = k r) f rs = a @ f r # b"
    unfolding ab by (auto simp: update_where_def map_idI)
  with ab show ?thesis by blast
qed

text \<open>The first row of a result set, \<^verbatim>\<open>QueryRow\<close>.\<close>

definition query_row :: "'r list \<Rightarrow> db_error + 'r" where
  "query_row rows = (case rows of [] \<Rightarrow> Inl NoRows | r # _ \<Rightarrow> Inr r)"

lemma query_row_Inr: "query_row (filter P rs) = Inr r \<Longrightarrow> r \<in> set rs \<and> P r"
  by (auto simp: query_row_def filter_eq_Cons_iff split: list.splits)

text \<open>
  A value stored in a \<^verbatim>\<open>NUMERIC(12,4)\<close> column is rounded to four decimals, half away from zero,
  and must stay below \<open>10\<^sup>8\<close>; a \<^verbatim>\<open>NUMERIC(9,6)\<close> one has six decimals and stays below \<open>10\<^sup>3\<close>. An
  \<^verbatim>\<open>INT\<close> column holds 32 bits.
\<close>

definition round4 :: "rat \<Rightarrow> rat" where
  "round4 x = sgn x * of_int \<lfloor>\<bar>x\<bar> * 10000 + 1 / 2\<rfloor> / 10000"

definition numeric_12_4 :: "rat \<Rightarrow> rat option" where
  "numeric_12_4 x = (if \<bar>round4 x\<bar> < 100000000 then Some (round4 x) else None)"

definition numeric_9_6 :: "rat \<Rightarrow> rat option" where
  "numeric_9_6 x =
     (let r = sgn x * of_int \<lfloor>\<bar>x\<bar> * 1000000 + 1 / 2\<rfloor> / 1000000
      in if \<bar>r\<bar> < 1000 then Some r else None)"

definition int4 :: "int \<Rightarrow> bool" where
  "int4 i \<longleftrightarrow> - (2 ^ 31) \<le> i \<and> i < 2 ^ 31"

text \<open>Numbers with four decimals are stored as they are.\<close>

definition decimal4 :: "rat \<Rightarrow> bool" where
  "decimal4 x \<longleftrightarrow> of_int \<lfloor>x * 10000\<rfloor> = x * 10000"

lemma decimal4_iff: "decimal4 x \<longleftrightarrow> (\<exists>n :: int. x = of_int n / 10000)"
proof
  assume "decimal4 x"
  then have "of_int \<lfloor>x * 10000\<rfloor> = x * 10000" by (simp only: decimal4_def)
  then have "x = of_int \<lfloor>x * 10000\<rfloor> / 10000" by linarith
  then show "\<exists>n :: int. x = of_int n / 10000" by blast
qed (auto simp: decimal4_def)

lemma round4_decimal: "decimal4 x \<Longrightarrow> round4 x = x"
proof -
  assume "decimal4 x"
  then obtain n :: int where n: "x = of_int n / 10000" by (auto simp: decimal4_iff)
  have f: "\<lfloor>of_int m + 1 / 2 :: rat\<rfloor> = m" for m :: int by linarith
  have "\<bar>x\<bar> * 10000 = of_int \<bar>n\<bar>" by (simp add: n)
  then have "\<lfloor>\<bar>x\<bar> * 10000 + 1 / 2\<rfloor> = \<bar>n\<bar>" using f [of "\<bar>n\<bar>"] by simp
  then have "round4 x = sgn x * of_int \<bar>n\<bar> / 10000" by (simp add: round4_def)
  also have "\<dots> = x" by (auto simp: n sgn_if)
  finally show ?thesis .
qed

lemma decimal4_add: "decimal4 x \<Longrightarrow> decimal4 y \<Longrightarrow> decimal4 (x + y)"
proof -
  assume "decimal4 x" "decimal4 y"
  then obtain n m :: int where "x = of_int n / 10000" "y = of_int m / 10000"
    by (auto simp: decimal4_iff)
  then have "x + y = of_int (n + m) / 10000" by simp
  then show ?thesis by (auto simp only: decimal4_iff)
qed

lemma decimal4_zero [simp]: "decimal4 0"
  by (simp add: decimal4_def)

lemma numeric_12_4_Some: "numeric_12_4 x = Some y \<Longrightarrow> decimal4 x \<Longrightarrow> y = x"
  by (auto simp: numeric_12_4_def round4_decimal split: if_splits)

lemma numeric_12_4_the: "numeric_12_4 x \<noteq> None \<Longrightarrow> decimal4 x \<Longrightarrow> the (numeric_12_4 x) = x"
  using numeric_12_4_Some by fastforce

subsection \<open>A column of a table\<close>

text \<open>The values of a column by key; of several rows with one key, the first counts.\<close>

definition column :: "('r \<Rightarrow> 'k) \<Rightarrow> ('r \<Rightarrow> 'v) \<Rightarrow> 'r list \<Rightarrow> 'k \<Rightarrow> 'v option" where
  "column k v rows = map_of (map (\<lambda>r. (k r, v r)) rows)"

lemma column_simps [simp]:
  "column k v [] = Map.empty"
  "column k v (r # rs) = (column k v rs)(k r \<mapsto> v r)"
  by (simp_all add: column_def)

lemma column_append: "column k v (rs @ [r]) c = (case column k v rs c of
    None \<Rightarrow> if k r = c then Some (v r) else None | Some x \<Rightarrow> Some x)"
  by (induction rs) auto

lemma column_update:
  assumes "\<And>r. P r \<Longrightarrow> k (f r) = k r"
    and "\<And>r. r \<in> set rs \<Longrightarrow> (if P r then v (f r) else v r) = (if k r = c then g (v r) else v r)"
  shows "column k v (update_where P f rs) = (column k v rs)(c := map_option g (column k v rs c))"
  using assms(2)
proof (induction rs)
  case Nil
  then show ?case by auto
next
  case (Cons r rs)
  have "column k v (update_where P f rs) = (column k v rs)(c := map_option g (column k v rs c))"
    by (rule Cons.IH) (rule Cons.prems, simp)
  then have "column k v (update_where P f rs) x
      = (if x = c then map_option g (column k v rs c) else column k v rs x)" for x
    by simp
  with Cons.prems [of r] assms(1) [of r] show ?case by (auto simp: fun_eq_iff split: if_splits)
qed

lemma column_same [table_simps]:
  assumes "\<And>r. P r \<Longrightarrow> k (f r) = k r" "\<And>r. P r \<Longrightarrow> v (f r) = v r"
  shows "column k v (update_where P f rs) = column k v rs"
  by (induction rs) (auto simp: assms)

lemma column_None: "column k v rs c = None \<longleftrightarrow> filter (\<lambda>r. k r = c) rs = []"
  by (induction rs) auto

lemma column_first: "filter (\<lambda>r. k r = c) rs = r # xs \<Longrightarrow> column k v rs c = Some (v r)"
  by (induction rs) (auto split: if_splits)

lemma column_unique:
  "distinct (map k rs) \<Longrightarrow> r \<in> set rs \<Longrightarrow> column k v rs (k r) = Some (v r)"
  by (induction rs) (auto simp: rev_image_eqI)

lemma same_key: "distinct (map k rs) \<Longrightarrow> r \<in> set rs \<Longrightarrow> s \<in> set rs \<Longrightarrow> k r = k s \<Longrightarrow> r = s"
  by (simp add: distinct_map inj_on_def)

lemma column_Some: "column k v rs c = Some x \<Longrightarrow> \<exists>r \<in> set rs. k r = c \<and> v r = x"
  by (induction rs) (auto split: if_splits)

subsection \<open>user.go\<close>

text \<open>
  The columns a query selects are scanned into a zero struct. \<open>default_credits\<close> is the default of
  \<^verbatim>\<open>users.credit_balance\<close>, a column that no SQL file of the repository creates.
\<close>

definition scan_user :: "user_row \<Rightarrow> User" where
  "scan_user u = \<lparr>u_ID = u_ID u, u_Email = u_Email u, u_PasswordHash = u_PasswordHash u,
     u_WalletPubkey = u_WalletPubkey u, u_CreditBalance = 0, u_CreatedAt = u_CreatedAt u\<rparr>"

definition user_Create ::
  "int \<Rightarrow> instant \<Rightarrow> string \<Rightarrow> string \<Rightarrow> string \<Rightarrow> db \<Rightarrow> db \<times> (db_error + User)" where
  "user_Create default_credits now email passwordHash walletPubkey db =
     (let row = \<lparr>u_ID = t_user_seq db, u_Email = email, u_PasswordHash = passwordHash,
                 u_WalletPubkey = walletPubkey, u_CreditBalance = default_credits,
                 u_CreatedAt = now, u_deleted_at = None\<rparr>;
          db' = db\<lparr>t_user_seq := t_user_seq db + 1\<rparr>
      in if 255 < length email \<or> 255 < length passwordHash \<or> 44 < length walletPubkey
         then (db', Inl TooLong)
         else if list_ex (\<lambda>u. u_Email u = email \<or> u_WalletPubkey u = walletPubkey) (t_users db)
         then (db', Inl UniqueViolation)
         else (db'\<lparr>t_users := t_users db @ [row]\<rparr>, Inr (scan_user row)))"

definition FindByEmail :: "bool \<Rightarrow> string \<Rightarrow> db \<Rightarrow> db_error + User" where
  "FindByEmail up email db = query up
     (map_sum id scan_user
       (query_row (filter (\<lambda>u. u_Email u = email \<and> u_deleted_at u = None) (t_users db))))"

definition FindByWallet :: "bool \<Rightarrow> string \<Rightarrow> db \<Rightarrow> db_error + User" where
  "FindByWallet up walletPubkey db = query up
     (map_sum id scan_user
       (query_row (filter (\<lambda>u. u_WalletPubkey u = walletPubkey \<and> u_deleted_at u = None)
         (t_users db))))"

subsection \<open>monitor.go\<close>

text \<open>
  A text argument compared with a \<^verbatim>\<open>UUID\<close> column is parsed by the server: \<open>uuid_in\<close>, a parameter,
  gives the canonical form of a UUID and fails on any other text.
\<close>

definition scan_monitor :: "monitor_row \<Rightarrow> Monitor" where
  "scan_monitor m = Monitor.truncate m"

definition monitor_Create ::
  "string \<Rightarrow> instant \<Rightarrow> int \<Rightarrow> string \<Rightarrow> int \<Rightarrow> db \<Rightarrow> db \<times> (db_error + Monitor)" where
  "monitor_Create uuid now ownerID targetURL intervalSeconds db =
     (let row = \<lparr>m_ID = uuid, m_OwnerID = ownerID, m_TargetURL = targetURL,
                 m_CheckIntervalSeconds = intervalSeconds, m_TotalSpentTokens = 0,
                 m_IsActive = True, m_CreatedAt = now, m_deleted_at = None\<rparr>
      in if \<not> (int4 ownerID \<and> int4 intervalSeconds) then (db, Inl OutOfRange)
         else if 512 < length targetURL then (db, Inl TooLong)
         else if \<not> list_ex (\<lambda>u. u_ID u = ownerID) (t_users db) then (db, Inl ForeignKeyViolation)
         else (db\<lparr>t_monitors := t_monitors db @ [row]\<rparr>, Inr (scan_monitor row)))"

definition FindByOwner :: "bool \<Rightarrow> int \<Rightarrow> db \<Rightarrow> db_error + Monitor list" where
  "FindByOwner up ownerID db = query up (Inr
     (map scan_monitor
       (sort_key (\<lambda>m. - m_CreatedAt m)
         (filter (\<lambda>m. m_OwnerID m = ownerID \<and> m_deleted_at m = None) (t_monitors db)))))"

text \<open>The owner joined to a monitor has credit left.\<close>

definition owner_has_credit :: "db \<Rightarrow> monitor_row \<Rightarrow> bool" where
  "owner_has_credit db m \<longleftrightarrow>
     list_ex (\<lambda>u. u_ID u = m_OwnerID m \<and> 0 < u_CreditBalance u) (t_users db)"

definition FindActive :: "bool \<Rightarrow> db \<Rightarrow> db_error + Monitor list" where
  "FindActive up db = query up (Inr
     (map scan_monitor
       (filter (\<lambda>m. m_IsActive m \<and> m_deleted_at m = None \<and> owner_has_credit db m)
         (t_monitors db))))"

definition FindMany ::
  "(string \<Rightarrow> string option) \<Rightarrow> bool \<Rightarrow> string list \<Rightarrow> db \<Rightarrow> db_error + Monitor list" where
  "FindMany uuid_in up ids db =
     (if ids = [] then Inr []
      else query up
        (if list_ex (\<lambda>i. uuid_in i = None) ids then Inl BadUUID
         else Inr (map scan_monitor
           (filter (\<lambda>m. Some (m_ID m) \<in> set (map uuid_in ids) \<and> m_IsActive m
                        \<and> m_deleted_at m = None \<and> owner_has_credit db m)
             (t_monitors db)))))"

definition FindByID ::
  "(string \<Rightarrow> string option) \<Rightarrow> bool \<Rightarrow> string \<Rightarrow> db \<Rightarrow> db_error + Monitor" where
  "FindByID uuid_in up i db = query up
     (case uuid_in i of
        None \<Rightarrow> Inl BadUUID
      | Some c \<Rightarrow> map_sum id scan_monitor
          (query_row (filter (\<lambda>m. m_ID m = c \<and> m_deleted_at m = None) (t_monitors db))))"

definition UpdateActive ::
  "(string \<Rightarrow> string option) \<Rightarrow> fate \<Rightarrow> string \<Rightarrow> bool \<Rightarrow> db \<Rightarrow> db \<times> (db_error + unit)" where
  "UpdateActive uuid_in f i isActive db =
     (case uuid_in i of
        None \<Rightarrow> (db, Inl BadUUID)
      | Some c \<Rightarrow> exec f (\<lambda>db. db\<lparr>t_monitors :=
          update_where (\<lambda>m. m_ID m = c \<and> m_deleted_at m = None)
            (\<lambda>m. m\<lparr>m_IsActive := isActive\<rparr>) (t_monitors db)\<rparr>) db)"

definition monitor_Delete ::
  "(string \<Rightarrow> string option) \<Rightarrow> instant \<Rightarrow> fate \<Rightarrow> string \<Rightarrow> int \<Rightarrow> db \<Rightarrow> db \<times> (db_error + unit)"
where
  "monitor_Delete uuid_in now f i ownerID db =
     (case uuid_in i of
        None \<Rightarrow> (db, Inl BadUUID)
      | Some c \<Rightarrow> exec f (\<lambda>db. db\<lparr>t_monitors :=
          update_where (\<lambda>m. m_ID m = c \<and> m_OwnerID m = ownerID)
            (\<lambda>m. m\<lparr>m_deleted_at := Some now\<rparr>) (t_monitors db)\<rparr>) db)"

text \<open>
  The statement of \<^verbatim>\<open>DeductCredit\<close>, which the settlement repeats: it fails when some row leaves the
  range of its column.
\<close>

definition add_spent :: "string \<Rightarrow> rat \<Rightarrow> db \<Rightarrow> db_error + db" where
  "add_spent c tokenCost db =
     (if list_ex (\<lambda>m. m_ID m = c \<and> numeric_12_4 (m_TotalSpentTokens m + tokenCost) = None)
           (t_monitors db)
      then Inl OutOfRange
      else Inr (db\<lparr>t_monitors :=
        update_where (\<lambda>m. m_ID m = c)
          (\<lambda>m. m\<lparr>m_TotalSpentTokens := the (numeric_12_4 (m_TotalSpentTokens m + tokenCost))\<rparr>)
          (t_monitors db)\<rparr>))"

definition DeductCredit ::
  "(string \<Rightarrow> string option) \<Rightarrow> fate \<Rightarrow> string \<Rightarrow> rat \<Rightarrow> db \<Rightarrow> db \<times> (db_error + unit)" where
  "DeductCredit uuid_in f i tokenCost db =
     (case uuid_in i of
        None \<Rightarrow> (db, Inl BadUUID)
      | Some c \<Rightarrow>
          (case add_spent c tokenCost db of
             Inl e \<Rightarrow> (db, Inl e)
           | Inr db' \<Rightarrow> exec f (\<lambda>_. db') db))"

subsection \<open>runners.go\<close>

text \<open>
  What a deployment's schema decides about \<^verbatim>\<open>Register\<close>: whether a unique index without a predicate
  on \<^verbatim>\<open>owner_pubkey\<close> exists, which \<^verbatim>\<open>ON CONFLICT (owner_pubkey)\<close> needs, and whether \<^verbatim>\<open>node_pubkey\<close>,
  which the statement does not supply, may be \<^verbatim>\<open>NULL\<close>. In \<^verbatim>\<open>schema.sql\<close> the index is partial and the
  column is \<^verbatim>\<open>NOT NULL\<close>.
\<close>

record schema =
  arbiter_owner_pubkey :: bool
  node_pubkey_nullable :: bool

definition schema_sql :: schema where
  "schema_sql = \<lparr>arbiter_owner_pubkey = False, node_pubkey_nullable = False\<rparr>"

definition zero_time :: instant where
  "zero_time = - 62135596800 * second"

text \<open>The eleven columns of the queries below; \<^verbatim>\<open>RETURNING\<close> of \<^verbatim>\<open>Register\<close> has them all.\<close>

definition scan_runner :: "runner_row \<Rightarrow> RunnerNode" where
  "scan_runner n = (RunnerNode.truncate n)\<lparr>r_CreatedAt := zero_time, r_UpdatedAt := zero_time,
     r_DeletedAt := None, r_IsValidator := False, r_StakedAmount := 0, r_UnstakeRequestAt := None\<rparr>"

definition runner_Register ::
  "schema \<Rightarrow> instant \<Rightarrow> string \<Rightarrow> string \<Rightarrow> string \<Rightarrow> rat \<Rightarrow> rat \<Rightarrow> db \<Rightarrow>
   db \<times> (db_error + RunnerNode)" where
  "runner_Register sch now ownerEmail ownerPubkey region lat lng db =
     (let db' = db\<lparr>t_runner_seq := t_runner_seq db + 1\<rparr>;
          row = \<lparr>r_ID = t_runner_seq db, r_OwnerEmail = ownerEmail, r_OwnerPubkey = ownerPubkey,
                 r_NodePubkey = None, r_Region = region, r_Latitude = the (numeric_9_6 lat),
                 r_Longitude = the (numeric_9_6 lng),
                 r_OffchainAccumulatedTokens = 0, r_TotalEarnedTokensAllTime = 0,
                 r_PendingSolanaSync = False, r_LastSeenTimestamp = now, r_CreatedAt = now,
                 r_UpdatedAt = now, r_DeletedAt = None, r_IsValidator = False, r_StakedAmount = 0,
                 r_UnstakeRequestAt = None, r_node_pda = None\<rparr>;
          refresh = (\<lambda>n. n\<lparr>r_LastSeenTimestamp := now, r_Region := region,
                           r_Latitude := the (numeric_9_6 lat), r_Longitude := the (numeric_9_6 lng),
                           r_UpdatedAt := now\<rparr>)
      in if \<not> arbiter_owner_pubkey sch then (db, Inl NoArbiter)
         else if 255 < length ownerEmail \<or> 128 < length ownerPubkey \<or> 20 < length region
         then (db', Inl TooLong)
         else if numeric_9_6 lat = None \<or> numeric_9_6 lng = None then (db', Inl OutOfRange)
         else if \<not> node_pubkey_nullable sch then (db', Inl NotNullViolation)
         else
           (case filter (\<lambda>n. r_OwnerPubkey n = ownerPubkey) (t_runner_nodes db) of
              n # _ \<Rightarrow>
                (db'\<lparr>t_runner_nodes :=
                   update_where (\<lambda>n. r_OwnerPubkey n = ownerPubkey) refresh (t_runner_nodes db)\<rparr>,
                 Inr (RunnerNode.truncate (refresh n)))
            | [] \<Rightarrow>
                (if \<not> list_ex (\<lambda>u. u_Email u = ownerEmail) (t_users db)
                 then (db', Inl ForeignKeyViolation)
                 else (db'\<lparr>t_runner_nodes := t_runner_nodes db @ [row]\<rparr>,
                       Inr (RunnerNode.truncate row)))))"

definition runner_by :: "(runner_row \<Rightarrow> bool) \<Rightarrow> db \<Rightarrow> db_error + runner_row" where
  "runner_by P db = query_row (filter (\<lambda>n. P n \<and> r_DeletedAt n = None) (t_runner_nodes db))"

definition FindByPubkey :: "bool \<Rightarrow> string \<Rightarrow> db \<Rightarrow> db_error + RunnerNode" where
  "FindByPubkey up pubkey db =
     query up (map_sum id scan_runner (runner_by (\<lambda>n. r_OwnerPubkey n = pubkey) db))"

text \<open>
  \<^verbatim>\<open>Scan\<close> fails when the number of its targets is not the number of columns selected. This query
  selects eleven columns, and \<^verbatim>\<open>Scan\<close> is given twelve targets (\<^verbatim>\<open>&n.NodePubkey\<close> twice).
\<close>

definition scan_into :: "nat \<Rightarrow> nat \<Rightarrow> 'r \<Rightarrow> db_error + 'r" where
  "scan_into columns targets r = (if columns = targets then Inr r else Inl ScanError)"

definition FindByNodePDA :: "bool \<Rightarrow> string \<Rightarrow> db \<Rightarrow> db_error + RunnerNode" where
  "FindByNodePDA up nodePDA db = query up
     (case runner_by (\<lambda>n. r_node_pda n = Some nodePDA) db of
        Inl e \<Rightarrow> Inl e
      | Inr n \<Rightarrow> map_sum id scan_runner (scan_into 11 12 n))"

definition FindByNodePubKey :: "bool \<Rightarrow> string \<Rightarrow> db \<Rightarrow> db_error + RunnerNode" where
  "FindByNodePubKey up nodePubkey db =
     query up (map_sum id scan_runner (runner_by (\<lambda>n. r_NodePubkey n = Some nodePubkey) db))"

definition UpdateHeartbeat ::
  "instant \<Rightarrow> fate \<Rightarrow> string \<Rightarrow> db \<Rightarrow> db \<times> (db_error + unit)" where
  "UpdateHeartbeat now f nodePubkey db =
     exec f (\<lambda>db. db\<lparr>t_runner_nodes :=
       update_where (\<lambda>n. r_NodePubkey n = Some nodePubkey)
         (\<lambda>n. n\<lparr>r_LastSeenTimestamp := now, r_UpdatedAt := now\<rparr>) (t_runner_nodes db)\<rparr>) db"

definition SetPendingSync ::
  "instant \<Rightarrow> fate \<Rightarrow> string \<Rightarrow> bool \<Rightarrow> db \<Rightarrow> db \<times> (db_error + unit)" where
  "SetPendingSync now f pubkey pending db =
     exec f (\<lambda>db. db\<lparr>t_runner_nodes :=
       update_where (\<lambda>n. r_OwnerPubkey n = pubkey)
         (\<lambda>n. n\<lparr>r_PendingSolanaSync := pending, r_UpdatedAt := now\<rparr>) (t_runner_nodes db)\<rparr>) db"

definition FindByEmailAndPubkey ::
  "bool \<Rightarrow> string \<Rightarrow> string \<Rightarrow> db \<Rightarrow> db_error + RunnerNode list" where
  "FindByEmailAndPubkey up email pubkey db = query up (Inr
     (map scan_runner
       (sort_key (\<lambda>n. - r_CreatedAt n)
         (filter (\<lambda>n. r_OwnerEmail n = email \<and> r_OwnerPubkey n = pubkey \<and> r_DeletedAt n = None)
           (t_runner_nodes db)))))"

subsection \<open>What the queries promise\<close>

text \<open>A monitor the scheduler may dispatch.\<close>

definition eligible :: "db \<Rightarrow> Monitor \<Rightarrow> bool" where
  "eligible db m \<longleftrightarrow> (\<exists>row \<in> set (t_monitors db). m = scan_monitor row \<and> m_IsActive row
     \<and> m_deleted_at row = None \<and> owner_has_credit db row)"

lemma scan_monitor_id [simp]: "m_ID (scan_monitor row) = m_ID row"
  by (simp add: scan_monitor_def Monitor.truncate_def)

lemma FindMany_Inr:
  assumes "FindMany uuid_in up ids db = Inr monitors"
  shows "\<forall>m \<in> set monitors. eligible db m \<and> Some (m_ID m) \<in> set (map uuid_in ids)"
    and "distinct (map m_ID (t_monitors db)) \<Longrightarrow> distinct (map m_ID monitors)"
proof -
  show "\<forall>m \<in> set monitors. eligible db m \<and> Some (m_ID m) \<in> set (map uuid_in ids)"
    using assms by (fastforce simp: FindMany_def query_Inr_iff eligible_def split: if_splits)
  assume d: "distinct (map m_ID (t_monitors db))"
  have "map m_ID (map scan_monitor rows) = map m_ID rows" for rows
    by simp
  with d assms show "distinct (map m_ID monitors)"
    by (auto simp: FindMany_def query_Inr_iff o_def split: if_splits intro: distinct_map_filter)
qed

lemma FindActive_Inr:
  "FindActive up db = Inr monitors \<Longrightarrow> set monitors = {m. eligible db m}"
  by (auto simp: FindActive_def query_Inr_iff eligible_def)

subsection \<open>Sample tables\<close>

text \<open>A small set of tables for the witnesses.\<close>

definition demo_user :: "int \<Rightarrow> string \<Rightarrow> int \<Rightarrow> user_row" where
  "demo_user i w c = \<lparr>u_ID = i, u_Email = w, u_PasswordHash = ''h'', u_WalletPubkey = w,
     u_CreditBalance = c, u_CreatedAt = 0, u_deleted_at = None\<rparr>"

definition demo_monitor_row :: "string \<Rightarrow> int \<Rightarrow> monitor_row" where
  "demo_monitor_row i ow = \<lparr>m_ID = i, m_OwnerID = ow, m_TargetURL = ''http://x'',
     m_CheckIntervalSeconds = 60, m_TotalSpentTokens = 0, m_IsActive = True, m_CreatedAt = 0,
     m_deleted_at = None\<rparr>"

definition demo_runner :: "pubkey \<Rightarrow> int \<Rightarrow> rat \<Rightarrow> runner_row" where
  "demo_runner pk stake bal = \<lparr>r_ID = 1, r_OwnerEmail = ''e'', r_OwnerPubkey = pk,
     r_NodePubkey = Some pk, r_Region = ''eu'', r_Latitude = 0, r_Longitude = 0,
     r_OffchainAccumulatedTokens = bal, r_TotalEarnedTokensAllTime = bal, r_PendingSolanaSync = False,
     r_LastSeenTimestamp = 0, r_CreatedAt = 0, r_UpdatedAt = 0, r_DeletedAt = None,
     r_IsValidator = False, r_StakedAmount = stake, r_UnstakeRequestAt = None, r_node_pda = None\<rparr>"

definition demo_db :: "int \<Rightarrow> int \<Rightarrow> rat \<Rightarrow> db" where
  "demo_db c stake bal = \<lparr>t_users = [demo_user 1 ''w'' c], t_monitors = [demo_monitor_row ''m'' 1],
     t_runner_nodes = [demo_runner ''r'' stake bal], t_ping_logs = [], t_sync_events = [],
     t_partitions = [], t_user_seq = 2, t_runner_seq = 2, t_ping_seq = 1\<rparr>"

end
