(* ===== verification/Settlement.thy ===== *)
theory Settlement
  imports Store
begin

text \<open>
  The settlement of one probe: \<^verbatim>\<open>ProcessJobSettlement\<close> of \<^verbatim>\<open>db/repositories/storage.go\<close> with the
  stored procedure \<^verbatim>\<open>create_payout_event_if_threshold\<close> of \<^verbatim>\<open>solana.sql\<close> that it calls. The
  procedure is a function from tables to tables; the transaction is the composition of its
  statements, undone by the rollback unless the commit reaches the server. The abstract
  specification is a ledger of credits, spending, balances and queued payouts.
\<close>

subsection \<open>The reward engine\<close>

definition stake_multiplier :: "int \<Rightarrow> rat" where
  "stake_multiplier staked_amount =
     (let m = (if staked_amount \<ge> 20 then 3 / 2 + (of_int staked_amount - 20) * (1 / 100) else 1)
      in if m > 5 then 5 else m)"

definition new_reward :: "int \<Rightarrow> rat" where
  "new_reward staked_amount =
     (let r = 1 / 100 * stake_multiplier staked_amount in if r > 1 / 2 then 1 / 2 else r)"

record payout =
  pay_created :: bool
  pay_amount :: rat
  pay_reward_delta :: rat
  pay_node_pubkey :: "string option"

definition create_payout_event_if_threshold ::
  "string \<Rightarrow> instant \<Rightarrow> string \<Rightarrow> rat \<Rightarrow> db \<Rightarrow> db_error + (db \<times> payout)" where
  "create_payout_event_if_threshold uuid now p_pubkey p_threshold db =
     (case filter (\<lambda>n. r_OwnerPubkey n = p_pubkey) (t_runner_nodes db) of
        [] \<Rightarrow> Inr (db, \<lparr>pay_created = False, pay_amount = 0, pay_reward_delta = 0,
                        pay_node_pubkey = None\<rparr>)
      | n # _ \<Rightarrow>
          (let reward = new_reward (r_StakedAmount n);
               balance = r_OffchainAccumulatedTokens n + reward;
               offchain = (if balance \<ge> p_threshold then 0 else balance)
           in if list_ex (\<lambda>n. r_OwnerPubkey n = p_pubkey
                   \<and> (numeric_12_4 offchain = None
                      \<or> numeric_12_4 (r_TotalEarnedTokensAllTime n + reward) = None))
                (t_runner_nodes db)
              then Inl OutOfRange
              else
                (let db' = db\<lparr>t_runner_nodes :=
                       update_where (\<lambda>n. r_OwnerPubkey n = p_pubkey)
                         (\<lambda>n. n\<lparr>r_OffchainAccumulatedTokens := the (numeric_12_4 offchain),
                                r_TotalEarnedTokensAllTime :=
                                  the (numeric_12_4 (r_TotalEarnedTokensAllTime n + reward)),
                                r_UpdatedAt := now\<rparr>)
                         (t_runner_nodes db)\<rparr>
                 in if balance \<ge> p_threshold
                    then Inr (db'\<lparr>t_sync_events := t_sync_events db' @
                               [\<lparr>e_ID = uuid, e_RunnerPubkey = p_pubkey, e_Amount = balance,
                                 e_Status = PENDING, e_RetryCount = 0, e_TxSignature = None,
                                 e_CreatedAt = now, e_UpdatedAt = now\<rparr>]\<rparr>,
                              \<lparr>pay_created = True, pay_amount = balance,
                               pay_reward_delta = reward, pay_node_pubkey = Some p_pubkey\<rparr>)
                    else Inr (db', \<lparr>pay_created = False, pay_amount = 0,
                               pay_reward_delta = reward, pay_node_pubkey = Some p_pubkey\<rparr>))))"

text \<open>\<^verbatim>\<open>AccumulateReward\<close> of \<^verbatim>\<open>runners.go\<close> passes its threshold and drops its \<^verbatim>\<open>delta\<close>.\<close>

record AccumulateResult =
  acc_NewBalance :: rat
  acc_DidSync :: bool

definition AccumulateReward ::
  "string \<Rightarrow> instant \<Rightarrow> bool \<Rightarrow> string \<Rightarrow> rat \<Rightarrow> rat \<Rightarrow> db \<Rightarrow> db \<times> (db_error + AccumulateResult)"
where
  "AccumulateReward uuid now up pubkey delta threshold db =
     (case query up (create_payout_event_if_threshold uuid now pubkey threshold db) of
        Inl e \<Rightarrow> (db, Inl e)
      | Inr (db', p) \<Rightarrow> (db', Inr \<lparr>acc_NewBalance = pay_amount p, acc_DidSync = pay_created p\<rparr>))"

subsection \<open>ProcessJobSettlement\<close>

record ProcessJobSettlementResponse =
  s_Created :: bool
  s_Amount :: rat
  s_RewardDelta :: rat
  s_Owner :: string

text \<open>What the network does to the requests of one transaction.\<close>

record tx_net =
  net_begin :: bool
  net_deduct :: bool
  net_spend :: bool
  net_payout :: bool
  net_commit :: fate

definition deduct_credit :: "string \<Rightarrow> db \<Rightarrow> db_error + db" where
  "deduct_credit c db =
     (let owner = map m_OwnerID (filter (\<lambda>m. m_ID m = c) (t_monitors db));
          P = (\<lambda>u. owner \<noteq> [] \<and> u_ID u = hd owner \<and> 0 < u_CreditBalance u)
      in if list_ex P (t_users db)
         then Inr (db\<lparr>t_users :=
                update_where P (\<lambda>u. u\<lparr>u_CreditBalance := u_CreditBalance u - 1\<rparr>) (t_users db)\<rparr>)
         else Inl InsufficientCredits)"

definition settlement_statements ::
  "(string \<Rightarrow> string option) \<Rightarrow> string \<Rightarrow> instant \<Rightarrow> rat \<Rightarrow> tx_net \<Rightarrow> string \<Rightarrow> string \<Rightarrow> rat \<Rightarrow>
   db \<Rightarrow> db_error + (db \<times> ProcessJobSettlementResponse)" where
  "settlement_statements uuid_in uuid now threshold net monitorID runnerPubkey tokenCost db =
     (case uuid_in monitorID of
        None \<Rightarrow> Inl InsufficientCredits
      | Some c \<Rightarrow>
     (case query (net_deduct net) (deduct_credit c db) of
        Inl _ \<Rightarrow> Inl InsufficientCredits
      | Inr db1 \<Rightarrow>
     (case query (net_spend net) (add_spent c tokenCost db1) of
        Inl e \<Rightarrow> Inl e
      | Inr db2 \<Rightarrow>
     (case query (net_payout net)
             (create_payout_event_if_threshold uuid now runnerPubkey threshold db2) of
        Inl e \<Rightarrow> Inl e
      | Inr (db3, p) \<Rightarrow>
     (case pay_node_pubkey p of
        None \<Rightarrow> Inl ScanError
      | Some owner \<Rightarrow>
          Inr (db3, \<lparr>s_Created = pay_created p, s_Amount = pay_amount p,
                     s_RewardDelta = pay_reward_delta p, s_Owner = owner\<rparr>))))))"

definition ProcessJobSettlement ::
  "(string \<Rightarrow> string option) \<Rightarrow> string \<Rightarrow> instant \<Rightarrow> rat \<Rightarrow> tx_net \<Rightarrow> string \<Rightarrow> string \<Rightarrow> rat \<Rightarrow>
   db \<Rightarrow> db \<times> (db_error + ProcessJobSettlementResponse)" where
  "ProcessJobSettlement uuid_in uuid now threshold net monitorID runnerPubkey tokenCost db =
     (if \<not> net_begin net then (db, Inl Unavailable)
      else
        (case settlement_statements uuid_in uuid now threshold net monitorID runnerPubkey tokenCost db of
           Inl e \<Rightarrow> (db, Inl e)
         | Inr (db', res) \<Rightarrow>
             (case exec (net_commit net) (\<lambda>_. db') db of
                (db'', Inl e) \<Rightarrow> (db'', Inl e)
              | (db'', Inr _) \<Rightarrow> (db'', Inr res))))"

text \<open>
  What the tables must satisfy for the settlement's lookups to be lookups: keys are unique, as the
  schema declares, and the token columns hold four decimals. The index of \<^verbatim>\<open>schema.sql\<close> on \<^verbatim>\<open>owner_pubkey\<close> leaves out
  deleted nodes; no statement of the repository deletes one, so an owner has one row altogether.
\<close>

definition wf_db :: "db \<Rightarrow> bool" where
  "wf_db db \<longleftrightarrow>
     distinct (map u_ID (t_users db)) \<and> distinct (map m_ID (t_monitors db))
     \<and> distinct (map r_OwnerPubkey (t_runner_nodes db))
     \<and> (\<forall>u \<in> set (t_users db). 0 \<le> u_CreditBalance u)
     \<and> (\<forall>m \<in> set (t_monitors db). decimal4 (m_TotalSpentTokens m))
     \<and> (\<forall>n \<in> set (t_runner_nodes db). decimal4 (r_OffchainAccumulatedTokens n)
          \<and> decimal4 (r_TotalEarnedTokensAllTime n) \<and> 0 \<le> r_OffchainAccumulatedTokens n)"

subsection \<open>The reward\<close>

lemma new_reward_stake:
  "0 \<le> s \<Longrightarrow> new_reward s =
     (if s < 20 then 1 / 100 else if s < 370 then 1 / 100 + of_int (s + 30) / 10000 else 1 / 20)"
  by (auto simp: new_reward_def stake_multiplier_def Let_def field_simps)

lemma new_reward_bounds: "1 / 100 \<le> new_reward s \<and> new_reward s \<le> 1 / 20"
  by (auto simp: new_reward_def stake_multiplier_def Let_def field_simps)

lemma new_reward_decimal: "decimal4 (new_reward s)"
proof -
  have "new_reward s = of_int (if s < 20 then 100 else if s \<le> 370 then 130 + s else 500) / 10000"
    by (auto simp: new_reward_def stake_multiplier_def Let_def field_simps)
  then show ?thesis by (auto simp only: decimal4_iff)
qed

lemma new_reward_mono: "s \<le> s' \<Longrightarrow> new_reward s \<le> new_reward s'"
  by (auto simp: new_reward_def stake_multiplier_def Let_def field_simps)

subsection \<open>The ledger\<close>

record ledger =
  lg_credit :: "int \<Rightarrow> int option"
  lg_owner :: "string \<Rightarrow> int option"
  lg_spent :: "string \<Rightarrow> rat option"
  lg_stake :: "pubkey \<Rightarrow> int option"
  lg_balance :: "pubkey \<Rightarrow> rat option"
  lg_earned :: "pubkey \<Rightarrow> rat option"
  lg_queued :: "pubkey \<Rightarrow> rat list"

definition queued :: "pubkey \<Rightarrow> SolanaSyncEvent list \<Rightarrow> rat list" where
  "queued pk es = map e_Amount (filter (\<lambda>e. e_RunnerPubkey e = pk) es)"

lemma queued_append [simp]: "queued pk (es @ fs) = queued pk es @ queued pk fs"
  by (simp add: queued_def)

lemma queued_single [simp]: "queued pk [e] = (if e_RunnerPubkey e = pk then [e_Amount e] else [])"
  by (simp add: queued_def)

definition ledger_of :: "db \<Rightarrow> ledger" where
  "ledger_of db = \<lparr>
     lg_credit = column u_ID u_CreditBalance (t_users db),
     lg_owner = column m_ID m_OwnerID (t_monitors db),
     lg_spent = column m_ID m_TotalSpentTokens (t_monitors db),
     lg_stake = column r_OwnerPubkey r_StakedAmount (t_runner_nodes db),
     lg_balance = column r_OwnerPubkey r_OffchainAccumulatedTokens (t_runner_nodes db),
     lg_earned = column r_OwnerPubkey r_TotalEarnedTokensAllTime (t_runner_nodes db),
     lg_queued = (\<lambda>pk. queued pk (t_sync_events db))\<rparr>"

text \<open>
  What one settlement promises: it takes one credit from the monitor's owner, adds the cost to the
  monitor, and rewards the runner according to its stake; at the threshold the whole balance is
  queued as one payout.
\<close>

definition settle_spec :: "rat \<Rightarrow> rat \<Rightarrow> string \<Rightarrow> pubkey \<Rightarrow> ledger \<Rightarrow> ledger option" where
  "settle_spec threshold cost monitor runner L =
     (case (lg_owner L monitor, lg_stake L runner) of
        (Some owner, Some stake) \<Rightarrow>
          (case lg_credit L owner of
             None \<Rightarrow> None
           | Some c \<Rightarrow>
               if c \<le> 0 then None
               else
                 (let b = the (lg_balance L runner) + new_reward stake
                  in Some (L\<lparr>
                       lg_credit := (lg_credit L)(owner \<mapsto> c - 1),
                       lg_spent := (lg_spent L)(monitor := map_option (\<lambda>x. x + cost) (lg_spent L monitor)),
                       lg_balance := (lg_balance L)(runner \<mapsto> (if b \<ge> threshold then 0 else b)),
                       lg_earned := (lg_earned L)(runner :=
                          map_option (\<lambda>x. x + new_reward stake) (lg_earned L runner)),
                       lg_queued := (lg_queued L)(runner :=
                          (if b \<ge> threshold then lg_queued L runner @ [b] else lg_queued L runner))\<rparr>)))
      | _ \<Rightarrow> None)"

subsection \<open>The statements on the ledger\<close>

lemma deduct_credit_Inr:
  assumes "wf_db db" "deduct_credit c db = Inr db'"
  obtains owner n where
    "column m_ID m_OwnerID (t_monitors db) c = Some owner"
    "column u_ID u_CreditBalance (t_users db) owner = Some n" "0 < n"
    "ledger_of db' = (ledger_of db)\<lparr>lg_credit := (lg_credit (ledger_of db))(owner \<mapsto> n - 1)\<rparr>"
    "wf_db db'" "t_users db' = update_where (\<lambda>u. u_ID u = owner)
        (\<lambda>u. u\<lparr>u_CreditBalance := u_CreditBalance u - 1\<rparr>) (t_users db)"
    "db' = db\<lparr>t_users := t_users db'\<rparr>"
proof -
  let ?ms = "filter (\<lambda>m. m_ID m = c) (t_monitors db)"
  let ?f = "\<lambda>u :: user_row. u\<lparr>u_CreditBalance := u_CreditBalance u - 1\<rparr>"
  from assms(2) obtain m ms where ms: "?ms = m # ms"
    by (cases ?ms) (auto simp: deduct_credit_def Let_def list_ex_iff split: if_splits)
  let ?P = "\<lambda>u. u_ID u = m_OwnerID m \<and> 0 < u_CreditBalance u"
  from assms(2) ms have ex: "\<exists>u \<in> set (t_users db). ?P u"
    and db': "db' = db\<lparr>t_users := update_where ?P ?f (t_users db)\<rparr>"
    by (auto simp: deduct_credit_def Let_def list_ex_iff split: if_splits)
  from ex obtain u where u: "u \<in> set (t_users db)" "?P u" by blast
  have du: "distinct (map u_ID (t_users db))" using assms(1) by (simp add: wf_db_def)
  have same: "u_ID x = m_OwnerID m \<Longrightarrow> x = u" if "x \<in> set (t_users db)" for x
    using same_key [OF du that u(1)] u(2) by simp
  have upd: "update_where ?P ?f (t_users db) = update_where (\<lambda>u. u_ID u = m_OwnerID m) ?f (t_users db)"
    using same u(2) by (auto simp: update_where_def)
  have col: "column u_ID u_CreditBalance (t_users db) (m_OwnerID m) = Some (u_CreditBalance u)"
    using column_unique [OF du u(1), of u_CreditBalance] u(2) by simp
  have "column u_ID u_CreditBalance (update_where ?P ?f (t_users db))
      = (column u_ID u_CreditBalance (t_users db))
          (m_OwnerID m := map_option (\<lambda>x. x - 1) (column u_ID u_CreditBalance (t_users db) (m_OwnerID m)))"
    by (rule column_update) (use same u(2) in auto)
  then have "column u_ID u_CreditBalance (t_users db')
      = (column u_ID u_CreditBalance (t_users db))(m_OwnerID m \<mapsto> u_CreditBalance u - 1)"
    by (simp add: db' col)
  moreover have "wf_db db'"
    using assms(1) unfolding wf_db_def db'
    by (auto simp: map_update_where set_update_where)
  ultimately show ?thesis
    using that [of "m_OwnerID m" "u_CreditBalance u"] col u(2) column_first [OF ms, of m_OwnerID]
      upd db' by (simp add: ledger_of_def)
qed

lemma add_spent_Inr:
  assumes "wf_db db" "decimal4 cost" "add_spent c cost db = Inr db'"
  shows "ledger_of db' = (ledger_of db)\<lparr>lg_spent :=
      (lg_spent (ledger_of db))(c := map_option (\<lambda>x. x + cost) (lg_spent (ledger_of db) c))\<rparr>"
    and "wf_db db'"
    and "db' = db\<lparr>t_monitors := t_monitors db'\<rparr>"
proof -
  let ?f = "\<lambda>m :: monitor_row.
    m\<lparr>m_TotalSpentTokens := the (numeric_12_4 (m_TotalSpentTokens m + cost))\<rparr>"
  from assms(3) have db': "db' = db\<lparr>t_monitors := update_where (\<lambda>m. m_ID m = c) ?f (t_monitors db)\<rparr>"
    and ok: "\<forall>m \<in> set (t_monitors db). m_ID m = c \<longrightarrow> numeric_12_4 (m_TotalSpentTokens m + cost) \<noteq> None"
    by (auto simp: add_spent_def list_ex_iff split: if_splits)
  have v: "m_TotalSpentTokens (?f m) = m_TotalSpentTokens m + cost"
    if "m \<in> set (t_monitors db)" "m_ID m = c" for m
    using ok that assms(1,2) by (simp add: wf_db_def numeric_12_4_the decimal4_add del: not_None_eq)
  have "column m_ID m_TotalSpentTokens (update_where (\<lambda>m. m_ID m = c) ?f (t_monitors db))
      = (column m_ID m_TotalSpentTokens (t_monitors db))
          (c := map_option (\<lambda>x. x + cost) (column m_ID m_TotalSpentTokens (t_monitors db) c))"
    by (rule column_update) (use v in auto)
  then show "ledger_of db' = (ledger_of db)\<lparr>lg_spent :=
      (lg_spent (ledger_of db))(c := map_option (\<lambda>x. x + cost) (lg_spent (ledger_of db) c))\<rparr>"
    by (simp add: ledger_of_def db' column_same)
  show "wf_db db'"
    using assms(1,2) v unfolding wf_db_def db'
    by (auto simp: map_update_where set_update_where decimal4_add)
  show "db' = db\<lparr>t_monitors := t_monitors db'\<rparr>" by (simp add: db')
qed

lemma payout_Inr:
  assumes "wf_db db" "create_payout_event_if_threshold uuid now pk threshold db = Inr (db', p)"
    and "pay_node_pubkey p \<noteq> None"
  obtains s b where
    "lg_stake (ledger_of db) pk = Some s" "lg_balance (ledger_of db) pk = Some b"
    "lg_balance (ledger_of db') = (lg_balance (ledger_of db))
       (pk \<mapsto> (if b + new_reward s \<ge> threshold then 0 else b + new_reward s))"
    "lg_earned (ledger_of db') = (lg_earned (ledger_of db))
       (pk := map_option (\<lambda>x. x + new_reward s) (lg_earned (ledger_of db) pk))"
    "lg_stake (ledger_of db') = lg_stake (ledger_of db)"
    "lg_queued (ledger_of db') = (lg_queued (ledger_of db))
       (pk := (if b + new_reward s \<ge> threshold then lg_queued (ledger_of db) pk @ [b + new_reward s]
               else lg_queued (ledger_of db) pk))"
    "p = \<lparr>pay_created = b + new_reward s \<ge> threshold,
          pay_amount = (if b + new_reward s \<ge> threshold then b + new_reward s else 0),
          pay_reward_delta = new_reward s, pay_node_pubkey = Some pk\<rparr>"
    "wf_db db'" "t_users db' = t_users db" "t_monitors db' = t_monitors db"
    "t_ping_logs db' = t_ping_logs db" "t_partitions db' = t_partitions db"
proof -
  let ?ns = "filter (\<lambda>n. r_OwnerPubkey n = pk) (t_runner_nodes db)"
  from assms(2,3) obtain n ns where ns: "?ns = n # ns"
    by (cases ?ns) (auto simp: create_payout_event_if_threshold_def)
  then have n: "n \<in> set (t_runner_nodes db)" "r_OwnerPubkey n = pk"
    by (auto simp: filter_eq_Cons_iff)
  let ?r = "new_reward (r_StakedAmount n)"
  let ?b = "r_OffchainAccumulatedTokens n"
  let ?off = "if ?b + ?r \<ge> threshold then 0 else ?b + ?r"
  let ?f = "\<lambda>x :: runner_row. x\<lparr>r_OffchainAccumulatedTokens := the (numeric_12_4 ?off),
      r_TotalEarnedTokensAllTime := the (numeric_12_4 (r_TotalEarnedTokensAllTime x + ?r)),
      r_UpdatedAt := now\<rparr>"
  let ?rows = "update_where (\<lambda>n. r_OwnerPubkey n = pk) ?f (t_runner_nodes db)"
  have ok: "numeric_12_4 ?off \<noteq> None" "numeric_12_4 (r_TotalEarnedTokensAllTime n + ?r) \<noteq> None"
    using assms(2) n ns by (auto simp: create_payout_event_if_threshold_def Let_def list_ex_iff split: if_splits)
  have d: "decimal4 ?b" "decimal4 (r_TotalEarnedTokensAllTime n)" "0 \<le> ?b"
    "distinct (map r_OwnerPubkey (t_runner_nodes db))"
    using assms(1) n by (auto simp: wf_db_def)
  have off: "the (numeric_12_4 ?off) = ?off" "decimal4 ?off" "0 \<le> ?off"
    using ok(1) d new_reward_decimal new_reward_bounds [of "r_StakedAmount n"]
    by (auto simp: numeric_12_4_the decimal4_add simp del: not_None_eq)
  have tot: "the (numeric_12_4 (r_TotalEarnedTokensAllTime n + ?r)) = r_TotalEarnedTokensAllTime n + ?r"
    using ok(2) d new_reward_decimal by (simp add: numeric_12_4_the decimal4_add del: not_None_eq)
  have same: "x = n" if "x \<in> set (t_runner_nodes db)" "r_OwnerPubkey x = pk" for x
    using same_key [OF d(4) that(1) n(1)] that(2) n(2) by simp
  have bal: "column r_OwnerPubkey r_OffchainAccumulatedTokens ?rows
      = (column r_OwnerPubkey r_OffchainAccumulatedTokens (t_runner_nodes db))(pk := map_option (\<lambda>_. ?off)
          (column r_OwnerPubkey r_OffchainAccumulatedTokens (t_runner_nodes db) pk))"
    by (rule column_update) (simp_all add: off(1))
  have ear: "column r_OwnerPubkey r_TotalEarnedTokensAllTime ?rows
      = (column r_OwnerPubkey r_TotalEarnedTokensAllTime (t_runner_nodes db))(pk := map_option (\<lambda>x. x + ?r)
          (column r_OwnerPubkey r_TotalEarnedTokensAllTime (t_runner_nodes db) pk))"
    by (rule column_update) (use same tot in auto)
  have col: "column r_OwnerPubkey v (t_runner_nodes db) pk = Some (v n)" for v :: "runner_row \<Rightarrow> 'v"
    by (rule column_first [OF ns])
  have wf: "wf_db db'" if "t_runner_nodes db' = ?rows" "t_users db' = t_users db"
    "t_monitors db' = t_monitors db"
    using assms(1) off tot same d new_reward_decimal unfolding wf_db_def that
    by (auto simp: map_update_where set_update_where decimal4_add)
  have db': "t_runner_nodes db' = ?rows" "t_users db' = t_users db" "t_monitors db' = t_monitors db"
    "t_ping_logs db' = t_ping_logs db" "t_partitions db' = t_partitions db"
    "queued q (t_sync_events db') = queued q (t_sync_events db)
        @ (if ?b + ?r \<ge> threshold \<and> q = pk then [?b + ?r] else [])"
    "p = \<lparr>pay_created = ?b + ?r \<ge> threshold, pay_amount = (if ?b + ?r \<ge> threshold then ?b + ?r else 0),
          pay_reward_delta = ?r, pay_node_pubkey = Some pk\<rparr>" for q
    using assms(2) ns by (auto simp: create_payout_event_if_threshold_def Let_def split: if_splits)
  have sta: "column r_OwnerPubkey r_StakedAmount ?rows
      = column r_OwnerPubkey r_StakedAmount (t_runner_nodes db)"
    by (rule column_same) simp_all
  show ?thesis
  proof (rule that [of "r_StakedAmount n" ?b])
    show "lg_stake (ledger_of db) pk = Some (r_StakedAmount n)" "lg_balance (ledger_of db) pk = Some ?b"
      by (simp_all add: ledger_of_def col)
    show "lg_balance (ledger_of db') = (lg_balance (ledger_of db))(pk \<mapsto> ?off)"
      by (simp add: ledger_of_def db'(1) bal col del: fun_upd_apply)
    show "lg_earned (ledger_of db') = (lg_earned (ledger_of db))
       (pk := map_option (\<lambda>x. x + ?r) (lg_earned (ledger_of db) pk))"
      by (simp add: ledger_of_def db'(1) ear del: fun_upd_apply)
    show "lg_stake (ledger_of db') = lg_stake (ledger_of db)"
      by (simp add: ledger_of_def db'(1) sta)
    show "lg_queued (ledger_of db') = (lg_queued (ledger_of db))
       (pk := (if ?b + ?r \<ge> threshold then lg_queued (ledger_of db) pk @ [?b + ?r]
               else lg_queued (ledger_of db) pk))"
      by (auto simp: ledger_of_def db'(6) fun_eq_iff)
  qed (use db' wf in auto)
qed

text \<open>The credits in circulation.\<close>

definition credits :: "db \<Rightarrow> int" where
  "credits db = sum_list (map u_CreditBalance (t_users db))"

lemma credits_nonneg: "wf_db db \<Longrightarrow> 0 \<le> credits db"
  by (auto simp: credits_def wf_db_def intro!: sum_list_nonneg)

lemma credits_update:
  assumes "wf_db db" "column u_ID u_CreditBalance (t_users db) owner = Some n"
  shows "sum_list (map u_CreditBalance (update_where (\<lambda>u. u_ID u = owner)
      (\<lambda>u. u\<lparr>u_CreditBalance := u_CreditBalance u - 1\<rparr>) (t_users db))) = credits db - 1"
proof -
  from column_Some [OF assms(2)] obtain u where u: "u \<in> set (t_users db)" "u_ID u = owner" by blast
  from assms(1) have "distinct (map u_ID (t_users db))" by (simp add: wf_db_def)
  from update_where_split [OF this u(1), of "\<lambda>u. u\<lparr>u_CreditBalance := u_CreditBalance u - 1\<rparr>"] u(2)
  show ?thesis by (auto simp: credits_def)
qed

lemma ledger_cong:
  "t_users db' = t_users db \<Longrightarrow> lg_credit (ledger_of db') = lg_credit (ledger_of db)"
  "t_monitors db' = t_monitors db \<Longrightarrow> lg_owner (ledger_of db') = lg_owner (ledger_of db)"
  "t_monitors db' = t_monitors db \<Longrightarrow> lg_spent (ledger_of db') = lg_spent (ledger_of db)"
  by (simp_all add: ledger_of_def)

lemma settlement_statements_Inr:
  assumes "wf_db db" "decimal4 cost"
    "settlement_statements uuid_in uuid now threshold net mon runner cost db = Inr (db', res)"
  obtains c s where "uuid_in mon = Some c"
    "settle_spec threshold cost c runner (ledger_of db) = Some (ledger_of db')"
    "lg_stake (ledger_of db) runner = Some s"
    "s_RewardDelta res = new_reward s" "s_Owner res = runner"
    "s_Created res \<longleftrightarrow> the (lg_balance (ledger_of db) runner) + new_reward s \<ge> threshold"
    "wf_db db'" "t_ping_logs db' = t_ping_logs db"
    "credits db' = credits db - 1" "t_partitions db' = t_partitions db"
proof -
  from assms(3) obtain c db1 db2 p where
    c: "uuid_in mon = Some c" and
    1: "deduct_credit c db = Inr db1" and
    2: "add_spent c cost db1 = Inr db2" and
    3: "create_payout_event_if_threshold uuid now runner threshold db2 = Inr (db', p)"
       "pay_node_pubkey p \<noteq> None" and
    res: "s_Created res = pay_created p" "s_RewardDelta res = pay_reward_delta p"
      "pay_node_pubkey p = Some (s_Owner res)"
    by (auto simp: settlement_statements_def query_Inr_iff split: option.splits sum.splits)
  from deduct_credit_Inr [OF assms(1) 1] obtain owner n where
    o: "column m_ID m_OwnerID (t_monitors db) c = Some owner"
    "column u_ID u_CreditBalance (t_users db) owner = Some n" "0 < n" and
    L1: "ledger_of db1 = (ledger_of db)\<lparr>lg_credit := (lg_credit (ledger_of db))(owner \<mapsto> n - 1)\<rparr>" and
    w1: "wf_db db1" and
    u1: "t_users db1 = update_where (\<lambda>u. u_ID u = owner)
        (\<lambda>u. u\<lparr>u_CreditBalance := u_CreditBalance u - 1\<rparr>) (t_users db)" and
    e1: "db1 = db\<lparr>t_users := t_users db1\<rparr>" .
  note L2 = add_spent_Inr [OF w1 assms(2) 2]
  from payout_Inr [OF L2(2) 3] obtain s b where
    sb: "lg_stake (ledger_of db2) runner = Some s" "lg_balance (ledger_of db2) runner = Some b" and
    L3: "lg_balance (ledger_of db') = (lg_balance (ledger_of db2))
       (runner \<mapsto> (if b + new_reward s \<ge> threshold then 0 else b + new_reward s))"
    "lg_earned (ledger_of db') = (lg_earned (ledger_of db2))
       (runner := map_option (\<lambda>x. x + new_reward s) (lg_earned (ledger_of db2) runner))"
    "lg_stake (ledger_of db') = lg_stake (ledger_of db2)"
    "lg_queued (ledger_of db') = (lg_queued (ledger_of db2))
       (runner := (if b + new_reward s \<ge> threshold then lg_queued (ledger_of db2) runner @ [b + new_reward s]
               else lg_queued (ledger_of db2) runner))" and
    p: "p = \<lparr>pay_created = b + new_reward s \<ge> threshold,
          pay_amount = (if b + new_reward s \<ge> threshold then b + new_reward s else 0),
          pay_reward_delta = new_reward s, pay_node_pubkey = Some runner\<rparr>" and
    w3: "wf_db db'" and same: "t_users db' = t_users db2" "t_monitors db' = t_monitors db2"
    "t_ping_logs db' = t_ping_logs db2" "t_partitions db' = t_partitions db2" .
  note L12 = L2(1) [unfolded L1]
  have o': "lg_owner (ledger_of db) c = Some owner" "lg_credit (ledger_of db) owner = Some n"
    using o by (simp_all add: ledger_of_def)
  have sb': "lg_stake (ledger_of db) runner = Some s" "lg_balance (ledger_of db) runner = Some b"
    using sb by (simp_all add: L12)
  have "settle_spec threshold cost c runner (ledger_of db) = Some (ledger_of db')"
    using o(3)
    by (simp add: settle_spec_def o' sb' Let_def not_le)
       (intro conjI impI ledger.equality; simp add: L3 L12 ledger_cong(1) [OF same(1)] ledger_cong(2,3) [OF same(2)])
  moreover have "t_ping_logs db' = t_ping_logs db" "t_partitions db' = t_partitions db"
    by (simp only: same, subst L2(3), simp, subst e1, simp)+
  moreover have "t_users db' = t_users db1"
    using same(1) L2(3) by (metis db.select_convs(1) db.surjective db.update_convs(2))
  then have "credits db' = credits db - 1"
    using credits_update [OF assms(1) o(2)] by (simp add: credits_def u1)
  ultimately show ?thesis
    using that [OF c _ sb'(1)] res p w3 sb' by simp
qed

subsection \<open>Settling in sequence\<close>

text \<open>
  What a client that settles many probes relies on: whatever a settlement answers, the invariant
  and the worth of every account are kept; it charges at most one credit, and exactly one when it
  succeeds.
\<close>

fun settle_all :: "('j \<Rightarrow> 's \<Rightarrow> 's \<times> ('e + 'p)) \<Rightarrow> 'j list \<Rightarrow> 's \<Rightarrow> 's \<times> 'j list" where
  "settle_all settle [] s = (s, [])"
| "settle_all settle (j # js) s =
     (case settle j s of
        (s', Inl _) \<Rightarrow> settle_all settle js s'
      | (s', Inr _) \<Rightarrow> (let (s'', ok) = settle_all settle js s' in (s'', j # ok)))"

lemma fst_settle_all:
  "fst (settle_all settle (j # js) s) = fst (settle_all settle js (fst (settle j s)))"
  by (auto split: prod.splits sum.splits)

locale settlement =
  fixes settle :: "'j \<Rightarrow> 's \<Rightarrow> 's \<times> ('e + 'p)"
    and inv :: "'s \<Rightarrow> bool"
    and balance :: "'s \<Rightarrow> int"
    and worth :: "'k \<Rightarrow> 's \<Rightarrow> rat"
    and lossless :: "'j \<Rightarrow> bool"
  assumes keep: "inv s \<Longrightarrow> inv (fst (settle j s))"
    and worth: "inv s \<Longrightarrow> worth k (fst (settle j s)) = worth k s"
    and charge: "inv s \<Longrightarrow> settle j s = (s', Inr p) \<Longrightarrow> balance s' = balance s - 1"
    and charge_error: "inv s \<Longrightarrow> settle j s = (s', Inl e) \<Longrightarrow>
      balance s' = balance s \<or> balance s' = balance s - 1"
    and charge_lossless: "inv s \<Longrightarrow> lossless j \<Longrightarrow> settle j s = (s', Inl e) \<Longrightarrow>
      balance s' = balance s"
    and nonneg: "inv s \<Longrightarrow> 0 \<le> balance s"
begin

lemma all_keep: "inv s \<Longrightarrow> inv (fst (settle_all settle js s))"
proof (induction js arbitrary: s)
  case (Cons j js)
  with keep [of s j] show ?case
    by (auto simp: Let_def split: prod.splits sum.splits) (metis fst_conv)+
qed simp

lemma all_worth: "inv s \<Longrightarrow> worth k (fst (settle_all settle js s)) = worth k s"
proof (induction js arbitrary: s)
  case (Cons j js)
  with keep [of s j] worth [of s k j] show ?case
    by (auto simp: Let_def split: prod.splits sum.splits) (metis fst_conv)+
qed simp

lemma all_charge:
  "inv s \<Longrightarrow> settle_all settle js s = (s', ok) \<Longrightarrow>
     int (length ok) \<le> balance s - balance s' \<and> balance s - balance s' \<le> int (length js)"
proof (induction js arbitrary: s s' ok)
  case (Cons j js)
  obtain t r where t: "settle j s = (t, r)" by fastforce
  have inv: "inv t" using keep [OF Cons.prems(1), of j] t by simp
  show ?case
  proof (cases r)
    case (Inl e)
    with Cons.IH [OF inv] Cons.prems t charge_error [OF Cons.prems(1)] show ?thesis by fastforce
  next
    case (Inr p)
    with Cons.prems(2) t obtain ok' where "settle_all settle js t = (s', ok')" "ok = j # ok'"
      by (auto split: prod.splits)
    with Cons.IH [OF inv] charge [OF Cons.prems(1)] t Inr show ?thesis by fastforce
  qed
qed simp

lemma all_charge_lossless:
  "inv s \<Longrightarrow> \<forall>j \<in> set js. lossless j \<Longrightarrow> settle_all settle js s = (s', ok) \<Longrightarrow>
     int (length ok) = balance s - balance s'"
proof (induction js arbitrary: s s' ok)
  case (Cons j js)
  obtain t r where t: "settle j s = (t, r)" by fastforce
  have inv: "inv t" using keep [OF Cons.prems(1), of j] t by simp
  show ?case
  proof (cases r)
    case (Inl e)
    with Cons.IH [OF inv] Cons.prems t charge_lossless [OF Cons.prems(1)] show ?thesis by fastforce
  next
    case (Inr p)
    with Cons.prems(3) t obtain ok' where "settle_all settle js t = (s', ok')" "ok = j # ok'"
      by (auto split: prod.splits)
    with Cons.IH [OF inv] charge [OF Cons.prems(1)] Cons.prems(2) t Inr show ?thesis by fastforce
  qed
qed simp

lemma all_subseq: "settle_all settle js s = (s', ok) \<Longrightarrow> set ok \<subseteq> set js"
proof (induction js arbitrary: s s' ok)
  case (Cons j js)
  then show ?case by (fastforce split: prod.splits sum.splits)
qed simp

text \<open>Nobody settles more probes than there are credits.\<close>

lemma all_affordable:
  assumes "inv s" "settle_all settle js s = (s', ok)"
  shows "int (length ok) \<le> balance s"
  using all_charge [OF assms] nonneg [of s'] all_keep [OF assms(1), of js] assms(2) by simp

end

text \<open>The worth of an account: what it earned, less what it holds and what was queued for it.\<close>

definition account_worth :: "pubkey \<Rightarrow> db \<Rightarrow> rat" where
  "account_worth pk db =
     (case lg_earned (ledger_of db) pk of None \<Rightarrow> 0 | Some x \<Rightarrow> x)
     - (case lg_balance (ledger_of db) pk of None \<Rightarrow> 0 | Some x \<Rightarrow> x)
     - sum_list (lg_queued (ledger_of db) pk)"

definition unspent :: "pubkey \<Rightarrow> ledger \<Rightarrow> rat" where
  "unspent pk L =
     (case lg_earned L pk of None \<Rightarrow> 0 | Some x \<Rightarrow> x)
     - (case lg_balance L pk of None \<Rightarrow> 0 | Some x \<Rightarrow> x) - sum_list (lg_queued L pk)"

lemma settle_spec_unspent:
  assumes "settle_spec threshold cost c runner L = Some L'"
    and "lg_balance L runner = Some b" "lg_earned L runner = Some e"
  shows "unspent pk L' = unspent pk L"
  using assms by (auto simp: settle_spec_def unspent_def Let_def split: option.splits if_splits)

lemma ledger_of_defined:
  assumes "lg_stake (ledger_of db) pk = Some s"
  shows "\<exists>b e. lg_balance (ledger_of db) pk = Some b \<and> lg_earned (ledger_of db) pk = Some e"
proof (cases "filter (\<lambda>n. r_OwnerPubkey n = pk) (t_runner_nodes db)")
  case Nil
  with assms show ?thesis by (simp add: ledger_of_def flip: column_None [where v = r_StakedAmount])
next
  case (Cons n ns)
  then show ?thesis by (simp add: ledger_of_def column_first [OF Cons])
qed

subsection \<open>The settlement provides the contract\<close>

record settle_job =
  j_uuid :: string
  j_now :: instant
  j_net :: tx_net
  j_monitor :: string
  j_runner :: pubkey

definition settle_job ::
  "(string \<Rightarrow> string option) \<Rightarrow> rat \<Rightarrow> settle_job \<Rightarrow> db \<Rightarrow>
   db \<times> (db_error + ProcessJobSettlementResponse)" where
  "settle_job uuid_in threshold j db =
     ProcessJobSettlement uuid_in (j_uuid j) (j_now j) threshold (j_net j) (j_monitor j) (j_runner j)
       (1 / 100) db"

lemma decimal4_cent [simp]: "decimal4 (1 / 100)"
  by (simp add: decimal4_def)

text \<open>A settlement that changes the tables has run all its statements.\<close>

lemma settlement_cases:
  assumes "ProcessJobSettlement uuid_in uuid now threshold net mon runner cost db = (db', r)"
  obtains (unchanged) e where "db' = db" "r = Inl e"
  | (committed) res where
      "settlement_statements uuid_in uuid now threshold net mon runner cost db = Inr (db', res)"
      "r = Inr res \<and> net_commit net = Delivered \<or> r = Inl Unavailable \<and> net_commit net = ReplyLost"
  using assms
  by (cases "net_commit net")
     (auto simp: ProcessJobSettlement_def split: if_splits sum.splits prod.splits)

lemma settlement_keeps:
  assumes "wf_db db" "decimal4 cost"
    "ProcessJobSettlement uuid_in uuid now threshold net mon runner cost db = (db', r)"
  shows "wf_db db'" and "account_worth pk db' = account_worth pk db"
    and "\<exists>x. r = Inr x \<Longrightarrow> credits db' = credits db - 1"
    and "credits db' = credits db \<or> credits db' = credits db - 1"
proof -
  have "wf_db db' \<and> account_worth pk db' = account_worth pk db
    \<and> ((\<exists>x. r = Inr x) \<longrightarrow> credits db' = credits db - 1)
    \<and> (credits db' = credits db \<or> credits db' = credits db - 1)"
    using assms(3)
  proof (cases rule: settlement_cases)
    case (unchanged e)
    then show ?thesis using assms(1) by simp
  next
    case (committed res)
    from settlement_statements_Inr [OF assms(1,2) committed(1)] obtain c s where
      spec: "settle_spec threshold cost c runner (ledger_of db) = Some (ledger_of db')"
      and s: "lg_stake (ledger_of db) runner = Some s" and w: "wf_db db'" "credits db' = credits db - 1" .
    from ledger_of_defined [OF s] settle_spec_unspent [OF spec]
    have "unspent pk (ledger_of db') = unspent pk (ledger_of db)" by blast
    with w show ?thesis by (simp add: account_worth_def unspent_def)
  qed
  then show "wf_db db'" and "account_worth pk db' = account_worth pk db"
    and "\<exists>x. r = Inr x \<Longrightarrow> credits db' = credits db - 1"
    and "credits db' = credits db \<or> credits db' = credits db - 1" by blast+
qed

lemma settle_job_frame:
  assumes "wf_db db"
  shows "t_ping_logs (fst (settle_job uuid_in threshold j db)) = t_ping_logs db
    \<and> t_partitions (fst (settle_job uuid_in threshold j db)) = t_partitions db"
proof -
  obtain db' r where t: "settle_job uuid_in threshold j db = (db', r)" by fastforce
  have "t_ping_logs db' = t_ping_logs db \<and> t_partitions db' = t_partitions db"
    using t [unfolded settle_job_def]
  proof (cases rule: settlement_cases)
    case (committed res)
    from settlement_statements_Inr [OF assms decimal4_cent committed(1)] show ?thesis by blast
  qed simp
  with t show ?thesis by simp
qed

interpretation settled: settlement "settle_job uuid_in threshold" wf_db credits account_worth
  "\<lambda>j. net_commit (j_net j) \<noteq> ReplyLost"
  for uuid_in threshold
proof unfold_locales
  fix s :: db and j :: settle_job
  assume w: "wf_db s"
  obtain t r where t: "settle_job uuid_in threshold j s = (t, r)" by fastforce
  note keeps = settlement_keeps [OF w decimal4_cent t [unfolded settle_job_def]]
  show "wf_db (fst (settle_job uuid_in threshold j s))" using keeps(1) t by simp
  show "account_worth k (fst (settle_job uuid_in threshold j s)) = account_worth k s" for k
    using keeps(2) t by simp
  show "credits s' = credits s - 1" if "settle_job uuid_in threshold j s = (s', Inr p)" for s' p
    using keeps(3) t that by auto
  show "credits s' = credits s \<or> credits s' = credits s - 1"
    if "settle_job uuid_in threshold j s = (s', Inl e)" for s' e
    using keeps(4) t that by simp
  show "credits s' = credits s"
    if "net_commit (j_net j) \<noteq> ReplyLost" "settle_job uuid_in threshold j s = (s', Inl e)" for s' e
    using that(2) [unfolded settle_job_def] by (cases rule: settlement_cases) (use that(1) in auto)
qed (rule credits_nonneg)

subsection \<open>Properties\<close>

definition net_up :: tx_net where
  "net_up = \<lparr>net_begin = True, net_deduct = True, net_spend = True, net_payout = True,
     net_commit = Delivered\<rparr>"

lemma wf_demo_db: "0 \<le> c \<Longrightarrow> 0 \<le> bal \<Longrightarrow> decimal4 bal \<Longrightarrow> wf_db (demo_db c stake bal)"
  by (simp add: wf_db_def demo_db_def demo_user_def demo_monitor_row_def demo_runner_def)

lemmas demo_settlement = ProcessJobSettlement_def settlement_statements_def deduct_credit_def
  add_spent_def create_payout_event_if_threshold_def demo_db_def demo_user_def demo_monitor_row_def
  demo_runner_def net_up_def Let_def

lemma numeric_small: "\<bar>round4 x\<bar> < 100000000 \<Longrightarrow> numeric_12_4 x = Some (round4 x)"
  by (simp add: numeric_12_4_def)

text \<open>
  C10. Refinement: a settlement that answers with a result did to the ledger exactly one settlement
  step. It took one credit from the owner of the monitor, who had one, added the cost to the monitor and the
  reward of the runner's stake to the runner, and at the threshold emptied the balance into one
  queued payout; the response reports that reward.
\<close>
theorem settlement_refines:
  assumes "wf_db db" "decimal4 cost"
    and "ProcessJobSettlement uuid_in uuid now threshold net mon runner cost db = (db', Inr res)"
  shows "\<exists>c s. uuid_in mon = Some c \<and> lg_stake (ledger_of db) runner = Some s
    \<and> settle_spec threshold cost c runner (ledger_of db) = Some (ledger_of db')
    \<and> s_RewardDelta res = new_reward s \<and> s_Owner res = runner
    \<and> (s_Created res \<longleftrightarrow> the (lg_balance (ledger_of db) runner) + new_reward s \<ge> threshold)"
  using assms(3)
proof (cases rule: settlement_cases)
  case (committed r)
  then have "r = res" by auto
  with settlement_statements_Inr [OF assms(1,2) committed(1)] show ?thesis by metis
qed auto

theorem settlement_refines_witness:
  "\<exists>db' res s. ProcessJobSettlement Some ''e'' 0 1 net_up ''m'' ''r'' (1 / 100) (demo_db 3 20 0) = (db', Inr res)
    \<and> lg_stake (ledger_of (demo_db 3 20 0)) ''r'' = Some s
    \<and> settle_spec 1 (1 / 100) ''m'' ''r'' (ledger_of (demo_db 3 20 0)) = Some (ledger_of db')
    \<and> s_RewardDelta res = new_reward s"
proof -
  have "\<exists>res db'. ProcessJobSettlement Some ''e'' 0 1 net_up ''m'' ''r'' (1 / 100) (demo_db 3 20 0)
      = (db', Inr res)"
    by (simp add: demo_settlement new_reward_stake numeric_12_4_def round4_def)
  then obtain res db' where
    r: "ProcessJobSettlement Some ''e'' 0 1 net_up ''m'' ''r'' (1 / 100) (demo_db 3 20 0) = (db', Inr res)"
    by blast
  from settlement_refines [OF wf_demo_db decimal4_cent r] r show ?thesis by auto
qed

text \<open>
  C18. Atomicity: a settlement that answers with an error left the tables as they were, with one
  exception, a commit that reached the server and whose reply was lost, in which case the whole
  step was done.
\<close>
theorem settlement_atomic:
  assumes "wf_db db" "decimal4 cost"
    and "ProcessJobSettlement uuid_in uuid now threshold net mon runner cost db = (db', Inl e)"
  shows "db' = db \<or> net_commit net = ReplyLost
    \<and> (\<exists>c. settle_spec threshold cost c runner (ledger_of db) = Some (ledger_of db'))"
  using assms(3)
proof (cases rule: settlement_cases)
  case (committed r)
  with settlement_statements_Inr [OF assms(1,2) committed(1)] show ?thesis by auto
qed auto

theorem settlement_atomic_witness:
  "ProcessJobSettlement Some ''e'' 0 1 net_up ''m'' ''q'' (1 / 100) (demo_db 3 20 0)
      = (demo_db 3 20 0, Inl ScanError)"
proof -
  have "\<exists>db'. ProcessJobSettlement Some ''e'' 0 1 net_up ''m'' ''q'' (1 / 100) (demo_db 3 20 0)
      = (db', Inl ScanError)"
    by (simp add: demo_settlement numeric_12_4_def round4_def)
  then obtain db' where
    r: "ProcessJobSettlement Some ''e'' 0 1 net_up ''m'' ''q'' (1 / 100) (demo_db 3 20 0) = (db', Inl ScanError)"
    by blast
  from settlement_atomic [OF wf_demo_db decimal4_cent r] r show ?thesis by (auto simp: net_up_def)
qed

text \<open>
  The reward schedule: one cent below a stake of 20, then from 1.5 cents up by a hundredth of a cent
  per unit of stake, and 5 cents from a stake of 370 on. No settlement pays more, so the procedure's
  own limit of 0.50 is never reached.
\<close>
theorem reward_schedule:
  assumes "0 \<le> s"
  shows "new_reward s =
      (if s < 20 then 1 / 100 else if s < 370 then (3 / 2 + of_int (s - 20) / 100) / 100 else 5 / 100)
    \<and> new_reward s < 1 / 2 \<and> (\<forall>s'. s \<le> s' \<longrightarrow> new_reward s \<le> new_reward s')"
  using new_reward_stake [OF assms] new_reward_bounds [of s] new_reward_mono [of s]
  by (auto simp: field_simps)

theorem reward_schedule_witness: "new_reward 120 = 1 / 40"
  using reward_schedule [of 120] by simp

text \<open>Balances below the threshold, and the payouts queued between two states.\<close>

definition below :: "rat \<Rightarrow> db \<Rightarrow> bool" where
  "below threshold db \<longleftrightarrow>
     (\<forall>n \<in> set (t_runner_nodes db). r_OffchainAccumulatedTokens n < threshold)"

definition payouts_from :: "rat \<Rightarrow> db \<Rightarrow> db \<Rightarrow> bool" where
  "payouts_from threshold db db' \<longleftrightarrow>
     (\<forall>pk. \<exists>new. lg_queued (ledger_of db') pk = lg_queued (ledger_of db) pk @ new
        \<and> (\<forall>a \<in> set new. threshold \<le> a \<and> a < threshold + 1 / 20))"

lemma payouts_from_refl: "payouts_from threshold db db"
  by (simp add: payouts_from_def)

lemma payouts_from_trans:
  "payouts_from threshold db db1 \<Longrightarrow> payouts_from threshold db1 db2 \<Longrightarrow> payouts_from threshold db db2"
  unfolding payouts_from_def by (metis append.assoc UnE set_append)

lemma below_ledger:
  assumes "wf_db db"
  shows "below threshold db \<longleftrightarrow> (\<forall>pk b. lg_balance (ledger_of db) pk = Some b \<longrightarrow> b < threshold)"
proof -
  have d: "distinct (map r_OwnerPubkey (t_runner_nodes db))" using assms by (simp add: wf_db_def)
  show ?thesis
    using column_unique [OF d, of _ r_OffchainAccumulatedTokens]
      column_Some [of r_OwnerPubkey r_OffchainAccumulatedTokens "t_runner_nodes db"]
    by (fastforce simp: below_def ledger_of_def)
qed

lemma settle_spec_below:
  assumes "settle_spec threshold cost c runner L = Some L'" "0 < threshold"
    and "\<forall>pk b. lg_balance L pk = Some b \<longrightarrow> b < threshold" "lg_balance L runner = Some b"
  shows "(\<forall>pk b. lg_balance L' pk = Some b \<longrightarrow> b < threshold)
    \<and> (\<exists>new. lg_queued L' pk = lg_queued L pk @ new
        \<and> (\<forall>a \<in> set new. threshold \<le> a \<and> a < threshold + 1 / 20))"
proof -
  have "b < threshold" using assms(3,4) by blast
  then have r: "b + new_reward s < threshold + 1 / 20" for s
    using new_reward_bounds [of s] by linarith
  from assms show ?thesis
    by (auto simp: settle_spec_def Let_def r split: option.splits if_splits)
qed

lemma settle_job_below:
  assumes "wf_db db" "0 < threshold" "below threshold db"
  shows "below threshold (fst (settle_job uuid_in threshold j db))
    \<and> payouts_from threshold db (fst (settle_job uuid_in threshold j db))"
proof -
  obtain db' r where t: "settle_job uuid_in threshold j db = (db', r)" by fastforce
  have "below threshold db' \<and> payouts_from threshold db db'"
    using t [unfolded settle_job_def]
  proof (cases rule: settlement_cases)
    case (unchanged e)
    then show ?thesis using assms by (simp add: payouts_from_refl)
  next
    case (committed res)
    from settlement_statements_Inr [OF assms(1) decimal4_cent committed(1)] obtain c s where
      spec: "settle_spec threshold (1 / 100) c (j_runner j) (ledger_of db) = Some (ledger_of db')"
      and s: "lg_stake (ledger_of db) (j_runner j) = Some s" and w: "wf_db db'" .
    from ledger_of_defined [OF s] obtain b where "lg_balance (ledger_of db) (j_runner j) = Some b" by blast
    from settle_spec_below [OF spec assms(2) _ this] assms(3) show ?thesis
      unfolding below_ledger [OF assms(1)] below_ledger [OF w] payouts_from_def by blast
  qed
  with t show ?thesis by simp
qed

text \<open>
  C33. Payouts: if every balance is below the threshold, it is again after any number of settlements,
  and every payout they queued lies between the threshold and the threshold plus five cents.
\<close>
theorem settlements_stay_below_threshold:
  assumes "wf_db db" "0 < threshold" "below threshold db"
  shows "below threshold (fst (settle_all (settle_job uuid_in threshold) js db))
    \<and> payouts_from threshold db (fst (settle_all (settle_job uuid_in threshold) js db))"
  using assms
proof (induction js arbitrary: db)
  case Nil
  then show ?case by (simp add: payouts_from_refl)
next
  case (Cons j js)
  let ?db = "fst (settle_job uuid_in threshold j db)"
  from settle_job_below [OF Cons.prems, of uuid_in j] settled.keep [OF Cons.prems(1)]
  have "below threshold (fst (settle_all (settle_job uuid_in threshold) js ?db))
    \<and> payouts_from threshold ?db (fst (settle_all (settle_job uuid_in threshold) js ?db))"
    using Cons.IH Cons.prems(2) by blast
  then show ?case
    unfolding fst_settle_all
    using settle_job_below [OF Cons.prems, of uuid_in j] payouts_from_trans by blast
qed

definition demo_job :: "string \<Rightarrow> settle_job" where
  "demo_job i = \<lparr>j_uuid = i, j_now = 0, j_net = net_up, j_monitor = ''m'', j_runner = ''r''\<rparr>"

theorem settlements_stay_below_threshold_witness:
  "below 1 (fst (settle_all (settle_job Some 1) [demo_job ''a'', demo_job ''b''] (demo_db 3 20 (99 / 100))))"
proof -
  have "decimal4 (99 / 100)" by (simp add: decimal4_def)
  then have "wf_db (demo_db 3 20 (99 / 100))" by (simp add: wf_demo_db)
  moreover have "below 1 (demo_db 3 20 (99 / 100))" by (simp add: below_def demo_db_def demo_runner_def)
  ultimately show ?thesis
    using settlements_stay_below_threshold [of "demo_db 3 20 (99 / 100)" 1] zero_less_one by blast
qed

text \<open>
  C17. Conservation: over any sequence of settlements, whatever requests fail, what a runner earned
  less its balance less its queued payouts does not change, the credits in circulation fall by at least one per
  successful settlement and at most one per attempt, and no user's credit becomes negative; so there are never
  more successful settlements than credits.
\<close>
theorem settlements_conserve:
  assumes "wf_db db" and "settle_all (settle_job uuid_in threshold) js db = (db', ok)"
  shows "account_worth pk db' = account_worth pk db
    \<and> int (length ok) \<le> credits db - credits db' \<and> credits db - credits db' \<le> int (length js)
    \<and> (\<forall>u \<in> set (t_users db'). 0 \<le> u_CreditBalance u) \<and> int (length ok) \<le> credits db"
  using settled.all_worth [OF assms(1), of pk uuid_in threshold js] settled.all_charge [OF assms]
    settled.all_keep [OF assms(1), of uuid_in threshold js] settled.all_affordable [OF assms] assms(2)
  by (simp add: wf_db_def)

theorem settlements_conserve_witness:
  "length (snd (settle_all (settle_job Some 1) (map demo_job [''a'', ''b'', ''c'', ''d'']) (demo_db 2 20 0))) \<le> 2"
proof -
  have w: "wf_db (demo_db 2 20 0)" by (simp add: wf_demo_db)
  obtain db' ok where
    r: "settle_all (settle_job Some 1) (map demo_job [''a'', ''b'', ''c'', ''d'']) (demo_db 2 20 0) = (db', ok)"
    by fastforce
  have "credits (demo_db 2 20 0) = 2" by (simp add: credits_def demo_db_def demo_user_def)
  with settlements_conserve [OF w r] r show ?thesis by simp
qed

text \<open>Amounts far enough from the limit of their columns.\<close>

definition roomy_runners :: "db \<Rightarrow> bool" where
  "roomy_runners db \<longleftrightarrow>
     (\<forall>n \<in> set (t_runner_nodes db). \<bar>r_OffchainAccumulatedTokens n\<bar> < 99999999
        \<and> \<bar>r_TotalEarnedTokensAllTime n\<bar> < 99999999)"

definition roomy :: "db \<Rightarrow> bool" where
  "roomy db \<longleftrightarrow>
     (\<forall>m \<in> set (t_monitors db). \<bar>m_TotalSpentTokens m\<bar> < 99999999) \<and> roomy_runners db"

lemma numeric_roomy:
  "decimal4 x \<Longrightarrow> decimal4 y \<Longrightarrow> \<bar>x\<bar> < 99999999 \<Longrightarrow> \<bar>y\<bar> \<le> 1 \<Longrightarrow> numeric_12_4 (x + y) = Some (x + y)"
  by (simp add: numeric_12_4_def round4_decimal decimal4_add)

lemma payout_succeeds:
  assumes "wf_db db" "roomy_runners db"
    and "column r_OwnerPubkey r_StakedAmount (t_runner_nodes db) pk = Some s"
  shows "\<exists>db' p. create_payout_event_if_threshold uuid now pk threshold db = Inr (db', p)
    \<and> pay_node_pubkey p = Some pk"
proof -
  let ?ns = "filter (\<lambda>n. r_OwnerPubkey n = pk) (t_runner_nodes db)"
  obtain n ns where ns: "?ns = n # ns"
    using assms(3) by (cases ?ns) (simp_all flip: column_None [where v = r_StakedAmount])
  let ?r = "new_reward (r_StakedAmount n)"
  have r: "decimal4 ?r" "\<bar>?r\<bar> \<le> 1"
    using new_reward_decimal new_reward_bounds [of "r_StakedAmount n"] by (auto simp: abs_if)
  have "numeric_12_4 (r_OffchainAccumulatedTokens x + ?r) \<noteq> None
      \<and> numeric_12_4 (r_TotalEarnedTokensAllTime x + ?r) \<noteq> None"
    if "x \<in> set (t_runner_nodes db)" for x
    using assms(1,2) that r by (simp add: wf_db_def roomy_runners_def numeric_roomy)
  moreover have "n \<in> set (t_runner_nodes db)" using ns by (auto simp: filter_eq_Cons_iff)
  moreover have "numeric_12_4 0 = Some 0" by (simp add: numeric_12_4_def round4_def)
  ultimately show ?thesis
    by (auto simp: create_payout_event_if_threshold_def ns Let_def list_ex_iff)
qed

lemma settle_spec_Some:
  "settle_spec threshold cost c runner L \<noteq> None \<longleftrightarrow>
     (\<exists>owner n s. lg_owner L c = Some owner \<and> lg_credit L owner = Some n \<and> 0 < n
        \<and> lg_stake L runner = Some s)"
  by (auto simp: settle_spec_def Let_def split: option.splits)

lemma settlement_iff:
  assumes "wf_db db" "roomy db" "decimal4 cost" "\<bar>cost\<bar> \<le> 1" and "uuid_in mon = Some c"
  shows "(\<exists>db' res. ProcessJobSettlement uuid_in uuid now threshold net_up mon runner cost db = (db', Inr res))
    \<longleftrightarrow> settle_spec threshold cost c runner (ledger_of db) \<noteq> None"
proof
  assume "\<exists>db' res. ProcessJobSettlement uuid_in uuid now threshold net_up mon runner cost db = (db', Inr res)"
  then obtain db' res where
    "ProcessJobSettlement uuid_in uuid now threshold net_up mon runner cost db = (db', Inr res)" by blast
  then show "settle_spec threshold cost c runner (ledger_of db) \<noteq> None"
  proof (cases rule: settlement_cases)
    case (committed r)
    from settlement_statements_Inr [OF assms(1,3) committed(1)] assms(5) show ?thesis by fastforce
  qed simp
next
  assume "settle_spec threshold cost c runner (ledger_of db) \<noteq> None"
  then obtain owner n s where o: "column m_ID m_OwnerID (t_monitors db) c = Some owner"
    "column u_ID u_CreditBalance (t_users db) owner = Some n" "0 < n"
    "column r_OwnerPubkey r_StakedAmount (t_runner_nodes db) runner = Some s"
    unfolding settle_spec_Some by (auto simp: ledger_of_def)
  obtain m ms where m: "filter (\<lambda>m. m_ID m = c) (t_monitors db) = m # ms"
    using o(1) by (cases "filter (\<lambda>m. m_ID m = c) (t_monitors db)")
      (simp_all flip: column_None [where v = m_OwnerID])
  with o(1) have "m_OwnerID m = owner" by (simp add: column_first)
  moreover obtain u where "u \<in> set (t_users db)" "u_ID u = owner" "u_CreditBalance u = n"
    using column_Some [OF o(2)] by blast
  ultimately obtain db1 where d1: "deduct_credit c db = Inr db1"
    using o(3) m by (force simp: deduct_credit_def Let_def list_ex_iff)
  from deduct_credit_Inr [OF assms(1) d1] have w1: "wf_db db1" and e1: "db1 = db\<lparr>t_users := t_users db1\<rparr>"
    by blast+
  have m1: "t_monitors db1 = t_monitors db" "t_runner_nodes db1 = t_runner_nodes db"
    by (subst e1, simp)+
  have "numeric_12_4 (m_TotalSpentTokens x + cost) \<noteq> None" if "x \<in> set (t_monitors db1)" for x
    using w1 assms(2) that assms(3,4) by (simp add: wf_db_def roomy_def numeric_roomy m1)
  then obtain db2 where d2: "add_spent c cost db1 = Inr db2"
    by (auto simp: add_spent_def list_ex_iff)
  note L2 = add_spent_Inr [OF w1 assms(3) d2]
  have r2: "t_runner_nodes db2 = t_runner_nodes db"
    by (subst L2(3), simp add: m1)
  have "roomy_runners db2" using assms(2) by (simp add: roomy_def roomy_runners_def r2)
  from payout_succeeds [OF L2(2) this, of runner s uuid now threshold] o(4) r2
  obtain db3 p where "create_payout_event_if_threshold uuid now runner threshold db2 = Inr (db3, p)"
    "pay_node_pubkey p = Some runner" by auto
  with d1 d2 assms(5) show
    "\<exists>db' res. ProcessJobSettlement uuid_in uuid now threshold net_up mon runner cost db = (db', Inr res)"
    by (simp add: ProcessJobSettlement_def settlement_statements_def net_up_def)
qed

lemma settle_job_succeeds:
  assumes "wf_db db" "roomy db" "uuid_in (j_monitor j) = Some c" "j_net j = net_up"
    and "settle_spec threshold (1 / 100) c (j_runner j) (ledger_of db) = Some L"
  obtains db' res where "settle_job uuid_in threshold j db = (db', Inr res)" "ledger_of db' = L"
    "t_ping_logs db' = t_ping_logs db" "t_partitions db' = t_partitions db"
proof -
  have "\<bar>1 / 100 :: rat\<bar> \<le> 1" by simp
  from settlement_iff [where uuid_in = uuid_in, OF assms(1,2) decimal4_cent this assms(3)] assms(5)
  obtain db' res where "ProcessJobSettlement uuid_in (j_uuid j) (j_now j) threshold net_up (j_monitor j) (j_runner j)
      (1 / 100) db = (db', Inr res)" by blast
  then have s: "settle_job uuid_in threshold j db = (db', Inr res)" by (simp add: settle_job_def assms(4))
  from s [unfolded settle_job_def] show ?thesis
  proof (cases rule: settlement_cases)
    case (committed r)
    from settlement_statements_Inr [OF assms(1) decimal4_cent committed(1)] obtain c' where
      "uuid_in (j_monitor j) = Some c'" "settle_spec threshold (1 / 100) c' (j_runner j) (ledger_of db) = Some (ledger_of db')"
      "t_ping_logs db' = t_ping_logs db" "t_partitions db' = t_partitions db" by blast
    with assms(3,5) show ?thesis by (intro that [OF s]) simp_all
  qed simp
qed

text \<open>
  C19. Exactness: with every request answered and amounts inside their columns, a settlement succeeds
  exactly when the ledger allows it, that is when the monitor exists, its owner has a credit left and the
  runner is known.
\<close>
theorem settlement_exact:
  assumes "wf_db db" "roomy db" "decimal4 cost" "\<bar>cost\<bar> \<le> 1" and "uuid_in mon = Some c"
  shows "(\<exists>db' res. ProcessJobSettlement uuid_in uuid now threshold net_up mon runner cost db = (db', Inr res))
    \<longleftrightarrow> settle_spec threshold cost c runner (ledger_of db) \<noteq> None"
  using settlement_iff [of db cost uuid_in mon c] assms by simp

theorem settlement_exact_witness:
  "\<not> (\<exists>db' res. ProcessJobSettlement Some ''e'' 0 1 net_up ''m'' ''r'' (1 / 100) (demo_db 0 20 0) = (db', Inr res))
   \<and> (\<exists>db' res. ProcessJobSettlement Some ''e'' 0 1 net_up ''m'' ''r'' (1 / 100) (demo_db 1 20 0) = (db', Inr res))"
proof -
  have "wf_db (demo_db 0 20 0)" "wf_db (demo_db 1 20 0)" by (simp_all add: wf_demo_db)
  moreover have "roomy (demo_db c 20 0)" for c
    by (simp add: roomy_def roomy_runners_def demo_db_def demo_monitor_row_def demo_runner_def)
  moreover have "\<bar>1 / 100 :: rat\<bar> \<le> 1" by simp
  ultimately show ?thesis
    by (simp add: settlement_exact settle_spec_def ledger_of_def demo_db_def demo_user_def
        demo_monitor_row_def demo_runner_def Let_def)
qed

end
