(* ===== verification/Wire.thy ===== *)
theory Wire
  imports Models
begin

text \<open>
  What travels over the queues and the HTTP requests: \<^verbatim>\<open>encoding/json\<close> on the structs of the
  source, at the level of parsed values. A struct is an object of its tagged fields in order; decoding walks the
  members, matches a name to a tag without regard to case, lets a later member overwrite an earlier one,
  skips \<^verbatim>\<open>null\<close> and unknown names, and fails on a value of the wrong kind. Texts are valid UTF-8,
  which Go keeps unchanged.
\<close>

subsection \<open>JSON values\<close>

datatype json =
    JNull
  | JBool bool
  | JInt int
  | JFloat rat
  | JStr string
  | JArr "json list"
  | JObj "(string \<times> json) list"

type_synonym 's setter = "json \<Rightarrow> 's \<Rightarrow> 's option"
type_synonym 's fields = "(string \<times> 's setter) list"

definition set_string :: "(string \<Rightarrow> 's \<Rightarrow> 's) \<Rightarrow> 's setter" where
  "set_string upd v s = (case v of JStr x \<Rightarrow> Some (upd x s) | _ \<Rightarrow> None)"

definition set_bool :: "(bool \<Rightarrow> 's \<Rightarrow> 's) \<Rightarrow> 's setter" where
  "set_bool upd v s = (case v of JBool b \<Rightarrow> Some (upd b s) | _ \<Rightarrow> None)"

definition int64 :: "int \<Rightarrow> bool" where
  "int64 i \<longleftrightarrow> - (2 ^ 63) \<le> i \<and> i < 2 ^ 63"

definition set_int :: "(int \<Rightarrow> 's \<Rightarrow> 's) \<Rightarrow> 's setter" where
  "set_int upd v s = (case v of JInt i \<Rightarrow> if int64 i then Some (upd i s) else None | _ \<Rightarrow> None)"

definition set_float :: "(rat \<Rightarrow> 's \<Rightarrow> 's) \<Rightarrow> 's setter" where
  "set_float upd v s =
     (case v of JInt i \<Rightarrow> Some (upd (of_int i) s) | JFloat x \<Rightarrow> Some (upd x s) | _ \<Rightarrow> None)"

fun decode_fields :: "'s fields \<Rightarrow> (string \<times> json) list \<Rightarrow> 's \<Rightarrow> 's option" where
  "decode_fields fs [] s = Some s"
| "decode_fields fs ((k, v) # kvs) s =
     (case map_of fs (to_lower k) of
        None \<Rightarrow> decode_fields fs kvs s
      | Some st \<Rightarrow>
          if v = JNull then decode_fields fs kvs s
          else (case st v s of None \<Rightarrow> None | Some s' \<Rightarrow> decode_fields fs kvs s'))"

definition decode_struct :: "'s fields \<Rightarrow> 's \<Rightarrow> json \<Rightarrow> 's option" where
  "decode_struct fs zero v =
     (case v of JObj kvs \<Rightarrow> decode_fields fs kvs zero | JNull \<Rightarrow> Some zero | _ \<Rightarrow> None)"

fun decode_all :: "('a \<Rightarrow> 'b option) \<Rightarrow> 'a list \<Rightarrow> 'b list option" where
  "decode_all f [] = Some []"
| "decode_all f (x # xs) =
     (case f x of None \<Rightarrow> None | Some y \<Rightarrow> map_option (Cons y) (decode_all f xs))"

lemma decode_all_map: "(\<And>x. x \<in> set xs \<Longrightarrow> f (g x) = Some x) \<Longrightarrow> decode_all f (map g xs) = Some xs"
  by (induction xs) auto

text \<open>A float that is an integer is printed without a fraction.\<close>

definition encode_float :: "rat \<Rightarrow> json" where
  "encode_float x = (if of_int \<lfloor>x\<rfloor> = x then JInt \<lfloor>x\<rfloor> else JFloat x)"

lemma set_float_encode [simp]: "set_float upd (encode_float x) s = Some (upd x s)"
  by (auto simp: set_float_def encode_float_def)

lemma encode_float_not_null [simp]: "encode_float x \<noteq> JNull"
  by (simp add: encode_float_def)

lemma setters [simp]:
  "set_string upd1 (JStr x) s1 = Some (upd1 x s1)"
  "set_bool upd2 (JBool b) s2 = Some (upd2 b s2)"
  "int64 i \<Longrightarrow> set_int upd3 (JInt i) s3 = Some (upd3 i s3)"
  by (simp_all add: set_string_def set_bool_def set_int_def)

text \<open>The tags of the source are lower case.\<close>

definition lower_tag :: "string \<Rightarrow> bool" where
  "lower_tag s \<longleftrightarrow> list_all (\<lambda>c. \<not> (65 \<le> (of_char c :: nat) \<and> of_char c \<le> (90 :: nat))) s"

lemma to_lower_tag: "lower_tag s \<Longrightarrow> to_lower s = s"
  by (induction s) (auto simp: lower_tag_def to_lower_def lower_char_def Let_def)

text \<open>
  Decoding an object whose names are tags in order: each member reaches its own setter.
\<close>

lemma decode_fields_known:
  assumes "lower_tag k" "map_of fs k = Some st" "v \<noteq> JNull" "st v s = Some s'"
  shows "decode_fields fs ((k, v) # kvs) s = decode_fields fs kvs s'"
  using assms by (simp add: to_lower_tag)

subsection \<open>Jobs\<close>

record JobPayload =
  jp_JobID :: string
  jp_MonitorID :: string
  jp_TargetURL :: string
  jp_RunnerPubkey :: string
  jp_TaskNonce :: string
  jp_IssuedAt :: int
  jp_ExpiresAt :: int

definition encode_JobPayload :: "JobPayload \<Rightarrow> json" where
  "encode_JobPayload p = JObj
     [(''job_id'', JStr (jp_JobID p)), (''monitor_id'', JStr (jp_MonitorID p)),
      (''target_url'', JStr (jp_TargetURL p)), (''runner_pubkey'', JStr (jp_RunnerPubkey p)),
      (''task_nonce'', JStr (jp_TaskNonce p)), (''issued_at'', JInt (jp_IssuedAt p)),
      (''expires_at'', JInt (jp_ExpiresAt p))]"

text \<open>The consumer's struct has a field that the producer's lacks.\<close>

record jobPayloadRaw =
  jr_JobID :: string
  jr_MonitorID :: string
  jr_TargetURL :: string
  jr_NodeID :: string
  jr_RunnerPubkey :: string
  jr_IssuedAt :: int
  jr_ExpiresAt :: int
  jr_TaskNonce :: string

definition zero_jobPayloadRaw :: jobPayloadRaw where
  "zero_jobPayloadRaw = \<lparr>jr_JobID = [], jr_MonitorID = [], jr_TargetURL = [], jr_NodeID = [],
     jr_RunnerPubkey = [], jr_IssuedAt = 0, jr_ExpiresAt = 0, jr_TaskNonce = []\<rparr>"

definition jobPayloadRaw_fields :: "jobPayloadRaw fields" where
  "jobPayloadRaw_fields =
     [(''job_id'', set_string (\<lambda>x s. s\<lparr>jr_JobID := x\<rparr>)),
      (''monitor_id'', set_string (\<lambda>x s. s\<lparr>jr_MonitorID := x\<rparr>)),
      (''target_url'', set_string (\<lambda>x s. s\<lparr>jr_TargetURL := x\<rparr>)),
      (''node_id'', set_string (\<lambda>x s. s\<lparr>jr_NodeID := x\<rparr>)),
      (''runner_pubkey'', set_string (\<lambda>x s. s\<lparr>jr_RunnerPubkey := x\<rparr>)),
      (''issued_at'', set_int (\<lambda>x s. s\<lparr>jr_IssuedAt := x\<rparr>)),
      (''expires_at'', set_int (\<lambda>x s. s\<lparr>jr_ExpiresAt := x\<rparr>)),
      (''task_nonce'', set_string (\<lambda>x s. s\<lparr>jr_TaskNonce := x\<rparr>))]"

definition decode_jobPayloadRaw :: "json \<Rightarrow> jobPayloadRaw option" where
  "decode_jobPayloadRaw = decode_struct jobPayloadRaw_fields zero_jobPayloadRaw"

lemma decode_encode_job:
  assumes "int64 (jp_IssuedAt p)" "int64 (jp_ExpiresAt p)"
  shows "decode_jobPayloadRaw (encode_JobPayload p) =
    Some \<lparr>jr_JobID = jp_JobID p, jr_MonitorID = jp_MonitorID p, jr_TargetURL = jp_TargetURL p,
      jr_NodeID = [], jr_RunnerPubkey = jp_RunnerPubkey p, jr_IssuedAt = jp_IssuedAt p,
      jr_ExpiresAt = jp_ExpiresAt p, jr_TaskNonce = jp_TaskNonce p\<rparr>"
  unfolding decode_jobPayloadRaw_def decode_struct_def encode_JobPayload_def
  using assms
  by (simp add: decode_fields_known jobPayloadRaw_fields_def lower_tag_def zero_jobPayloadRaw_def
      del: decode_fields.simps(2))

subsection \<open>Results\<close>

definition encode_item :: "PingResultItem \<Rightarrow> json" where
  "encode_item r = JObj
     [(''job_id'', JStr (pr_JobID r)), (''batch_id'', JStr (pr_BatchID r)),
      (''node_id'', JStr (pr_NodeID r)), (''target_url'', JStr (pr_TargetURL r)),
      (''success'', JBool (pr_Success r)), (''status_code'', JInt (pr_StatusCode r)),
      (''dns_us'', JInt (sint (pr_DnsUs r))), (''tcp_us'', JInt (sint (pr_TcpUs r))),
      (''tls_us'', JInt (sint (pr_TlsUs r))), (''ttfb_us'', JInt (sint (pr_TtfbUs r))),
      (''total_us'', JInt (sint (pr_TotalUs r))), (''latency_ms'', JInt (pr_LatencyMs r)),
      (''task_nonce'', JStr (pr_TaskNonce r)), (''error_kind'', JStr (pr_ErrorKind r)),
      (''error_msg'', JStr (pr_ErrorMsg r)), (''monitor_id'', JStr (pr_MonitorID r)),
      (''geo_region'', JStr (pr_GeoRegion r)), (''timestamp_ms'', JInt (sint (pr_TimestampMs r))),
      (''latitude'', encode_float (pr_Latitude r)), (''longitude'', encode_float (pr_Longitude r))]"

definition zero_item :: PingResultItem where
  "zero_item = \<lparr>pr_JobID = [], pr_BatchID = [], pr_NodeID = [], pr_TargetURL = [], pr_Success = False,
     pr_StatusCode = 0, pr_DnsUs = 0, pr_TcpUs = 0, pr_TlsUs = 0, pr_TtfbUs = 0, pr_TotalUs = 0,
     pr_LatencyMs = 0, pr_TaskNonce = [], pr_ErrorKind = [], pr_ErrorMsg = [], pr_MonitorID = [],
     pr_GeoRegion = [], pr_TimestampMs = 0, pr_Latitude = 0, pr_Longitude = 0\<rparr>"

definition item_fields :: "PingResultItem fields" where
  "item_fields =
     [(''job_id'', set_string (\<lambda>x s. s\<lparr>pr_JobID := x\<rparr>)),
      (''batch_id'', set_string (\<lambda>x s. s\<lparr>pr_BatchID := x\<rparr>)),
      (''node_id'', set_string (\<lambda>x s. s\<lparr>pr_NodeID := x\<rparr>)),
      (''target_url'', set_string (\<lambda>x s. s\<lparr>pr_TargetURL := x\<rparr>)),
      (''success'', set_bool (\<lambda>x s. s\<lparr>pr_Success := x\<rparr>)),
      (''status_code'', set_int (\<lambda>x s. s\<lparr>pr_StatusCode := x\<rparr>)),
      (''dns_us'', set_int (\<lambda>x s. s\<lparr>pr_DnsUs := word_of_int x\<rparr>)),
      (''tcp_us'', set_int (\<lambda>x s. s\<lparr>pr_TcpUs := word_of_int x\<rparr>)),
      (''tls_us'', set_int (\<lambda>x s. s\<lparr>pr_TlsUs := word_of_int x\<rparr>)),
      (''ttfb_us'', set_int (\<lambda>x s. s\<lparr>pr_TtfbUs := word_of_int x\<rparr>)),
      (''total_us'', set_int (\<lambda>x s. s\<lparr>pr_TotalUs := word_of_int x\<rparr>)),
      (''latency_ms'', set_int (\<lambda>x s. s\<lparr>pr_LatencyMs := x\<rparr>)),
      (''task_nonce'', set_string (\<lambda>x s. s\<lparr>pr_TaskNonce := x\<rparr>)),
      (''error_kind'', set_string (\<lambda>x s. s\<lparr>pr_ErrorKind := x\<rparr>)),
      (''error_msg'', set_string (\<lambda>x s. s\<lparr>pr_ErrorMsg := x\<rparr>)),
      (''monitor_id'', set_string (\<lambda>x s. s\<lparr>pr_MonitorID := x\<rparr>)),
      (''geo_region'', set_string (\<lambda>x s. s\<lparr>pr_GeoRegion := x\<rparr>)),
      (''timestamp_ms'', set_int (\<lambda>x s. s\<lparr>pr_TimestampMs := word_of_int x\<rparr>)),
      (''latitude'', set_float (\<lambda>x s. s\<lparr>pr_Latitude := x\<rparr>)),
      (''longitude'', set_float (\<lambda>x s. s\<lparr>pr_Longitude := x\<rparr>))]"

definition decode_item :: "json \<Rightarrow> PingResultItem option" where
  "decode_item = decode_struct item_fields zero_item"

text \<open>Go's \<^verbatim>\<open>int\<close> fields hold 64 bits.\<close>

definition item_ok :: "PingResultItem \<Rightarrow> bool" where
  "item_ok r \<longleftrightarrow> int64 (pr_StatusCode r) \<and> int64 (pr_LatencyMs r)"

lemma int64_sint [simp]: "int64 (sint (w :: i64))"
  using sint_ge [of w] sint_lt [of w] by (simp add: int64_def)

lemma decode_encode_item: "item_ok r \<Longrightarrow> decode_item (encode_item r) = Some r"
  unfolding decode_item_def decode_struct_def encode_item_def
  by (simp add: decode_fields_known item_fields_def lower_tag_def zero_item_def item_ok_def
      del: decode_fields.simps(2))

text \<open>A slice decoded over a nil slice; \<^verbatim>\<open>null\<close> leaves it nil.\<close>

definition set_items :: "ResultPacket setter" where
  "set_items v s =
     (case v of JArr vs \<Rightarrow> map_option (\<lambda>rs. s\<lparr>rp_Results := rs\<rparr>) (decode_all decode_item vs) | _ \<Rightarrow> None)"

definition encode_packet :: "ResultPacket \<Rightarrow> json" where
  "encode_packet p = JObj
     [(''node_pubkey'', JStr (rp_NodeId p)), (''runner_pubkey'', JStr (rp_RunnerPubkey p)),
      (''signature'', JStr (rp_Signature p)), (''results'', JArr (map encode_item (rp_Results p)))]"

definition packet_fields :: "ResultPacket fields" where
  "packet_fields =
     [(''node_pubkey'', set_string (\<lambda>x s. s\<lparr>rp_NodeId := x\<rparr>)),
      (''runner_pubkey'', set_string (\<lambda>x s. s\<lparr>rp_RunnerPubkey := x\<rparr>)),
      (''signature'', set_string (\<lambda>x s. s\<lparr>rp_Signature := x\<rparr>)),
      (''results'', set_items)]"

definition zero_packet :: ResultPacket where
  "zero_packet = \<lparr>rp_NodeId = [], rp_RunnerPubkey = [], rp_Signature = [], rp_Results = []\<rparr>"

definition decode_packet :: "json \<Rightarrow> ResultPacket option" where
  "decode_packet = decode_struct packet_fields zero_packet"

lemma decode_encode_packet:
  assumes "\<forall>r \<in> set (rp_Results p). item_ok r"
  shows "decode_packet (encode_packet p) = Some p"
proof -
  have "decode_all decode_item (map encode_item (rp_Results p)) = Some (rp_Results p)"
    by (rule decode_all_map) (use assms decode_encode_item in blast)
  then show ?thesis
    unfolding decode_packet_def decode_struct_def encode_packet_def
    by (simp add: decode_fields_known packet_fields_def lower_tag_def zero_packet_def set_items_def
        del: decode_fields.simps(2))
qed

subsection \<open>Properties\<close>

text \<open>
  Jobs cross the queue: the bridge decodes a job the scheduler encoded to the same job, field by
  field; only the node id, which the scheduler's struct does not have, is always empty.
\<close>
theorem job_roundtrip:
  assumes "int64 (jp_IssuedAt p)" "int64 (jp_ExpiresAt p)"
  shows "decode_jobPayloadRaw (encode_JobPayload p) =
    Some \<lparr>jr_JobID = jp_JobID p, jr_MonitorID = jp_MonitorID p, jr_TargetURL = jp_TargetURL p,
      jr_NodeID = [], jr_RunnerPubkey = jp_RunnerPubkey p, jr_IssuedAt = jp_IssuedAt p,
      jr_ExpiresAt = jp_ExpiresAt p, jr_TaskNonce = jp_TaskNonce p\<rparr>"
  by (rule decode_encode_job [OF assms])

theorem job_roundtrip_witness:
  "map_option jr_NodeID (decode_jobPayloadRaw (encode_JobPayload
     \<lparr>jp_JobID = ''m:k:1'', jp_MonitorID = ''m'', jp_TargetURL = ''u'', jp_RunnerPubkey = ''k'',
      jp_TaskNonce = ''n'', jp_IssuedAt = 1, jp_ExpiresAt = 2\<rparr>)) = Some []"
  by (subst job_roundtrip) (simp_all add: int64_def)

text \<open>
  Results cross the queue: a packet whose numbers fit their fields is decoded to the packet
  that was encoded, and so are all its results.
\<close>
theorem packet_roundtrip:
  assumes "\<forall>r \<in> set (rp_Results p). item_ok r"
  shows "decode_packet (encode_packet p) = Some p"
  by (rule decode_encode_packet [OF assms])

theorem packet_roundtrip_witness:
  "decode_packet (encode_packet \<lparr>rp_NodeId = ''n'', rp_RunnerPubkey = ''r'', rp_Signature = [],
     rp_Results = [zero_item\<lparr>pr_Latitude := 1 / 2, pr_DnsUs := - 1\<rparr>]\<rparr>)
   = Some \<lparr>rp_NodeId = ''n'', rp_RunnerPubkey = ''r'', rp_Signature = [],
     rp_Results = [zero_item\<lparr>pr_Latitude := 1 / 2, pr_DnsUs := - 1\<rparr>]\<rparr>"
  by (rule packet_roundtrip) (simp add: item_ok_def zero_item_def int64_def)

end
