(* ===== verification/Auth.thy ===== *)
theory Auth
  imports Binary64 Settlement Wire
begin

text \<open>
  Accounts: \<^verbatim>\<open>services/user_service.go\<close> and \<^verbatim>\<open>middleware/jwt.go\<close>. The packages \<^verbatim>\<open>bcrypt\<close> and \<^verbatim>\<open>jwt\<close> are
  not part of the repository and are parameters, with the laws the code relies on as predicates: a hash accepts
  the password it was made from, and a token that was signed is accepted with the same key until it
  expires and not after.
\<close>

subsection \<open>Libraries\<close>

text \<open>
  \<^verbatim>\<open>jwt.Parse\<close> hands the token's method to a function of the caller that gives the key, or refuses; here the function is told
  whether the method is an HMAC one. The result is the document of claims.
\<close>

type_synonym claims = "(string \<times> json) list"

record auth_lib =
  bc_generate :: "string \<Rightarrow> string \<Rightarrow> string option"
  bc_compare :: "string \<Rightarrow> string \<Rightarrow> bool"
  jwt_sign :: "string \<Rightarrow> claims \<Rightarrow> string option"
  jwt_parse :: "instant \<Rightarrow> (bool \<Rightarrow> string option) \<Rightarrow> string \<Rightarrow> claims option"

definition unexpired :: "instant \<Rightarrow> claims \<Rightarrow> bool" where
  "unexpired now c \<longleftrightarrow> (case map_of c ''exp'' of Some (JInt e) \<Rightarrow> now < e * second | _ \<Rightarrow> True)"

definition bcrypt_accepts :: "auth_lib \<Rightarrow> bool" where
  "bcrypt_accepts L \<longleftrightarrow> (\<forall>salt pw hash. bc_generate L salt pw = Some hash \<longrightarrow> bc_compare L hash pw)"

text \<open>
  A token that was signed is accepted with the same key as long as it is valid. The library also refuses a token before its
  \<^verbatim>\<open>nbf\<close>, a claim the service never makes. JSON texts are UTF-8, as are all strings that come out of a decoded request.
\<close>

definition jwt_faithful :: "auth_lib \<Rightarrow> bool" where
  "jwt_faithful L \<longleftrightarrow> (\<forall>key c tok kf now. map_of c ''nbf'' = None \<longrightarrow> jwt_sign L key c = Some tok \<longrightarrow> kf True = Some key \<longrightarrow>
     jwt_parse L now kf tok = (if unexpired now c then Some c else None))"

subsection \<open>user_service.go\<close>

record RegisterRequest =
  rq_Email :: string
  rq_Password :: string
  rq_WalletPubkey :: string

record LoginRequest =
  lq_Email :: string
  lq_Password :: string

record UserInfo =
  ui_ID :: int
  ui_Email :: string
  ui_WalletPubkey :: string

record AuthResponse =
  ar_Token :: string
  ar_User :: UserInfo

datatype auth_error =
    MissingCredentials
  | ShortPassword
  | HashFailed
  | CreateFailed db_error
  | InvalidCredentials
  | SignFailed

text \<open>The token is good for 72 hours; \<open>t1\<close> and \<open>t2\<close> are the two readings of the clock.\<close>

definition issueToken ::
  "auth_lib \<Rightarrow> string \<Rightarrow> instant \<Rightarrow> instant \<Rightarrow> int \<Rightarrow> string \<Rightarrow> string option" where
  "issueToken L secret t1 t2 userID email =
     jwt_sign L secret
       [(''sub'', JInt userID), (''email'', JStr email),
        (''exp'', JInt (Unix (t1 + 72 * 60 * minute))), (''iat'', JInt (Unix t2))]"

definition userInfo :: "User \<Rightarrow> UserInfo" where
  "userInfo u = \<lparr>ui_ID = u_ID u, ui_Email = u_Email u, ui_WalletPubkey = u_WalletPubkey u\<rparr>"

text \<open>What a request meets: the salt bcrypt draws, the database's clock, and the clock of the token.\<close>

record auth_env =
  ae_salt :: string
  ae_now :: instant
  ae_exp_clock :: instant
  ae_iat_clock :: instant

definition issue_to ::
  "auth_lib \<Rightarrow> string \<Rightarrow> auth_env \<Rightarrow> User \<Rightarrow> auth_error + AuthResponse" where
  "issue_to L secret ae user =
     (case issueToken L secret (ae_exp_clock ae) (ae_iat_clock ae) (u_ID user) (u_Email user) of
        None \<Rightarrow> Inl SignFailed
      | Some token \<Rightarrow> Inr \<lparr>ar_Token = token, ar_User = userInfo user\<rparr>)"

definition user_Register ::
  "auth_lib \<Rightarrow> string \<Rightarrow> int \<Rightarrow> auth_env \<Rightarrow> RegisterRequest \<Rightarrow> db \<Rightarrow> db \<times> (auth_error + AuthResponse)" where
  "user_Register L secret default_credits ae req db =
     (if rq_Email req = [] \<or> rq_Password req = [] \<or> rq_WalletPubkey req = [] then (db, Inl MissingCredentials)
      else if length (rq_Password req) < 8 then (db, Inl ShortPassword)
      else
        (case bc_generate L (ae_salt ae) (rq_Password req) of
           None \<Rightarrow> (db, Inl HashFailed)
         | Some hash \<Rightarrow>
             (case user_Create default_credits (ae_now ae) (rq_Email req) hash (rq_WalletPubkey req) db of
                (db', Inl e) \<Rightarrow> (db', Inl (CreateFailed e))
              | (db', Inr user) \<Rightarrow> (db', issue_to L secret ae user))))"

definition user_Login ::
  "auth_lib \<Rightarrow> string \<Rightarrow> bool \<Rightarrow> auth_env \<Rightarrow> LoginRequest \<Rightarrow> db \<Rightarrow> auth_error + AuthResponse" where
  "user_Login L secret up ae req db =
     (case FindByEmail up (lq_Email req) db of
        Inl _ \<Rightarrow> Inl InvalidCredentials
      | Inr user \<Rightarrow>
          if \<not> bc_compare L (u_PasswordHash user) (lq_Password req) then Inl InvalidCredentials
          else issue_to L secret ae user)"

subsection \<open>jwt.go\<close>

text \<open>
  A claim is read from a map, where the last of several members with one name counts; numbers are
  \<^verbatim>\<open>float64\<close>. The conversion to \<^verbatim>\<open>int\<close> drops the fraction; outside the range it gives the least integer
  (on amd64). A claim of another type makes the assertion panic.
\<close>

definition claim :: "string \<Rightarrow> claims \<Rightarrow> json option" where
  "claim k c = map_of (rev c) k"

definition float_claim :: "string \<Rightarrow> claims \<Rightarrow> float64 option" where
  "float_claim k c =
     (case claim k c of Some (JInt i) \<Rightarrow> Some (fl (of_int i)) | Some (JFloat x) \<Rightarrow> Some (fl x) | _ \<Rightarrow> None)"

definition string_claim :: "string \<Rightarrow> claims \<Rightarrow> string option" where
  "string_claim k c = (case claim k c of Some (JStr s) \<Rightarrow> Some s | _ \<Rightarrow> None)"

definition int_of_float :: "float64 \<Rightarrow> int" where
  "int_of_float x = (let n = (if x < 0 then \<lceil>x\<rceil> else \<lfloor>x\<rfloor>) in if int64 n then n else - (2 ^ 63))"

text \<open>What the middleware makes of a request: it answers 401, panics, or passes the caller's identity on.\<close>

datatype identity = Unauthorized string | AuthPanic | Caller int string

definition keyfunc :: "string \<Rightarrow> bool \<Rightarrow> string option" where
  "keyfunc secret hmac = (if \<not> hmac then None else Some secret)"

definition JWTMiddleware :: "auth_lib \<Rightarrow> string \<Rightarrow> instant \<Rightarrow> string \<Rightarrow> identity" where
  "JWTMiddleware L secret now authHeader =
     (if authHeader = [] \<or> \<not> has_prefix ''Bearer '' authHeader
      then Unauthorized ''missing or malformed authorization header''
      else
        (case jwt_parse L now (keyfunc secret) (trim_prefix ''Bearer '' authHeader) of
           None \<Rightarrow> Unauthorized ''invalid or expired token''
         | Some claims \<Rightarrow>
             (case float_claim ''sub'' claims of
                None \<Rightarrow> AuthPanic
              | Some sub \<Rightarrow>
                  (case string_claim ''email'' claims of
                     None \<Rightarrow> AuthPanic
                   | Some email \<Rightarrow> Caller (int_of_float sub) email))))"

text \<open>The identity a handler reads from the request's context: zero values where there is none.\<close>

definition GetUserID :: "identity \<Rightarrow> int" where
  "GetUserID i = (case i of Caller u _ \<Rightarrow> u | _ \<Rightarrow> 0)"

definition GetUserEmail :: "identity \<Rightarrow> string" where
  "GetUserEmail i = (case i of Caller _ e \<Rightarrow> e | _ \<Rightarrow> [])"

subsection \<open>Accounts\<close>

text \<open>No two accounts share an email or a wallet, and every id is below the sequence.\<close>

definition accounts_ok :: "db \<Rightarrow> bool" where
  "accounts_ok db \<longleftrightarrow> distinct (map u_Email (t_users db)) \<and> distinct (map u_WalletPubkey (t_users db))
     \<and> distinct (map u_ID (t_users db)) \<and> (\<forall>u \<in> set (t_users db). u_ID u < t_user_seq db)"

lemma user_Create_cases:
  assumes "user_Create dc now email hash wallet db = (db', r)"
  obtains (failed) e where "r = Inl e" "db' = db\<lparr>t_user_seq := t_user_seq db + 1\<rparr>"
  | (created) row where "r = Inr (scan_user row)"
      "db' = db\<lparr>t_user_seq := t_user_seq db + 1, t_users := t_users db @ [row]\<rparr>"
      "u_ID row = t_user_seq db" "u_Email row = email" "u_PasswordHash row = hash" "u_WalletPubkey row = wallet"
      "u_CreditBalance row = dc" "u_deleted_at row = None"
      "\<forall>u \<in> set (t_users db). u_Email u \<noteq> email \<and> u_WalletPubkey u \<noteq> wallet"
proof -
  from assms show ?thesis
    unfolding user_Create_def Let_def list_ex_iff
    by (auto split: if_splits intro: failed created)
qed

lemma user_Create_ok:
  assumes "accounts_ok db" "user_Create dc now email hash wallet db = (db', r)"
  shows "accounts_ok db'"
  using assms(2)
proof (cases rule: user_Create_cases)
  case failed
  with assms(1) show ?thesis by (auto simp: accounts_ok_def)
next
  case (created row)
  with assms(1) show ?thesis by (force simp: accounts_ok_def)
qed

lemma user_Register_cases:
  assumes "user_Register L secret dc ae req db = (db', r)"
  obtains (refused) e where "r = Inl e" "t_users db' = t_users db" "accounts_ok db \<Longrightarrow> accounts_ok db'"
      "db'\<lparr>t_user_seq := t_user_seq db\<rparr> = db" "e \<noteq> SignFailed"
  | (registered) hash user where "bc_generate L (ae_salt ae) (rq_Password req) = Some hash"
      "user_Create dc (ae_now ae) (rq_Email req) hash (rq_WalletPubkey req) db = (db', Inr user)"
      "r = issue_to L secret ae user" "8 \<le> length (rq_Password req)"
proof (cases "rq_Email req = [] \<or> rq_Password req = [] \<or> rq_WalletPubkey req = [] \<or> length (rq_Password req) < 8
    \<or> bc_generate L (ae_salt ae) (rq_Password req) = None")
  case True
  then show ?thesis
    using assms by (intro refused [of "projl r"]) (auto simp: user_Register_def split: if_splits)
next
  case False
  then obtain hash where h: "bc_generate L (ae_salt ae) (rq_Password req) = Some hash" by blast
  obtain d u where c: "user_Create dc (ae_now ae) (rq_Email req) hash (rq_WalletPubkey req) db = (d, u)" by fastforce
  show ?thesis
  proof (cases u)
    case (Inl e)
    with c have "d = db\<lparr>t_user_seq := t_user_seq db + 1\<rparr>" by (cases rule: user_Create_cases) simp_all
    moreover have "accounts_ok db \<Longrightarrow> accounts_ok d" using user_Create_ok c by blast
    ultimately show ?thesis
      using c Inl False h assms by (intro refused [of "CreateFailed e"]) (auto simp: user_Register_def)
  next
    case (Inr user)
    with c False h assms show ?thesis by (intro registered [of hash user]) (auto simp: user_Register_def)
  qed
qed

lemma FindByEmail_only:
  assumes "distinct (map u_Email (t_users db))" "u \<in> set (t_users db)" "u_deleted_at u = None"
  shows "FindByEmail True (u_Email u) db = Inr (scan_user u)"
proof -
  obtain a b where ab: "t_users db = a @ u # b" using assms(2) by (meson split_list)
  with assms(1) have "\<forall>x \<in> set a \<union> set b. u_Email x \<noteq> u_Email u" by (fastforce simp: image_iff)
  then have "filter (\<lambda>x. u_Email x = u_Email u \<and> u_deleted_at x = None) (t_users db) = [u]"
    using assms(3) by (auto simp: ab filter_empty_conv)
  then show ?thesis by (simp add: FindByEmail_def query_row_def)
qed

lemma scan_user_fields [simp]:
  "u_ID (scan_user u) = u_ID u" "u_Email (scan_user u) = u_Email u"
  "u_PasswordHash (scan_user u) = u_PasswordHash u" "u_WalletPubkey (scan_user u) = u_WalletPubkey u"
  by (simp_all add: scan_user_def)

text \<open>A token of the service, shown to the middleware.\<close>

definition expiry :: "instant \<Rightarrow> instant" where
  "expiry t = Unix (t + 72 * 60 * minute) * second"

lemma token_accepted:
  assumes "jwt_faithful L" "issueToken L secret t1 t2 uid email = Some tok" "\<bar>uid\<bar> < 2 ^ 53"
  shows "JWTMiddleware L secret now (''Bearer '' @ tok) =
    (if now < expiry t1 then Caller uid email else Unauthorized ''invalid or expired token'')"
proof -
  let ?c = "[(''sub'', JInt uid), (''email'', JStr email),
        (''exp'', JInt (Unix (t1 + 72 * 60 * minute))), (''iat'', JInt (Unix t2))]"
  have p: "jwt_parse L now (keyfunc secret) tok = (if unexpired now ?c then Some ?c else None)"
    using assms(1) [unfolded jwt_faithful_def, rule_format, OF _ assms(2) [unfolded issueToken_def], of "keyfunc secret" now]
    by (simp add: keyfunc_def)
  have u: "unexpired now ?c \<longleftrightarrow> now < expiry t1" by (simp add: unexpired_def expiry_def)
  have s: "float_claim ''sub'' ?c = Some (fl (of_int uid))" "string_claim ''email'' ?c = Some email"
    by (simp_all add: float_claim_def string_claim_def claim_def)
  have "int64 uid" using assms(3) by (simp add: int64_def abs_less_iff)
  then have i: "int_of_float (fl (of_int uid)) = uid"
    unfolding fl_int [OF assms(3)] int_of_float_def by simp
  have h: "has_prefix ''Bearer '' (''Bearer '' @ tok)" by (simp add: has_prefix_def)
  have "JWTMiddleware L secret now (''Bearer '' @ tok) =
      (case jwt_parse L now (keyfunc secret) tok of
         None \<Rightarrow> Unauthorized ''invalid or expired token''
       | Some claims \<Rightarrow>
           (case float_claim ''sub'' claims of
              None \<Rightarrow> AuthPanic
            | Some sub \<Rightarrow>
                (case string_claim ''email'' claims of
                   None \<Rightarrow> AuthPanic
                 | Some email \<Rightarrow> Caller (int_of_float sub) email)))"
    unfolding JWTMiddleware_def trim_prefix_append using h by simp
  also have "\<dots> = (if now < expiry t1 then Caller uid email else Unauthorized ''invalid or expired token'')"
    unfolding p u by (cases "now < expiry t1") (simp_all only: s i option.case if_True if_False)
  finally show ?thesis .
qed

lemma login_cases:
  assumes "user_Login L secret up ae req db = Inr resp"
  obtains u where "u \<in> set (t_users db)" "u_Email u = lq_Email req" "u_deleted_at u = None"
    "bc_compare L (u_PasswordHash u) (lq_Password req)" "issue_to L secret ae (scan_user u) = Inr resp"
proof -
  from assms obtain user where f: "FindByEmail up (lq_Email req) db = Inr user"
    "bc_compare L (u_PasswordHash user) (lq_Password req)" "issue_to L secret ae user = Inr resp"
    by (auto simp: user_Login_def split: sum.splits if_splits)
  from f(1) obtain u where u: "query_row (filter (\<lambda>u. u_Email u = lq_Email req \<and> u_deleted_at u = None) (t_users db)) = Inr u"
    "user = scan_user u"
    by (cases "query_row (filter (\<lambda>u. u_Email u = lq_Email req \<and> u_deleted_at u = None) (t_users db))")
       (auto simp: FindByEmail_def query_Inr_iff)
  from query_row_Inr [OF u(1)] f u(2) show ?thesis by (intro that [of u]) simp_all
qed

subsection \<open>Properties\<close>

text \<open>
  C26. From registration to a request: who registered can log in with the same password, gets the same
  account back, and the token is accepted as that account, and nobody else's, until it expires after
  72 hours and never after; registration keeps emails, wallets and ids unique.
\<close>
theorem registered_user_authenticates:
  assumes "jwt_faithful L" "bcrypt_accepts L" "accounts_ok db" "\<bar>t_user_seq db\<bar> < 2 ^ 53"
    and "user_Register L secret dc ae req db = (db', Inr resp)"
    and "user_Login L secret True ae' \<lparr>lq_Email = rq_Email req, lq_Password = rq_Password req\<rparr> db' = r"
    and "jwt_sign L secret [(''sub'', JInt (t_user_seq db)), (''email'', JStr (rq_Email req)),
           (''exp'', JInt (Unix (ae_exp_clock ae' + 72 * 60 * minute))), (''iat'', JInt (Unix (ae_iat_clock ae')))] \<noteq> None"
  shows "accounts_ok db' \<and>
    (\<exists>resp'. r = Inr resp' \<and> ar_User resp' = ar_User resp
       \<and> ar_User resp = \<lparr>ui_ID = t_user_seq db, ui_Email = rq_Email req, ui_WalletPubkey = rq_WalletPubkey req\<rparr>
       \<and> (\<forall>now. JWTMiddleware L secret now (''Bearer '' @ ar_Token resp') =
            (if now < expiry (ae_exp_clock ae') then Caller (t_user_seq db) (rq_Email req)
             else Unauthorized ''invalid or expired token'')))"
  using assms(5)
proof (cases rule: user_Register_cases)
  case refused
  then show ?thesis by simp
next
  case (registered hash user)
  note ok = user_Create_ok [OF assms(3) registered(2)]
  from registered(2) obtain row where row: "user = scan_user row" "t_users db' = t_users db @ [row]"
    "u_ID row = t_user_seq db" "u_Email row = rq_Email req" "u_PasswordHash row = hash"
    "u_WalletPubkey row = rq_WalletPubkey req" "u_deleted_at row = None"
    by (cases rule: user_Create_cases) auto
  have "FindByEmail True (u_Email row) db' = Inr (scan_user row)"
    by (rule FindByEmail_only) (use ok row in \<open>auto simp: accounts_ok_def\<close>)
  moreover have "bc_compare L hash (rq_Password req)"
    using assms(2) registered(1) by (auto simp: bcrypt_accepts_def)
  ultimately have login: "r = issue_to L secret ae' (scan_user row)"
    using assms(6) row by (simp add: user_Login_def)
  obtain tok where tok: "issueToken L secret (ae_exp_clock ae') (ae_iat_clock ae') (t_user_seq db) (rq_Email req) = Some tok"
    using assms(7) by (auto simp: issueToken_def)
  have "ar_User resp = userInfo user"
    using registered(3) by (auto simp: issue_to_def split: option.splits)
  then show ?thesis
    using ok login tok token_accepted [OF assms(1) tok assms(4)] row by (simp add: issue_to_def userInfo_def)
qed

text \<open>
  A pair of libraries for the witnesses: the hash keeps the password, and the token of a single known document is a fixed text.
\<close>

definition demo_claims :: claims where
  "demo_claims = [(''sub'', JInt 2), (''email'', JStr ''ann''), (''exp'', JInt 259200), (''iat'', JInt 0)]"

definition demo_auth_lib :: auth_lib where
  "demo_auth_lib = \<lparr>bc_generate = (\<lambda>salt pw. if length pw \<le> 72 then Some (''$2a$'' @ pw) else None),
     bc_compare = (\<lambda>hash pw. hash = ''$2a$'' @ pw),
     jwt_sign = (\<lambda>key c. if c = demo_claims then Some (CHR ''.'' # key) else None),
     jwt_parse = (\<lambda>now kf tok. case kf True of None \<Rightarrow> None
        | Some key \<Rightarrow> if tok = CHR ''.'' # key \<and> unexpired now demo_claims then Some demo_claims else None)\<rparr>"

definition demo_auth_env :: auth_env where
  "demo_auth_env = \<lparr>ae_salt = [], ae_now = 0, ae_exp_clock = 0, ae_iat_clock = 0\<rparr>"

definition demo_register :: RegisterRequest where
  "demo_register = \<lparr>rq_Email = ''ann'', rq_Password = ''hunter22'', rq_WalletPubkey = ''wallet''\<rparr>"

lemma demo_auth_laws: "jwt_faithful demo_auth_lib" "bcrypt_accepts demo_auth_lib"
  by (auto simp: jwt_faithful_def bcrypt_accepts_def demo_auth_lib_def split: if_splits)

lemma demo_accounts_ok: "accounts_ok (demo_db 3 20 0)"
  by (simp add: accounts_ok_def demo_db_def demo_user_def)

lemma demo_token: "issueToken demo_auth_lib k 0 0 2 ''ann'' = Some (CHR ''.'' # k)"
  by (simp add: issueToken_def demo_auth_lib_def demo_claims_def Unix_def)

lemma demo_registration:
  "\<exists>db'. user_Register demo_auth_lib ''key'' 5 demo_auth_env demo_register (demo_db 3 20 0) =
     (db', Inr \<lparr>ar_Token = ''.key'', ar_User = \<lparr>ui_ID = 2, ui_Email = ''ann'', ui_WalletPubkey = ''wallet''\<rparr>\<rparr>)"
proof -
  have h: "bc_generate demo_auth_lib s ''hunter22'' = Some ''$2a$hunter22''" for s
    by (simp add: demo_auth_lib_def)
  show ?thesis
    by (simp add: user_Register_def demo_register_def demo_auth_env_def h user_Create_def Let_def demo_db_def demo_user_def
        issue_to_def demo_token userInfo_def)
qed

theorem registered_user_authenticates_witness:
  "\<exists>db' resp. user_Login demo_auth_lib ''key'' True demo_auth_env \<lparr>lq_Email = ''ann'', lq_Password = ''hunter22''\<rparr> db' = Inr resp
     \<and> JWTMiddleware demo_auth_lib ''key'' (259199 * second) (''Bearer '' @ ar_Token resp) = Caller 2 ''ann''
     \<and> JWTMiddleware demo_auth_lib ''key'' (259200 * second) (''Bearer '' @ ar_Token resp) = Unauthorized ''invalid or expired token''"
proof -
  obtain db' resp0 where r: "user_Register demo_auth_lib ''key'' 5 demo_auth_env demo_register (demo_db 3 20 0) = (db', Inr resp0)"
    using demo_registration by blast
  have seq: "t_user_seq (demo_db 3 20 0) = 2" by (simp add: demo_db_def)
  then have "\<bar>t_user_seq (demo_db 3 20 0)\<bar> < 2 ^ 53" by simp
  from registered_user_authenticates [OF demo_auth_laws demo_accounts_ok this r refl, of demo_auth_env]
    demo_token [of "''key''"]
  obtain resp where resp: "user_Login demo_auth_lib ''key'' True demo_auth_env \<lparr>lq_Email = ''ann'', lq_Password = ''hunter22''\<rparr> db' = Inr resp"
    "\<forall>now. JWTMiddleware demo_auth_lib ''key'' now (''Bearer '' @ ar_Token resp) =
       (if now < expiry (ae_exp_clock demo_auth_env) then Caller (t_user_seq (demo_db 3 20 0)) (rq_Email demo_register)
        else Unauthorized ''invalid or expired token'')"
    by (auto simp: seq demo_register_def demo_auth_env_def issueToken_def)
  have "expiry (ae_exp_clock demo_auth_env) = 259200 * second"
    by (simp add: expiry_def demo_auth_env_def Unix_def)
  with resp(2) have "JWTMiddleware demo_auth_lib ''key'' now (''Bearer '' @ ar_Token resp) =
       (if now < 259200 * second then Caller 2 ''ann'' else Unauthorized ''invalid or expired token'')" for now
    by (simp only: seq) (simp add: demo_register_def)
  with resp(1) show ?thesis by (intro exI conjI) (assumption | simp)+
qed

text \<open>
  Logging in requires the password of an account: a successful login names an account that is not deleted,
  with the request's email and a hash that accepts the request's password.
\<close>
theorem login_requires_password:
  assumes "user_Login L secret up ae req db = Inr resp"
  shows "\<exists>u \<in> set (t_users db). u_Email u = lq_Email req \<and> u_deleted_at u = None
    \<and> bc_compare L (u_PasswordHash u) (lq_Password req)
    \<and> ar_User resp = \<lparr>ui_ID = u_ID u, ui_Email = u_Email u, ui_WalletPubkey = u_WalletPubkey u\<rparr>"
  using assms
proof (rule login_cases)
  fix u
  assume u: "u \<in> set (t_users db)" "u_Email u = lq_Email req" "u_deleted_at u = None"
    "bc_compare L (u_PasswordHash u) (lq_Password req)" "issue_to L secret ae (scan_user u) = Inr resp"
  then have "ar_User resp = userInfo (scan_user u)" by (auto simp: issue_to_def split: option.splits)
  with u show ?thesis by (intro bexI [of _ u]) (simp_all add: userInfo_def)
qed

theorem login_requires_password_witness:
  "\<exists>db' resp. user_Login demo_auth_lib ''key'' True demo_auth_env \<lparr>lq_Email = ''ann'', lq_Password = ''hunter22''\<rparr> db' = Inr resp
     \<and> ui_Email (ar_User resp) = ''ann''"
proof -
  let ?u = "demo_user 2 ''ann'' 5\<lparr>u_PasswordHash := ''$2a$hunter22''\<rparr>"
  let ?db = "demo_db 3 20 0\<lparr>t_users := [?u]\<rparr>"
  have "user_Login demo_auth_lib ''key'' True demo_auth_env \<lparr>lq_Email = ''ann'', lq_Password = ''hunter22''\<rparr> ?db =
      Inr \<lparr>ar_Token = ''.key'', ar_User = \<lparr>ui_ID = 2, ui_Email = ''ann'', ui_WalletPubkey = ''ann''\<rparr>\<rparr>"
    using demo_token [of "''key''"]
    by (simp add: user_Login_def FindByEmail_def query_row_def demo_user_def issue_to_def demo_auth_env_def userInfo_def)
      (simp add: demo_auth_lib_def)
  from login_requires_password [OF this] this show ?thesis by fastforce
qed

text \<open>
  A registration that fails leaves every account as it was, unless it is the token that could not be signed:
  then the account exists although the caller is told of an error.
\<close>
lemma failed_registration:
  assumes "user_Register L secret dc ae req db = (db', Inl e)"
  shows "e \<noteq> SignFailed \<longrightarrow> t_users db' = t_users db"
    and "e = SignFailed \<longrightarrow> (\<exists>row. t_users db' = t_users db @ [row] \<and> u_Email row = rq_Email req)"
proof -
  have "(e \<noteq> SignFailed \<longrightarrow> t_users db' = t_users db)
      \<and> (e = SignFailed \<longrightarrow> (\<exists>row. t_users db' = t_users db @ [row] \<and> u_Email row = rq_Email req))"
    using assms
  proof (cases rule: user_Register_cases)
    case refused
    then show ?thesis by simp
  next
    case (registered hash user)
    from registered(2) obtain row where "t_users db' = t_users db @ [row]" "u_Email row = rq_Email req"
      by (cases rule: user_Create_cases) auto
    with registered(3) show ?thesis by (auto simp: issue_to_def split: option.splits)
  qed
  then show "e \<noteq> SignFailed \<longrightarrow> t_users db' = t_users db"
    and "e = SignFailed \<longrightarrow> (\<exists>row. t_users db' = t_users db @ [row] \<and> u_Email row = rq_Email req)" by blast+
qed

end
