(* ===== verification/Redis.thy ===== *)
theory Redis
  imports Prelude
begin

text \<open>
  The Redis server the program talks to (\<^verbatim>\<open>github.com/redis/go-redis\<close> and the server behind it)
  is not part of the repository. Its commands are parameters of the model, a record of
  functions on an abstract server state; what the code relies on is stated by the laws of the
  locale \<open>redis_server\<close>, which are the documented effects of the commands on two views of that
  state: the string keys with their deadlines, and the sorted sets with their scores. The
  reference server at the end of the theory is a complete implementation of the commands used,
  and shows that the laws can hold.
\<close>

subsection \<open>Commands\<close>

datatype rvalue = Str string | Num int

record 's redis =
  rGET :: "instant \<Rightarrow> string \<Rightarrow> 's \<Rightarrow> rvalue option"
  rEXISTS :: "instant \<Rightarrow> string \<Rightarrow> 's \<Rightarrow> int"
  rDEL :: "string \<Rightarrow> 's \<Rightarrow> 's"
  rSET :: "instant \<Rightarrow> string \<Rightarrow> rvalue \<Rightarrow> duration \<Rightarrow> 's \<Rightarrow> 's"
  rINCR :: "instant \<Rightarrow> string \<Rightarrow> 's \<Rightarrow> 's \<times> int option"
  rEXPIRE :: "instant \<Rightarrow> string \<Rightarrow> duration \<Rightarrow> 's \<Rightarrow> 's"
  rEXPIRENX :: "instant \<Rightarrow> string \<Rightarrow> duration \<Rightarrow> 's \<Rightarrow> 's"
  rZADD :: "string \<Rightarrow> int \<Rightarrow> string \<Rightarrow> 's \<Rightarrow> 's"
  rZADDNX :: "string \<Rightarrow> int \<Rightarrow> string \<Rightarrow> 's \<Rightarrow> 's"
  rZREM :: "string \<Rightarrow> string \<Rightarrow> 's \<Rightarrow> 's"
  rZRANGE :: "string \<Rightarrow> int \<Rightarrow> nat \<Rightarrow> 's \<Rightarrow> string list"

text \<open>
  A string key holds a value and possibly a deadline. It is readable strictly before its
  deadline.
\<close>

type_synonym entry = "rvalue \<times> instant option"

definition live :: "instant \<Rightarrow> entry option \<Rightarrow> rvalue option" where
  "live t e =
     (case e of
        None \<Rightarrow> None
      | Some (v, None) \<Rightarrow> Some v
      | Some (v, Some d) \<Rightarrow> if t < d then Some v else None)"

lemma live_simps [simp]:
  "live t None = None"
  "live t (Some (v, None)) = Some v"
  "live t (Some (v, Some d)) = (if t < d then Some v else None)"
  by (simp_all add: live_def)

lemma live_mono: "live t' e = Some v \<Longrightarrow> t \<le> t' \<Longrightarrow> live t e = Some v"
  by (auto simp: live_def split: option.splits if_splits)

lemma live_Some_entry: "live t e = Some v \<Longrightarrow> \<exists>d. e = Some (v, d)"
  by (auto simp: live_def split: option.splits if_splits)

subsection \<open>Documented effects\<close>

text \<open>
  A server whose strings and sorted sets are read by \<open>str\<close> and \<open>zset\<close>. The program keeps its strings and its one sorted set
  under different names, so the \<^verbatim>\<open>WRONGTYPE\<close> error of a string command on a sorted set does not occur and is left out.
\<close>

locale redis_server =
  fixes R :: "'s redis"
    and str :: "'s \<Rightarrow> string \<Rightarrow> entry option"
    and zset :: "'s \<Rightarrow> string \<Rightarrow> string \<Rightarrow> int option"
  assumes get [redis_simps]: "rGET R t k s = live t (str s k)"
    and exists_live: "live t (str s k) \<noteq> None \<Longrightarrow> rEXISTS R t k s = 1"
    and exists_none: "live t (str s k) = None \<Longrightarrow> zset s k = Map.empty \<Longrightarrow> rEXISTS R t k s = 0"
    and del_str [redis_simps]: "str (rDEL R k s) = (str s)(k := None)"
    and del_zset [redis_simps]: "k' \<noteq> k \<Longrightarrow> zset (rDEL R k s) k' = zset s k'"
    and set_str [redis_simps]: "str (rSET R t k v d s) = (str s)(k := Some (v, Some (t + d)))"
    and set_zset [redis_simps]: "k' \<noteq> k \<Longrightarrow> zset (rSET R t k v d s) k' = zset s k'"
    and incr_new: "live t (str s k) = None \<Longrightarrow>
      snd (rINCR R t k s) = Some 1 \<and> str (fst (rINCR R t k s)) = (str s)(k := Some (Num 1, None))"
    and incr_old: "str s k = Some (Num n, e) \<Longrightarrow> live t (str s k) = Some (Num n) \<Longrightarrow>
      n + 1 < 2 ^ 63 \<Longrightarrow>
      snd (rINCR R t k s) = Some (n + 1)
      \<and> str (fst (rINCR R t k s)) = (str s)(k := Some (Num (n + 1), e))"
    and incr_other: "k' \<noteq> k \<Longrightarrow> str (fst (rINCR R t k s)) k' = str s k'"
    and incr_zset [redis_simps]: "k' \<noteq> k \<Longrightarrow> zset (fst (rINCR R t k s)) k' = zset s k'"
    and expire_live: "str s k = Some (v, e) \<Longrightarrow> live t (str s k) = Some v \<Longrightarrow>
      str (rEXPIRE R t k d s) = (str s)(k := Some (v, Some (t + d)))"
    and expire_other: "k' \<noteq> k \<Longrightarrow> str (rEXPIRE R t k d s) k' = str s k'"
    and expire_zset [redis_simps]: "zset (rEXPIRE R t k d s) k' = zset s k'"
    and expirenx_new: "str s k = Some (v, None) \<Longrightarrow>
      str (rEXPIRENX R t k d s) = (str s)(k := Some (v, Some (t + d)))"
    and expirenx_old: "str s k = Some (v, Some d') \<Longrightarrow> t < d' \<Longrightarrow>
      str (rEXPIRENX R t k d s) = str s"
    and expirenx_other: "k' \<noteq> k \<Longrightarrow> str (rEXPIRENX R t k d s) k' = str s k'"
    and expirenx_zset [redis_simps]: "zset (rEXPIRENX R t k d s) k' = zset s k'"
    and zadd_zset [redis_simps]:
      "zset (rZADD R k x m s) = (zset s)(k := (zset s k)(m := Some x))"
    and zadd_str [redis_simps]: "k' \<noteq> k \<Longrightarrow> str (rZADD R k x m s) k' = str s k'"
    and zaddnx_zset [redis_simps]:
      "zset (rZADDNX R k x m s) =
         (if zset s k m = None then (zset s)(k := (zset s k)(m := Some x)) else zset s)"
    and zaddnx_str [redis_simps]: "k' \<noteq> k \<Longrightarrow> str (rZADDNX R k x m s) k' = str s k'"
    and zrem_zset [redis_simps]:
      "zset (rZREM R k m s) = (zset s)(k := (zset s k)(m := None))"
    and zrem_str [redis_simps]: "str (rZREM R k m s) k' = str s k'"
    and zrange_due: "m \<in> set (rZRANGE R k x c s) \<Longrightarrow> \<exists>y. zset s k m = Some y \<and> y \<le> x"
    and zrange_distinct: "distinct (rZRANGE R k x c s)"
    and zrange_length: "length (rZRANGE R k x c s) \<le> c"
    and zrange_all: "length (rZRANGE R k x c s) < c \<Longrightarrow> zset s k m = Some y \<Longrightarrow> y \<le> x \<Longrightarrow>
      m \<in> set (rZRANGE R k x c s)"
begin

text \<open>A command on one key never makes another string key readable or unreadable.\<close>

lemma get_after_set:
  "rGET R t' k (rSET R t k v d s) = (if t' < t + d then Some v else None)"
  by (simp add: redis_simps)

lemma get_after_del: "rGET R t k (rDEL R k s) = None"
  by (simp add: redis_simps)

lemma get_other_set: "k' \<noteq> k \<Longrightarrow> rGET R t' k' (rSET R t k v d s) = rGET R t' k' s"
  by (simp add: redis_simps)

lemma get_other_del: "k' \<noteq> k \<Longrightarrow> rGET R t k' (rDEL R k s) = rGET R t k' s"
  by (simp add: redis_simps)

lemma get_other_incr: "k' \<noteq> k \<Longrightarrow> rGET R t' k' (fst (rINCR R t k s)) = rGET R t' k' s"
  by (simp add: get incr_other)

lemma get_other_expire: "k' \<noteq> k \<Longrightarrow> rGET R t' k' (rEXPIRE R t k d s) = rGET R t' k' s"
  by (simp add: get expire_other)

lemma get_other_expirenx: "k' \<noteq> k \<Longrightarrow> rGET R t' k' (rEXPIRENX R t k d s) = rGET R t' k' s"
  by (simp add: get expirenx_other)

lemma get_zadd: "k' \<noteq> k \<Longrightarrow> rGET R t k' (rZADD R k x m s) = rGET R t k' s"
  by (simp add: redis_simps)

lemma get_zrem: "rGET R t k' (rZREM R k m s) = rGET R t k' s"
  by (simp add: redis_simps)

lemmas get_other =
  get_other_set get_other_del get_other_incr get_other_expire get_other_expirenx
  get_zadd get_zrem

text \<open>A live counter advances by one and keeps its deadline; a dead one restarts at one.\<close>

lemma incr_counter:
  assumes "live t (str s k) = (if n = 0 then None else Some (Num n))" "0 \<le> n" "n + 1 < 2 ^ 63"
  shows "snd (rINCR R t k s) = Some (n + 1)"
    and "live t (str (fst (rINCR R t k s)) k) = Some (Num (n + 1))"
proof -
  have "snd (rINCR R t k s) = Some (n + 1)
      \<and> live t (str (fst (rINCR R t k s)) k) = Some (Num (n + 1))"
  proof (cases "n = 0")
    case True
    then show ?thesis using assms(1) incr_new by simp
  next
    case False
    then have l: "live t (str s k) = Some (Num n)" using assms(1) by simp
    then obtain d where d: "str s k = Some (Num n, d)" using live_Some_entry by blast
    from incr_old [OF d l assms(3)] l d show ?thesis
      by (auto simp: live_def split: option.splits if_splits)
  qed
  then show "snd (rINCR R t k s) = Some (n + 1)"
    and "live t (str (fst (rINCR R t k s)) k) = Some (Num (n + 1))" by simp_all
qed

end

subsection \<open>A reference server\<close>

text \<open>
  String keys as a finite map, sorted sets as association lists kept in the order of their
  scores, ties broken by the order of the members.
\<close>

type_synonym zlist = "(string \<times> int) list"

record ref_state =
  strings :: "string \<Rightarrow> entry option"
  zsets :: "string \<Rightarrow> zlist"

definition ref_empty :: ref_state where
  "ref_empty = \<lparr>strings = (\<lambda>_. None), zsets = (\<lambda>_. [])\<rparr>"

definition zdel :: "string \<Rightarrow> zlist \<Rightarrow> zlist" where
  "zdel m l = filter (\<lambda>p. fst p \<noteq> m) l"

fun zins :: "string \<Rightarrow> int \<Rightarrow> zlist \<Rightarrow> zlist" where
  "zins m x [] = [(m, x)]"
| "zins m x (p # l) = (if x < snd p then (m, x) # p # l else p # zins m x l)"

definition ref_redis :: "ref_state redis" where
  "ref_redis = \<lparr>
     rGET = (\<lambda>t k s. live t (strings s k)),
     rEXISTS = (\<lambda>t k s. if live t (strings s k) = None \<and> zsets s k = [] then 0 else 1),
     rDEL = (\<lambda>k s. s\<lparr>strings := (strings s)(k := None), zsets := (zsets s)(k := [])\<rparr>),
     rSET = (\<lambda>t k v d s. s\<lparr>strings := (strings s)(k := Some (v, Some (t + d))),
                            zsets := (zsets s)(k := [])\<rparr>),
     rINCR = (\<lambda>t k s.
       case strings s k of
         Some (Num n, d) \<Rightarrow>
           (if live t (Some (Num n, d)) = None
            then (s\<lparr>strings := (strings s)(k := Some (Num 1, None))\<rparr>, Some 1)
            else if n + 1 < 2 ^ 63
            then (s\<lparr>strings := (strings s)(k := Some (Num (n + 1), d))\<rparr>, Some (n + 1))
            else (s, None))
       | e \<Rightarrow>
           (if live t e = None
            then (s\<lparr>strings := (strings s)(k := Some (Num 1, None))\<rparr>, Some 1)
            else (s, None))),
     rEXPIRE = (\<lambda>t k d s.
       case strings s k of
         None \<Rightarrow> s
       | Some (v, x) \<Rightarrow>
           (if live t (Some (v, x)) = None then s
            else s\<lparr>strings := (strings s)(k := Some (v, Some (t + d)))\<rparr>)),
     rEXPIRENX = (\<lambda>t k d s.
       case strings s k of
         Some (v, None) \<Rightarrow> s\<lparr>strings := (strings s)(k := Some (v, Some (t + d)))\<rparr>
       | _ \<Rightarrow> s),
     rZADD = (\<lambda>k x m s. s\<lparr>zsets := (zsets s)(k := zins m x (zdel m (zsets s k)))\<rparr>),
     rZADDNX = (\<lambda>k x m s.
       if map_of (zsets s k) m = None
       then s\<lparr>zsets := (zsets s)(k := zins m x (zsets s k))\<rparr> else s),
     rZREM = (\<lambda>k m s. s\<lparr>zsets := (zsets s)(k := zdel m (zsets s k))\<rparr>),
     rZRANGE = (\<lambda>k x c s.
       take c (remdups (map fst (filter (\<lambda>p. map_of (zsets s k) (fst p) = Some (snd p) \<and> snd p \<le> x)
                                  (zsets s k)))))\<rparr>"

definition ref_zset :: "ref_state \<Rightarrow> string \<Rightarrow> string \<Rightarrow> int option" where
  "ref_zset s k = map_of (zsets s k)"

lemma map_of_zdel: "map_of (zdel m l) = (map_of l)(m := None)"
  by (induction l) (auto simp: zdel_def fun_eq_iff)

lemma map_of_zins: "map_of l m = None \<Longrightarrow> map_of (zins m x l) = (map_of l)(m := Some x)"
  by (induction l) (auto simp: fun_eq_iff split: if_splits)

lemma map_of_zins_zdel: "map_of (zins m x (zdel m l)) = (map_of l)(m := Some x)"
  by (simp add: map_of_zins map_of_zdel)

lemma take_eq_all: "length (take c xs) < c \<Longrightarrow> take c xs = xs"
  by simp

interpretation ref: redis_server ref_redis strings ref_zset
proof unfold_locales
  fix t :: int and s :: ref_state and k :: string
  assume "live t (strings s k) = None"
  then show "snd (rINCR ref_redis t k s) = Some 1
      \<and> strings (fst (rINCR ref_redis t k s)) = (strings s)(k := Some (Num 1, None))"
    by (auto simp: ref_redis_def split: option.splits rvalue.splits prod.splits)
next
  fix t :: int and s :: ref_state and k k' :: string
  assume "k' \<noteq> k"
  then show "strings (fst (rINCR ref_redis t k s)) k' = strings s k'"
    by (auto simp: ref_redis_def split: option.splits rvalue.splits prod.splits)
next
  fix t :: int and s :: ref_state and k k' :: string
  assume "k' \<noteq> k"
  then show "ref_zset (fst (rINCR ref_redis t k s)) k' = ref_zset s k'"
    by (auto simp: ref_redis_def ref_zset_def split: option.splits rvalue.splits prod.splits)
next
  fix m k :: string and x y :: int and c :: nat and s :: ref_state
  assume "length (rZRANGE ref_redis k x c s) < c" "ref_zset s k m = Some y" "y \<le> x"
  then show "m \<in> set (rZRANGE ref_redis k x c s)"
    by (force simp: ref_redis_def ref_zset_def image_iff dest: map_of_SomeD)
qed (auto simp: ref_redis_def ref_zset_def map_of_zdel map_of_zins map_of_zins_zdel
        split: option.splits prod.splits rvalue.splits dest!: in_set_takeD)

end
