(* ===== verification/Validator.thy ===== *)
theory Validator
  imports Redis
begin

text \<open>
  \<^verbatim>\<open>anticheat/validator.go\<close>: the single-use task nonces, the Ed25519 checks, the per-node rate
  limit and the uniform-latency detector. The Redis commands are those of the parameter \<open>R\<close>;
  every request also takes its fate and the instant at which the server executes it. The
  signature primitive \<^verbatim>\<open>ed25519.Verify\<close> is a parameter; \<^verbatim>\<open>encoding/hex\<close> is modelled.
\<close>

subsection \<open>Hexadecimal strings (encoding/hex)\<close>

definition hex_digit :: "nat \<Rightarrow> char" where
  "hex_digit n = (if n < 10 then char_of (48 + n) else char_of (87 + n))"

definition hex_value :: "char \<Rightarrow> nat option" where
  "hex_value c =
     (let n = of_char c :: nat in
      if 48 \<le> n \<and> n \<le> 57 then Some (n - 48)
      else if 97 \<le> n \<and> n \<le> 102 then Some (n - 87)
      else if 65 \<le> n \<and> n \<le> 70 then Some (n - 55)
      else None)"

fun hex_encode :: "string \<Rightarrow> string" where
  "hex_encode [] = []"
| "hex_encode (c # cs) =
     hex_digit (of_char c div 16) # hex_digit (of_char c mod 16) # hex_encode cs"

fun hex_decode :: "string \<Rightarrow> string option" where
  "hex_decode [] = Some []"
| "hex_decode [c] = None"
| "hex_decode (a # b # cs) =
     (case (hex_value a, hex_value b, hex_decode cs) of
        (Some h, Some l, Some r) \<Rightarrow> Some (char_of (16 * h + l) # r)
      | _ \<Rightarrow> None)"

lemma hex_value_digit: "n < 16 \<Longrightarrow> hex_value (hex_digit n) = Some n"
  by (simp add: hex_value_def hex_digit_def Let_def)

lemma char_nat_bound: "(of_char c :: nat) < 256"
  by (rule nat_of_char_less_256)

lemma hex_decode_encode: "hex_decode (hex_encode b) = Some b"
proof (induction b)
  case Nil
  then show ?case by simp
next
  case (Cons c cs)
  have "(of_char c :: nat) div 16 < 16" using char_nat_bound [of c] by linarith
  with Cons show ?case by (simp add: hex_value_digit)
qed

lemma hex_decode_length: "hex_decode h = Some b \<Longrightarrow> length h = 2 * length b"
  by (induction h arbitrary: b rule: hex_decode.induct) (auto split: option.splits)

subsection \<open>Errors\<close>

datatype ac_error =
    ErrInvalidNonce
  | ErrRateLimitExceeded
  | ErrSuspiciousLatency
  | ErrRedis
  | ErrPubKeyHex
  | ErrSigHex
  | ErrPubKeySize nat
  | ErrSigSize nat
  | ErrSigMismatch

subsection \<open>Task nonces\<close>

definition nonce_key :: "string \<Rightarrow> string" where
  "nonce_key nonce = ''task_nonce:'' @ nonce"

lemma nonce_key_inject [simp]: "nonce_key a = nonce_key b \<longleftrightarrow> a = b"
  by (simp add: nonce_key_def)

text \<open>The Lua script, which the server runs as one step.\<close>

definition validateAndConsumeNonce :: "'s redis \<Rightarrow> instant \<Rightarrow> string \<Rightarrow> 's \<Rightarrow> 's \<times> int" where
  "validateAndConsumeNonce R t key s =
     (case rGET R t key s of None \<Rightarrow> (s, 0) | Some val \<Rightarrow> (rDEL R key s, 1))"

definition CheckNonceExists ::
  "'s redis \<Rightarrow> fate \<Rightarrow> instant \<Rightarrow> string \<Rightarrow> 's \<Rightarrow> bool \<times> ac_error option" where
  "CheckNonceExists R f t nonce s =
     (case snd (remote f (\<lambda>s. (s, rEXISTS R t (nonce_key nonce) s)) s) of
        None \<Rightarrow> (False, Some ErrRedis)
      | Some val \<Rightarrow> (0 < val, None))"

definition ValidateTaskNonce ::
  "'s redis \<Rightarrow> fate \<Rightarrow> instant \<Rightarrow> string \<Rightarrow> 's \<Rightarrow> 's \<times> ac_error option" where
  "ValidateTaskNonce R f t nonce s =
     (if nonce = '''' then (s, Some ErrInvalidNonce)
      else
        (case remote f (validateAndConsumeNonce R t (nonce_key nonce)) s of
           (s', None) \<Rightarrow> (s', Some ErrRedis)
         | (s', Some result) \<Rightarrow>
             if result = 0 then (s', Some ErrInvalidNonce) else (s', None)))"

subsection \<open>Signatures\<close>

definition PublicKeySize :: nat where "PublicKeySize = 32"
definition SignatureSize :: nat where "SignatureSize = 64"

definition VerifyIdentity ::
  "(string \<Rightarrow> string \<Rightarrow> string \<Rightarrow> bool) \<Rightarrow> string \<Rightarrow> string \<Rightarrow> string \<Rightarrow> ac_error option" where
  "VerifyIdentity ed25519_Verify pubKeyHex message sigHex =
     (case hex_decode pubKeyHex of
        None \<Rightarrow> Some ErrPubKeyHex
      | Some pubKeyBytes \<Rightarrow>
     (case hex_decode sigHex of
        None \<Rightarrow> Some ErrSigHex
      | Some sigBytes \<Rightarrow>
          if length pubKeyBytes \<noteq> PublicKeySize then Some (ErrPubKeySize (length pubKeyBytes))
          else if length sigBytes \<noteq> SignatureSize then Some (ErrSigSize (length sigBytes))
          else if \<not> ed25519_Verify pubKeyBytes message sigBytes then Some ErrSigMismatch
          else None))"

definition VerifySignature ::
  "(string \<Rightarrow> string \<Rightarrow> string \<Rightarrow> bool) \<Rightarrow> string \<Rightarrow> string \<Rightarrow> string \<Rightarrow> ac_error option" where
  "VerifySignature ed25519_Verify pubKeyHex message sigBytes =
     (case hex_decode pubKeyHex of
        None \<Rightarrow> Some ErrPubKeyHex
      | Some pubKeyBytes \<Rightarrow>
          if length pubKeyBytes \<noteq> PublicKeySize then Some (ErrPubKeySize (length pubKeyBytes))
          else if length sigBytes \<noteq> SignatureSize then Some (ErrSigSize (length sigBytes))
          else if \<not> ed25519_Verify pubKeyBytes message sigBytes then Some ErrSigMismatch
          else None)"

subsection \<open>Rate limit and latency streaks\<close>

definition rate_key :: "string \<Rightarrow> string" where
  "rate_key nodeID = ''ratelimit:node:'' @ nodeID"

text \<open>
  The two commands travel in one pipeline, so the second is executed only if the first was;
  the pipeline reports the first failed command.
\<close>

definition CheckRateLimit ::
  "'s redis \<Rightarrow> fate \<Rightarrow> fate \<Rightarrow> instant \<Rightarrow> string \<Rightarrow> int \<Rightarrow> 's \<Rightarrow> 's \<times> ac_error option" where
  "CheckRateLimit R f1 f2 t nodeID maxPerMinute s =
     (let key = rate_key nodeID;
          (s1, incr) = remote f1 (rINCR R t key) s;
          (s2, ex) = (if f1 = RequestLost then (s1, None)
                      else remote f2 (\<lambda>s. (rEXPIRENX R t key (60 * second) s, ())) s1)
      in case (incr, ex) of
           (Some (Some n), Some _) \<Rightarrow>
             if n > maxPerMinute then (s2, Some ErrRateLimitExceeded) else (s2, None)
         | _ \<Rightarrow> (s2, Some ErrRedis))"

definition latency_key :: "string \<Rightarrow> int \<Rightarrow> string" where
  "latency_key nodeID latencyMs =
     ''latency:streak:'' @ nodeID @ '':'' @ show_int latencyMs"

text \<open>The result of the increment is read without its error: a failed request counts as 0.\<close>

definition DetectFakeLatency ::
  "'s redis \<Rightarrow> fate \<Rightarrow> fate \<Rightarrow> instant \<Rightarrow> string \<Rightarrow> int \<Rightarrow> 's \<Rightarrow> 's \<times> ac_error option" where
  "DetectFakeLatency R f1 f2 t nodeID latencyMs s =
     (let key = latency_key nodeID latencyMs;
          (s1, r) = remote f1 (rINCR R t key) s;
          count = (case r of Some (Some n) \<Rightarrow> n | _ \<Rightarrow> 0);
          s2 = fst (remote f2 (\<lambda>s. (rEXPIRE R t key (5 * minute) s, ())) s1)
      in (s2, if count > 10 then Some ErrSuspiciousLatency else None))"

text \<open>The key spaces of the three checks never meet.\<close>

lemma keys_distinct [simp]:
  "nonce_key n \<noteq> rate_key m" "rate_key m \<noteq> nonce_key n"
  "nonce_key n \<noteq> latency_key m l" "latency_key m l \<noteq> nonce_key n"
  "rate_key m' \<noteq> latency_key m l" "latency_key m l \<noteq> rate_key m'"
  by (simp_all add: nonce_key_def rate_key_def latency_key_def)

subsection \<open>The nonce gate: an interface for the result handlers\<close>

text \<open>
  What the handlers of probe results rely on: a nonce is accepted when the request was answered
  and the nonce is present, acceptance spends it for good, and nonces do not disturb one another.
\<close>

locale nonce_gate =
  fixes present :: "'s \<Rightarrow> string \<Rightarrow> instant \<Rightarrow> bool"
    and issue :: "instant \<Rightarrow> string \<Rightarrow> duration \<Rightarrow> 's \<Rightarrow> 's"
    and consume :: "fate \<Rightarrow> instant \<Rightarrow> string \<Rightarrow> 's \<Rightarrow> 's \<times> ac_error option"
  assumes consume_iff: "snd (consume f t n s) = None \<longleftrightarrow> f = Delivered \<and> present s n t"
    and consume_spends: "present s n t \<Longrightarrow> f \<noteq> RequestLost \<Longrightarrow>
      \<not> present (fst (consume f t n s)) n t'"
    and consume_keeps: "present (fst (consume f t n s)) m t' \<Longrightarrow> present s m t'"
    and consume_other: "m \<noteq> n \<Longrightarrow> present (fst (consume f t n s)) m t' = present s m t'"
    and issue_present: "n \<noteq> [] \<Longrightarrow> present (issue t n d s) n t' \<longleftrightarrow> t' < t + d"
    and issue_other: "m \<noteq> n \<Longrightarrow> present (issue t n d s) m t' = present s m t'"

text \<open>A sequence of submissions; the nonces that were accepted, in order.\<close>

fun accepted_nonces ::
  "(fate \<Rightarrow> instant \<Rightarrow> string \<Rightarrow> 's \<Rightarrow> 's \<times> 'e option) \<Rightarrow>
   (fate \<times> instant \<times> string) list \<Rightarrow> 's \<Rightarrow> string list" where
  "accepted_nonces consume [] s = []"
| "accepted_nonces consume ((f, t, n) # xs) s =
     (case consume f t n s of
        (s', None) \<Rightarrow> n # accepted_nonces consume xs s'
      | (s', Some e) \<Rightarrow> accepted_nonces consume xs s')"

context nonce_gate begin

lemma accepted_were_present:
  "n \<in> set (accepted_nonces consume xs s) \<Longrightarrow> \<exists>t. present s n t"
proof (induction xs arbitrary: s)
  case Nil
  then show ?case by simp
next
  case (Cons x xs)
  obtain f t m where x: "x = (f, t, m)" by (cases x)
  obtain s' r where c: "consume f t m s = (s', r)" by fastforce
  show ?case
  proof (cases "r = None \<and> n = m")
    case True
    with c consume_iff [of f t m s] show ?thesis by auto
  next
    case False
    with Cons.prems x c have "n \<in> set (accepted_nonces consume xs s')"
      by (auto split: option.splits)
    then obtain t' where "present s' n t'" using Cons.IH by blast
    with c consume_keeps [of f t m s n t'] show ?thesis by auto
  qed
qed

lemma accepted_distinct: "distinct (accepted_nonces consume xs s)"
proof (induction xs arbitrary: s)
  case Nil
  then show ?case by simp
next
  case (Cons x xs)
  obtain f t m where x: "x = (f, t, m)" by (cases x)
  obtain s' r where c: "consume f t m s = (s', r)" by fastforce
  show ?case
  proof (cases r)
    case None
    then have "f = Delivered" "present s m t" using c consume_iff [of f t m s] by auto
    then have "\<not> present s' m t'" for t' using consume_spends [of s m t f t'] c by auto
    then have "m \<notin> set (accepted_nonces consume xs s')" using accepted_were_present by blast
    with Cons.IH x c None show ?thesis by simp
  next
    case (Some e)
    with Cons.IH x c show ?thesis by simp
  qed
qed

text \<open>A spent nonce stays unacceptable through any further submissions.\<close>

lemma replay_rejected:
  assumes "snd (consume f t n s) = None"
  shows "snd (consume f' t' n (fst (consume f t n s))) \<noteq> None"
  using assms consume_iff consume_spends [of s n t f t'] by auto

end

subsection \<open>The validator over any Redis server\<close>

context redis_server begin

lemma validate_script:
  "validateAndConsumeNonce R t k s =
     (if live t (str s k) = None then (s, 0) else (rDEL R k s, 1))"
  by (auto simp: validateAndConsumeNonce_def get split: option.splits)

lemma validate_iff:
  "snd (ValidateTaskNonce R f t n s) = None \<longleftrightarrow>
     f = Delivered \<and> n \<noteq> '''' \<and> rGET R t (nonce_key n) s \<noteq> None"
  by (cases f) (auto simp: ValidateTaskNonce_def validate_script get)

lemma validate_state:
  "fst (ValidateTaskNonce R f t n s) =
     (if n = '''' \<or> f = RequestLost \<or> rGET R t (nonce_key n) s = None then s
      else rDEL R (nonce_key n) s)"
  by (cases f) (auto simp: ValidateTaskNonce_def validate_script get)

end

sublocale redis_server \<subseteq> gate: nonce_gate
  "\<lambda>s n t. n \<noteq> '''' \<and> rGET R t (nonce_key n) s \<noteq> None"
  "\<lambda>t n d. rSET R t (nonce_key n) (Str ''1'') d"
  "ValidateTaskNonce R"
proof unfold_locales
  fix f and t t' :: int and n m :: string and s
  show "(snd (ValidateTaskNonce R f t n s) = None) =
      (f = Delivered \<and> n \<noteq> '''' \<and> rGET R t (nonce_key n) s \<noteq> None)"
    by (simp add: validate_iff)
next
  fix f and t t' :: int and n m :: string and s
  assume "m \<noteq> '''' \<and> rGET R t' (nonce_key m) (fst (ValidateTaskNonce R f t n s)) \<noteq> None"
  then show "m \<noteq> '''' \<and> rGET R t' (nonce_key m) s \<noteq> None"
    by (auto simp: validate_state get del_str split: if_splits)
qed (auto simp: validate_state get del_str set_str)

subsection \<open>Rate windows and latency streaks\<close>

text \<open>Repeated checks, all requests delivered; \<open>True\<close> where the check passed.\<close>

fun rate_run :: "'s redis \<Rightarrow> string \<Rightarrow> int \<Rightarrow> instant list \<Rightarrow> 's \<Rightarrow> bool list" where
  "rate_run R node limit [] s = []"
| "rate_run R node limit (t # ts) s =
     (case CheckRateLimit R Delivered Delivered t node limit s of
        (s', e) \<Rightarrow> (e = None) # rate_run R node limit ts s')"

fun latency_run :: "'s redis \<Rightarrow> string \<Rightarrow> (instant \<times> int) list \<Rightarrow> 's \<Rightarrow> bool list" where
  "latency_run R node [] s = []"
| "latency_run R node ((t, l) # xs) s =
     (case DetectFakeLatency R Delivered Delivered t node l s of
        (s', e) \<Rightarrow> (e = None) # latency_run R node xs s')"

context redis_server begin

lemma rate_first:
  assumes "live t (str s (rate_key node)) = None"
  shows "snd (CheckRateLimit R Delivered Delivered t node limit s) = None \<longleftrightarrow> 1 \<le> limit"
    and "str (fst (CheckRateLimit R Delivered Delivered t node limit s)) (rate_key node) =
           Some (Num 1, Some (t + 60 * second))"
  using incr_new [OF assms] expirenx_new
  by (auto simp: CheckRateLimit_def Let_def split: prod.splits)

lemma rate_next:
  assumes "str s (rate_key node) = Some (Num n, Some d)" "t < d" "n + 1 < 2 ^ 63"
  shows "snd (CheckRateLimit R Delivered Delivered t node limit s) = None \<longleftrightarrow> n + 1 \<le> limit"
    and "str (fst (CheckRateLimit R Delivered Delivered t node limit s)) (rate_key node) =
           Some (Num (n + 1), Some d)"
  using incr_old [OF assms(1) _ assms(3), of t] expirenx_old assms(1,2)
  by (auto simp: CheckRateLimit_def Let_def split: prod.splits)

lemma rate_run_counting:
  assumes "str s (rate_key node) = Some (Num n, Some d)" "\<forall>t \<in> set ts. t < d"
    "n + int (length ts) < 2 ^ 63"
  shows "rate_run R node limit ts s = map (\<lambda>i. n + int i < limit) [0..<length ts]"
  using assms
proof (induction ts arbitrary: s n)
  case Nil
  then show ?case by simp
next
  case (Cons t ts)
  obtain s' e where c: "CheckRateLimit R Delivered Delivered t node limit s = (s', e)" by fastforce
  have step: "e = None \<longleftrightarrow> n + 1 \<le> limit" "str s' (rate_key node) = Some (Num (n + 1), Some d)"
    using rate_next [of s node n d t limit] Cons.prems c by auto
  with Cons.IH [OF step(2)] Cons.prems(2,3) c show ?case
    by (auto simp: map_upt_Suc algebra_simps simp del: upt_Suc)
qed

lemma latency_step:
  assumes "live t (str s (latency_key node l)) = (if n = 0 then None else Some (Num n))"
    "0 \<le> n" "n + 1 < 2 ^ 63"
  shows "snd (DetectFakeLatency R Delivered Delivered t node l s) = None \<longleftrightarrow> n < 10"
    and "str (fst (DetectFakeLatency R Delivered Delivered t node l s)) (latency_key node l) =
           Some (Num (n + 1), Some (t + 5 * minute))"
proof -
  note i = incr_counter [OF assms]
  obtain d where d: "str (fst (rINCR R t (latency_key node l) s)) (latency_key node l)
      = Some (Num (n + 1), d)"
    using live_Some_entry [OF i(2)] by blast
  show "snd (DetectFakeLatency R Delivered Delivered t node l s) = None \<longleftrightarrow> n < 10"
    using i(1) by (auto simp: DetectFakeLatency_def Let_def)
  show "str (fst (DetectFakeLatency R Delivered Delivered t node l s)) (latency_key node l) =
           Some (Num (n + 1), Some (t + 5 * minute))"
    using expire_live [OF d i(2)] by (simp add: DetectFakeLatency_def Let_def)
qed

lemma latency_frame:
  "k \<noteq> latency_key node l \<Longrightarrow> str (fst (DetectFakeLatency R f1 f2 t node l s)) k = str s k"
  by (cases f1; cases f2) (auto simp: DetectFakeLatency_def Let_def incr_other expire_other)

lemma rate_frame:
  "k \<noteq> rate_key node \<Longrightarrow> str (fst (CheckRateLimit R f1 f2 t node limit s)) k = str s k"
  by (cases f1; cases f2)
     (auto simp: CheckRateLimit_def Let_def incr_other expirenx_other split: option.splits)

lemma latency_run_counting:
  assumes "\<forall>l. if c l = 0 then str s (latency_key node l) = None
               else \<exists>d. str s (latency_key node l) = Some (Num (int (c l)), Some d) \<and> tw + 5 * minute \<le> d"
    "\<forall>x \<in> set xs. tw \<le> fst x \<and> fst x < tw + 5 * minute"
    "\<forall>l. int (c l + length xs) < 2 ^ 63"
  shows "latency_run R node xs s =
    map (\<lambda>i. c (snd (xs ! i)) + count_list (map snd (take i xs)) (snd (xs ! i)) < 10) [0..<length xs]"
  using assms
proof (induction xs arbitrary: s c)
  case Nil
  then show ?case by simp
next
  case (Cons x xs)
  obtain t l where x: "x = (t, l)" by (cases x)
  let ?D = "DetectFakeLatency R Delivered Delivered t node l s"
  have lv: "live t (str s (latency_key node l)) = (if int (c l) = 0 then None else Some (Num (int (c l))))"
    using Cons.prems(1) [rule_format, of l] Cons.prems(2) x by (auto split: if_splits)
  have small: "int (c l) + 1 < 2 ^ 63" using Cons.prems(3) [rule_format, of l] by simp
  note step = latency_step [OF lv _ small]
  let ?c = "c(l := Suc (c l))"
  have "\<forall>k. if ?c k = 0 then str (fst ?D) (latency_key node k) = None
      else \<exists>d. str (fst ?D) (latency_key node k) = Some (Num (int (?c k)), Some d) \<and> tw + 5 * minute \<le> d"
  proof
    fix k
    show "if ?c k = 0 then str (fst ?D) (latency_key node k) = None
      else \<exists>d. str (fst ?D) (latency_key node k) = Some (Num (int (?c k)), Some d) \<and> tw + 5 * minute \<le> d"
      using step(2) Cons.prems(1) [rule_format, of k] Cons.prems(2) x
        latency_frame [of "latency_key node k" node l]
      by (cases "k = l") (auto simp: latency_key_def add.commute)
  qed
  moreover have "\<forall>k. int (?c k + length xs) < 2 ^ 63"
  proof
    fix k
    show "int (?c k + length xs) < 2 ^ 63"
      using Cons.prems(3) [rule_format, of k] by (cases "k = l") simp_all
  qed
  ultimately have
    "latency_run R node xs (fst ?D) =
       map (\<lambda>i. ?c (snd (xs ! i)) + count_list (map snd (take i xs)) (snd (xs ! i)) < 10) [0..<length xs]"
    using Cons.IH [of ?c "fst ?D"] Cons.prems(2) by simp
  with step(1) x show ?case
    by (auto simp: map_upt_Suc simp del: upt_Suc split: prod.splits)
qed

end

context redis_server begin

lemmas validated_nonces_distinct = gate.accepted_distinct

end

subsection \<open>Properties\<close>

lemmas ref_server = ref.redis_server_axioms

text \<open>
  Replay protection: over any Redis server, in any sequence of submissions of nonces, with
  requests and replies lost anywhere, no nonce is accepted twice (unless it is issued again).
\<close>
theorem nonce_single_use:
  assumes "redis_server R str zset"
  shows "distinct (accepted_nonces (ValidateTaskNonce R) xs s)"
  by (rule redis_server.validated_nonces_distinct [OF assms])

definition demo_nonce_state :: ref_state where
  "demo_nonce_state = rSET ref_redis 0 (nonce_key ''n1'') (Str ''1'') (15 * minute) ref_empty"

theorem nonce_single_use_witness:
  "accepted_nonces (ValidateTaskNonce ref_redis)
     [(RequestLost, 1, ''n1''), (Delivered, 2, ''n1''), (Delivered, 3, ''n1'')] demo_nonce_state = [''n1'']
   \<and> distinct (accepted_nonces (ValidateTaskNonce ref_redis)
     [(RequestLost, 1, ''n1''), (Delivered, 2, ''n1''), (Delivered, 3, ''n1'')] demo_nonce_state)"
  using nonce_single_use [OF ref_server]
  by (simp add: demo_nonce_state_def ValidateTaskNonce_def validateAndConsumeNonce_def
      ref_redis_def ref_empty_def nonce_key_def)

text \<open>
  The rate limit is a fixed window: when no counter is alive, the first check opens a window
  of sixty seconds, and of all checks made in that window exactly the first \<open>limit\<close> pass.
\<close>
theorem rate_limit_window:
  assumes "redis_server R str zset"
    and "live t (str s (rate_key node)) = None"
    and "\<forall>t' \<in> set ts. t \<le> t' \<and> t' < t + 60 * second"
    and "int (length ts) + 1 < 2 ^ 63"
  shows "rate_run R node limit (t # ts) s = map (\<lambda>i. int i < limit) [0..<Suc (length ts)]"
proof -
  obtain s' e where c: "CheckRateLimit R Delivered Delivered t node limit s = (s', e)" by fastforce
  note first = redis_server.rate_first [OF assms(1,2), of limit, unfolded c, simplified]
  have "rate_run R node limit ts s' = map (\<lambda>i. 1 + int i < limit) [0..<length ts]"
    using redis_server.rate_run_counting [OF assms(1) first(2)] assms(3,4) by simp
  with first(1) c show ?thesis
    by (auto simp: map_upt_Suc simp del: upt_Suc)
qed

theorem rate_limit_window_witness:
  "rate_run ref_redis ''node'' 2 [0, 5, 59 * second] ref_empty = [True, True, False]"
proof -
  have "rate_run ref_redis ''node'' 2 (0 # [5, 59 * second]) ref_empty =
    map (\<lambda>i. int i < 2) [0..<Suc (length [5, 59 * second])]"
    by (rule rate_limit_window [OF ref_server]) (simp_all add: ref_empty_def)
  then show ?thesis by (simp add: upt_rec)
qed

text \<open>
  The latency detector counts occurrences, not consecutive ones: among submissions within five
  minutes of the first, one is rejected exactly when its latency value has already been submitted
  ten times, whatever other values came between.
\<close>
theorem latency_detector_counts:
  assumes "redis_server R str zset"
    and "\<forall>l. str s (latency_key node l) = None"
    and "\<forall>x \<in> set xs. tw \<le> fst x \<and> fst x < tw + 5 * minute"
    and "int (length xs) < 2 ^ 63"
  shows "latency_run R node xs s =
    map (\<lambda>i. count_list (map snd (take i xs)) (snd (xs ! i)) < 10) [0..<length xs]"
  using redis_server.latency_run_counting [OF assms(1), of "\<lambda>_. 0" s node tw xs] assms(2-4)
  by simp

theorem latency_detector_counts_witness:
  "latency_run ref_redis ''node'' (concat (replicate 10 [(0, 20), (1, 7)]) @ [(2, 20)]) ref_empty
     = replicate 20 True @ [False]"
proof -
  have e: "\<forall>l. strings ref_empty (latency_key ''node'' l) = None" by (simp add: ref_empty_def)
  let ?xs = "concat (replicate 10 [(0, 20), (1, 7)]) @ [(2 :: int, 20 :: int)]"
  have "latency_run ref_redis ''node'' ?xs ref_empty =
    map (\<lambda>i. count_list (map snd (take i ?xs)) (snd (?xs ! i)) < 10) [0..<length ?xs]"
    by (rule latency_detector_counts [OF ref_server e, where tw = 0])
       (simp_all add: numeral_eq_Suc)
  also have "\<dots> = replicate 20 True @ [False]" by code_simp
  finally show ?thesis .
qed

text \<open>
  Failure directions: when the first request of a check is not answered, the nonce check and
  the rate limit reject the submission, while the latency detector lets it pass.
\<close>
theorem lost_requests_fail:
  assumes "f \<noteq> Delivered"
  shows "snd (ValidateTaskNonce R f t nonce s) \<noteq> None
    \<and> snd (CheckRateLimit R f f2 t node limit s) = Some ErrRedis
    \<and> snd (DetectFakeLatency R f f2 t node l s) = None"
  using assms
  by (cases f) (auto simp: ValidateTaskNonce_def CheckRateLimit_def DetectFakeLatency_def Let_def
      split: prod.splits)

theorem lost_requests_fail_witness:
  "snd (ValidateTaskNonce ref_redis ReplyLost 1 ''n1'' demo_nonce_state) = Some ErrRedis
   \<and> snd (ValidateTaskNonce ref_redis ReplyLost 1 ''n1'' demo_nonce_state) \<noteq> None
   \<and> snd (CheckRateLimit ref_redis RequestLost Delivered 1 ''a'' 600 ref_empty) = Some ErrRedis
   \<and> snd (DetectFakeLatency ref_redis RequestLost Delivered 1 ''a'' 20 ref_empty) = None"
proof -
  have 1: "snd (ValidateTaskNonce ref_redis ReplyLost 1 ''n1'' demo_nonce_state) \<noteq> None"
    by (rule lost_requests_fail [THEN conjunct1]) simp
  have 2: "snd (CheckRateLimit ref_redis RequestLost Delivered 1 ''a'' 600 ref_empty) = Some ErrRedis
    \<and> snd (DetectFakeLatency ref_redis RequestLost Delivered 1 ''a'' 20 ref_empty) = None"
    by (rule lost_requests_fail [THEN conjunct2]) simp
  have 3: "snd (ValidateTaskNonce ref_redis ReplyLost 1 ''n1'' demo_nonce_state) = Some ErrRedis"
    by (simp add: ValidateTaskNonce_def)
  from 1 2 3 show ?thesis by simp
qed

text \<open>
  The two signature checks agree: checking the hex encoding of a signature, as the handshake
  does, is checking the signature itself, as result submission does; and either accepts exactly
  the 64-byte signatures that verify under the 32-byte key the node identity encodes.
\<close>
theorem identity_check_agrees:
  "VerifyIdentity v pk msg (hex_encode sig) = VerifySignature v pk msg sig
   \<and> (VerifySignature v pk msg sig = None \<longleftrightarrow>
        (\<exists>key. hex_decode pk = Some key \<and> length key = 32 \<and> length sig = 64 \<and> v key msg sig))"
  by (auto simp: VerifyIdentity_def VerifySignature_def hex_decode_encode PublicKeySize_def
      SignatureSize_def split: option.splits)

end
