(* ===== verification/Registry.thy ===== *)
theory Registry
  imports Models
begin

text \<open>
  \<^verbatim>\<open>services/registry.go\<close>: the in-memory registry of nodes that sent a heartbeat, and the smart
  scheduler that matches monitors to them. Go iterates over a map in an order of its own choosing:
  every definition that ranges over one takes that order as a list of keys.
\<close>

subsection \<open>MemoryRegistry\<close>

record ActiveNode =
  an_Pubkey :: pubkey
  an_Email :: string
  an_Latitude :: float64
  an_Longitude :: float64
  an_LastSeen :: instant

record MemoryRegistry =
  nodes :: "pubkey \<Rightarrow> ActiveNode option"

definition NewMemoryRegistry :: MemoryRegistry where
  "NewMemoryRegistry = \<lparr>nodes = Map.empty\<rparr>"

definition TrackHeartbeat ::
  "instant \<Rightarrow> pubkey \<Rightarrow> string \<Rightarrow> float64 \<Rightarrow> float64 \<Rightarrow> MemoryRegistry \<Rightarrow> MemoryRegistry" where
  "TrackHeartbeat now pk email lat lon r =
     r\<lparr>nodes := (nodes r)(pk \<mapsto>
        \<lparr>an_Pubkey = pk, an_Email = email, an_Latitude = lat, an_Longitude = lon,
         an_LastSeen = now\<rparr>)\<rparr>"

definition GetOnlineNodes :: "pubkey list \<Rightarrow> instant \<Rightarrow> MemoryRegistry \<Rightarrow> ActiveNode list" where
  "GetOnlineNodes order now r =
     concat (map (\<lambda>k. case nodes r k of
                        None \<Rightarrow> []
                      | Some node \<Rightarrow> if now - an_LastSeen node \<le> 5 * minute then [node] else []) order)"

text \<open>One tick of the eviction loop.\<close>

definition evictTick :: "instant \<Rightarrow> MemoryRegistry \<Rightarrow> MemoryRegistry" where
  "evictTick now r =
     r\<lparr>nodes := (\<lambda>k. case nodes r k of
                       None \<Rightarrow> None
                     | Some node \<Rightarrow> if now - an_LastSeen node > 5 * minute then None else Some node)\<rparr>"

text \<open>An order in which Go may range over a map.\<close>

definition map_order :: "'k list \<Rightarrow> ('k \<Rightarrow> 'v option) \<Rightarrow> bool" where
  "map_order order m \<longleftrightarrow> distinct order \<and> set order = dom m"

subsection \<open>SmartScheduler\<close>

type_synonym cursors = "string \<Rightarrow> nat"

text \<open>
  \<^verbatim>\<open>url.Parse\<close> followed by \<^verbatim>\<open>Hostname\<close> is the parameter \<open>hostname\<close>, \<open>None\<close> where parsing fails.
\<close>

definition cleanDomain :: "(string \<Rightarrow> string option) \<Rightarrow> string \<Rightarrow> string" where
  "cleanDomain hostname rawURL =
     (case hostname rawURL of None \<Rightarrow> to_lower rawURL | Some h \<Rightarrow> to_lower h)"

fun matchLoop ::
  "(string \<Rightarrow> string option) \<Rightarrow> ActiveNode list \<Rightarrow> Monitor list \<Rightarrow>
   cursors \<Rightarrow> (string \<Rightarrow> nat) \<Rightarrow> (pubkey \<Rightarrow> Monitor option) \<Rightarrow>
   cursors \<times> (pubkey \<Rightarrow> Monitor option)" where
  "matchLoop hostname onlineNodes [] domainNodeIdx domainCounts assignments =
     (domainNodeIdx, assignments)"
| "matchLoop hostname onlineNodes (m # ms) domainNodeIdx domainCounts assignments =
     (let domain = cleanDomain hostname (m_TargetURL m);
          n = length onlineNodes
      in if 5 \<le> domainCounts domain
         then matchLoop hostname onlineNodes ms domainNodeIdx domainCounts assignments
         else
           (let idx = domainNodeIdx domain mod n;
                picked = onlineNodes ! idx
            in matchLoop hostname onlineNodes ms
                 (domainNodeIdx(domain := (idx + 1) mod n))
                 (domainCounts(domain := Suc (domainCounts domain)))
                 (assignments(an_Pubkey picked \<mapsto> m))))"

definition MatchBatch ::
  "(string \<Rightarrow> string option) \<Rightarrow> pubkey list \<Rightarrow> instant \<Rightarrow> MemoryRegistry \<Rightarrow> cursors \<Rightarrow>
   Monitor list \<Rightarrow> cursors \<times> (pubkey \<Rightarrow> Monitor option)" where
  "MatchBatch hostname order now r domainNodeIdx monitors =
     (let onlineNodes = GetOnlineNodes order now r
      in if onlineNodes = [] then (domainNodeIdx, Map.empty)
         else matchLoop hostname onlineNodes monitors domainNodeIdx (\<lambda>_. 0) Map.empty)"

subsection \<open>The registry as an interface\<close>

text \<open>
  What the scheduler relies on: who is online at an instant is decided by the last heartbeat
  alone. The abstraction is the instant of each node's last heartbeat still in memory.
\<close>

locale heartbeat_registry =
  fixes empty :: 'r
    and track :: "instant \<Rightarrow> pubkey \<Rightarrow> 'x \<Rightarrow> 'r \<Rightarrow> 'r"
    and evict :: "instant \<Rightarrow> 'r \<Rightarrow> 'r"
    and online :: "instant \<Rightarrow> 'r \<Rightarrow> pubkey set"
    and last_seen :: "'r \<Rightarrow> pubkey \<Rightarrow> instant option"
  assumes seen_empty: "last_seen empty k = None"
    and seen_track: "last_seen (track t k x r) = (last_seen r)(k \<mapsto> t)"
    and seen_evict: "last_seen (evict t r) k =
      (case last_seen r k of None \<Rightarrow> None | Some u \<Rightarrow> if t - u > 5 * minute then None else Some u)"
    and online_iff: "k \<in> online t r \<longleftrightarrow> (\<exists>u. last_seen r k = Some u \<and> t - u \<le> 5 * minute)"

datatype 'x registry_event = Beat instant pubkey 'x | Evict instant

fun event_time :: "'x registry_event \<Rightarrow> instant" where
  "event_time (Beat t k x) = t"
| "event_time (Evict t) = t"

fun registry_run ::
  "(instant \<Rightarrow> pubkey \<Rightarrow> 'x \<Rightarrow> 'r \<Rightarrow> 'r) \<Rightarrow> (instant \<Rightarrow> 'r \<Rightarrow> 'r) \<Rightarrow> 'x registry_event list \<Rightarrow> 'r \<Rightarrow> 'r"
where
  "registry_run track evict [] r = r"
| "registry_run track evict (Beat t k x # es) r = registry_run track evict es (track t k x r)"
| "registry_run track evict (Evict t # es) r = registry_run track evict es (evict t r)"

text \<open>The last heartbeat of a node in a history, if any.\<close>

fun last_beat :: "pubkey \<Rightarrow> 'x registry_event list \<Rightarrow> instant option \<Rightarrow> instant option" where
  "last_beat k [] b = b"
| "last_beat k (Beat t j x # es) b = last_beat k es (if j = k then Some t else b)"
| "last_beat k (Evict t # es) b = last_beat k es b"

context heartbeat_registry begin

text \<open>Memory and history agree on every node that can still be online.\<close>

lemma run_agrees:
  assumes "\<forall>e \<in> set es. event_time e \<le> now"
    and "\<And>u. u \<ge> now - 5 * minute \<Longrightarrow> last_seen r k = Some u \<longleftrightarrow> b = Some u"
    and "u \<ge> now - 5 * minute"
  shows "last_seen (registry_run track evict es r) k = Some u \<longleftrightarrow> last_beat k es b = Some u"
  using assms
proof (induction es arbitrary: r b)
  case Nil
  then show ?case by simp
next
  case (Cons e es)
  show ?case
  proof (cases e)
    case (Beat t j x)
    have "last_seen (track t j x r) k = Some v \<longleftrightarrow> (if j = k then Some t else b) = Some v"
      if "v \<ge> now - 5 * minute" for v
      using Cons.prems(2) [OF that] by (simp add: seen_track)
    from Cons.IH [OF _ this] Cons.prems(1,3) Beat show ?thesis by simp
  next
    case (Evict t)
    have "last_seen (evict t r) k = Some v \<longleftrightarrow> b = Some v" if "v \<ge> now - 5 * minute" for v
      using Cons.prems(2) [OF that] Cons.prems(1) that Evict
      by (auto simp: seen_evict split: option.splits if_splits)
    from Cons.IH [OF _ this] Cons.prems(1,3) Evict show ?thesis by simp
  qed
qed

lemma online_run:
  assumes "\<forall>e \<in> set es. event_time e \<le> now"
  shows "k \<in> online now (registry_run track evict es empty) \<longleftrightarrow>
    (\<exists>u. last_beat k es None = Some u \<and> now - u \<le> 5 * minute)"
proof -
  have "last_seen (registry_run track evict es empty) k = Some u \<longleftrightarrow> last_beat k es None = Some u"
    if "u \<ge> now - 5 * minute" for u
    using run_agrees [OF assms, of empty k None u] that by (simp add: seen_empty)
  then show ?thesis by (auto simp: online_iff algebra_simps)
qed

end

definition onlineKeys :: "instant \<Rightarrow> MemoryRegistry \<Rightarrow> pubkey set" where
  "onlineKeys now r = {k. \<exists>n. nodes r k = Some n \<and> now - an_LastSeen n \<le> 5 * minute}"

interpretation registry: heartbeat_registry
  NewMemoryRegistry
  "\<lambda>t k (email, lat, lon). TrackHeartbeat t k email lat lon"
  evictTick
  onlineKeys
  "\<lambda>r k. map_option an_LastSeen (nodes r k)"
  by unfold_locales
     (auto simp: NewMemoryRegistry_def TrackHeartbeat_def evictTick_def onlineKeys_def fun_eq_iff
        split: option.splits)

subsection \<open>The list of online nodes\<close>

text \<open>Every entry is filed under its own key.\<close>

definition keyed :: "MemoryRegistry \<Rightarrow> bool" where
  "keyed r \<longleftrightarrow> (\<forall>k n. nodes r k = Some n \<longrightarrow> an_Pubkey n = k)"

lemma keyed_New: "keyed NewMemoryRegistry"
  by (simp add: keyed_def NewMemoryRegistry_def)

lemma keyed_Track: "keyed r \<Longrightarrow> keyed (TrackHeartbeat now pk email lat lon r)"
  by (auto simp: keyed_def TrackHeartbeat_def)

lemma keyed_evict: "keyed r \<Longrightarrow> keyed (evictTick now r)"
  by (auto simp: keyed_def evictTick_def split: option.splits if_splits)

lemma GetOnlineNodes_Nil [simp]: "GetOnlineNodes [] now r = []"
  by (simp add: GetOnlineNodes_def)

lemma GetOnlineNodes_Cons [simp]:
  "GetOnlineNodes (k # ks) now r =
     (case nodes r k of
        None \<Rightarrow> []
      | Some node \<Rightarrow> if now - an_LastSeen node \<le> 5 * minute then [node] else [])
     @ GetOnlineNodes ks now r"
  by (simp add: GetOnlineNodes_def)

lemma GetOnlineNodes_keys:
  "keyed r \<Longrightarrow> an_Pubkey ` set (GetOnlineNodes order now r) = set order \<inter> onlineKeys now r"
  by (induction order) (auto simp: onlineKeys_def keyed_def image_Un image_iff split: option.splits)

lemma GetOnlineNodes_distinct:
  assumes "keyed r" "distinct order"
  shows "distinct (map an_Pubkey (GetOnlineNodes order now r))"
  using assms(2)
proof (induction order)
  case Nil
  then show ?case by simp
next
  case (Cons k ks)
  have "k \<notin> an_Pubkey ` set (GetOnlineNodes ks now r)"
    using GetOnlineNodes_keys [OF assms(1)] Cons.prems by auto
  with Cons assms(1) show ?case by (auto simp: keyed_def split: option.splits)
qed

lemma GetOnlineNodes_all:
  "keyed r \<Longrightarrow> map_order order (nodes r) \<Longrightarrow>
     an_Pubkey ` set (GetOnlineNodes order now r) = onlineKeys now r"
  by (auto simp: GetOnlineNodes_keys map_order_def onlineKeys_def)

subsection \<open>Matching\<close>

lemma matchLoop_dom:
  "ns \<noteq> [] \<Longrightarrow> dom (snd (matchLoop h ns ms idx cnt asg)) \<subseteq> dom asg \<union> an_Pubkey ` set ns"
proof (induction ms arbitrary: idx cnt asg)
  case Nil
  then show ?case by simp
next
  case (Cons m ms)
  let ?d = "cleanDomain h (m_TargetURL m)"
  have "ns ! (idx ?d mod length ns) \<in> set ns" using Cons.prems by simp
  then have p: "insert (an_Pubkey (ns ! (idx ?d mod length ns))) (dom asg)
      \<subseteq> dom asg \<union> an_Pubkey ` set ns" by blast
  show ?case
  proof (cases "5 \<le> cnt ?d")
    case True
    with Cons show ?thesis by simp
  next
    case False
    with Cons.IH [OF Cons.prems] show ?thesis
      by (simp add: Let_def) (rule order_trans, assumption, use p in auto)
  qed
qed

lemma matchLoop_ran: "ran (snd (matchLoop h ns ms idx cnt asg)) \<subseteq> ran asg \<union> set ms"
proof (induction ms arbitrary: idx cnt asg)
  case Nil
  then show ?case by simp
next
  case (Cons m ms)
  have upd: "ran (asg(k \<mapsto> m)) \<subseteq> ran asg \<union> {m}" for k
    by (auto simp: ran_def)
  show ?case
    using Cons.IH upd by (simp add: Let_def) blast
qed

text \<open>Round robin within one domain: consecutive monitors go to consecutive nodes.\<close>

lemma matchLoop_round_robin:
  assumes "distinct (map an_Pubkey ns)" "ns \<noteq> []" "length ms \<le> length ns"
    "cnt d + length ms \<le> 5" "\<forall>m \<in> set ms. cleanDomain h (m_TargetURL m) = d" "i < length ms"
  shows "snd (matchLoop h ns ms idx cnt asg) (an_Pubkey (ns ! ((idx d + i) mod length ns))) =
    Some (ms ! i)"
proof -
  let ?n = "length ns"
  let ?key = "\<lambda>j. an_Pubkey (ns ! (j mod ?n))"
  have inj: "?key a = ?key b \<longleftrightarrow> a mod ?n = b mod ?n" for a b
    using assms(2) nth_eq_iff_index_eq [OF assms(1), of "a mod ?n" "b mod ?n"] by simp
  have keep: "snd (matchLoop h ns ms idx cnt asg) (?key j) = asg (?key j)"
    if "\<forall>i < length ms. j mod ?n \<noteq> (idx d + i) mod ?n"
      "cnt d + length ms \<le> 5" "\<forall>m \<in> set ms. cleanDomain h (m_TargetURL m) = d"
    for ms idx cnt asg j
    using that
  proof (induction ms arbitrary: idx cnt asg)
    case Nil
    then show ?case by simp
  next
    case (Cons m ms)
    have "j mod ?n \<noteq> idx d mod ?n" using Cons.prems(1) by force
    moreover have "\<forall>i < length ms. j mod ?n \<noteq> (Suc (idx d mod ?n) mod ?n + i) mod ?n"
      using Cons.prems(1) by (auto simp: mod_add_left_eq mod_Suc_eq)
    ultimately show ?case
      using Cons.IH Cons.prems(2,3) inj [of j "idx d"] by (simp add: Let_def)
  qed
  show ?thesis
    using assms(3-6)
  proof (induction ms arbitrary: idx cnt asg i)
    case Nil
    then show ?case by simp
  next
    case (Cons m ms)
    let ?idx = "idx(d := Suc (idx d mod ?n) mod ?n)"
    let ?cnt = "cnt(d := Suc (cnt d))"
    show ?case
    proof (cases i)
      case 0
      have "\<forall>i < length ms. idx d mod ?n \<noteq> (?idx d + i) mod ?n"
      proof (intro allI impI notI)
        fix i
        assume "i < length ms" "idx d mod ?n = (?idx d + i) mod ?n"
        then have "idx d mod ?n = (idx d + Suc i) mod ?n"
          by (simp add: mod_add_left_eq mod_Suc_eq)
        then have "?n dvd Suc i" by (metis add_diff_cancel_left' mod_eq_dvd_iff_nat le_add1)
        with \<open>i < length ms\<close> Cons.prems(1) show False by (auto dest: dvd_imp_le)
      qed
      then show ?thesis
        using keep [where j = "idx d"] Cons.prems 0 by (simp add: Let_def)
    next
      case (Suc j)
      have eq: "(?idx d + j) mod ?n = (idx d + i) mod ?n"
        by (simp add: Suc mod_add_left_eq mod_Suc_eq)
      have "snd (matchLoop h ns ms ?idx ?cnt a) (an_Pubkey (ns ! ((?idx d + j) mod ?n))) = Some (ms ! j)"
        for a
        by (rule Cons.IH) (use Cons.prems Suc in auto)
      then show ?thesis unfolding eq using Cons.prems Suc by (simp add: Let_def)
    qed
  qed
qed

text \<open>At most five assigned monitors share a domain.\<close>

definition of_domain :: "(string \<Rightarrow> string option) \<Rightarrow> string \<Rightarrow> (pubkey \<Rightarrow> Monitor option) \<Rightarrow> pubkey set" where
  "of_domain h d asg = {k. \<exists>m. asg k = Some m \<and> cleanDomain h (m_TargetURL m) = d}"

lemma of_domain_upd:
  "of_domain h d (asg(k \<mapsto> m)) \<subseteq>
     (if cleanDomain h (m_TargetURL m) = d then insert k (of_domain h d asg) else of_domain h d asg)"
  by (auto simp: of_domain_def split: if_splits)

lemma matchLoop_cap:
  assumes "\<forall>d. finite (of_domain h d asg) \<and> card (of_domain h d asg) \<le> cnt d \<and> cnt d \<le> 5"
  shows "card (of_domain h d (snd (matchLoop h ns ms idx cnt asg))) \<le> 5"
  using assms
proof (induction ms arbitrary: idx cnt asg)
  case Nil
  then show ?case by simp (metis le_trans)
next
  case (Cons m ms)
  let ?d = "cleanDomain h (m_TargetURL m)"
  show ?case
  proof (cases "5 \<le> cnt ?d")
    case True
    with Cons show ?thesis by simp
  next
    case False
    have "finite (of_domain h e (asg(k \<mapsto> m)))
        \<and> card (of_domain h e (asg(k \<mapsto> m))) \<le> (cnt(?d := Suc (cnt ?d))) e
        \<and> (cnt(?d := Suc (cnt ?d))) e \<le> 5" for e k
    proof -
      let ?S = "if ?d = e then insert k (of_domain h e asg) else of_domain h e asg"
      have fin: "finite ?S" using Cons.prems by simp
      have sub: "of_domain h e (asg(k \<mapsto> m)) \<subseteq> ?S" by (rule of_domain_upd)
      have "card ?S \<le> (cnt(?d := Suc (cnt ?d))) e"
        using Cons.prems by (auto simp: card_insert_if le_SucI)
      moreover have "(cnt(?d := Suc (cnt ?d))) e \<le> 5" using False Cons.prems by auto
      ultimately show ?thesis
        using finite_subset [OF sub fin] card_mono [OF fin sub] by linarith
    qed
    note step = this
    show ?thesis
      using False by (simp add: Let_def) (rule Cons.IH, use step in blast)
  qed
qed

lemma card_ran_le:
  assumes "finite A" "dom f \<subseteq> A"
  shows "card (ran f) \<le> card A"
proof -
  have "ran f \<subseteq> (the \<circ> f) ` A" using assms(2) by (force simp: ran_def image_iff)
  then show ?thesis by (meson assms(1) card_image_le card_mono finite_imageI le_trans)
qed

lemmas MatchBatch_cases = MatchBatch_def Let_def

lemma MatchBatch_bounds:
  assumes "keyed r" and "map_order order (nodes r)"
  shows "dom (snd (MatchBatch h order now r idx monitors)) \<subseteq> onlineKeys now r
    \<and> ran (snd (MatchBatch h order now r idx monitors)) \<subseteq> set monitors
    \<and> card (ran (snd (MatchBatch h order now r idx monitors))) \<le> card (onlineKeys now r)"
proof -
  let ?ns = "GetOnlineNodes order now r"
  let ?asg = "snd (MatchBatch h order now r idx monitors)"
  note keys = GetOnlineNodes_all [OF assms]
  have fin: "finite (onlineKeys now r)" by (simp flip: keys)
  have dom: "dom ?asg \<subseteq> onlineKeys now r"
    using matchLoop_dom [of ?ns h monitors idx "\<lambda>_. 0" Map.empty]
    by (auto simp: MatchBatch_cases simp flip: keys)
  have ran: "ran ?asg \<subseteq> set monitors"
    using matchLoop_ran [of h ?ns monitors idx "\<lambda>_. 0" Map.empty] by (auto simp: MatchBatch_cases)
  from dom ran card_ran_le [OF fin dom] show ?thesis by blast
qed

subsection \<open>Properties\<close>

text \<open>
  The registry is exact: whatever heartbeats and eviction ticks happened, in any order, a node
  is online now exactly when its last heartbeat is at most five minutes old.
\<close>
theorem registry_online_exact:
  assumes "\<forall>e \<in> set es. event_time e \<le> now"
  shows "k \<in> onlineKeys now
      (registry_run (\<lambda>t k (email, lat, lon). TrackHeartbeat t k email lat lon) evictTick es NewMemoryRegistry)
    \<longleftrightarrow> (\<exists>u. last_beat k es None = Some u \<and> now - u \<le> 5 * minute)"
  using assms by (rule registry.online_run)

theorem registry_online_exact_witness:
  "''a'' \<in> onlineKeys (6 * minute)
      (registry_run (\<lambda>t k (email, lat, lon). TrackHeartbeat t k email lat lon) evictTick
        [Beat 0 ''a'' (''e'', 0, 0), Beat 0 ''b'' (''e'', 0, 0), Beat (2 * minute) ''a'' (''e'', 0, 0),
         Evict (6 * minute)] NewMemoryRegistry)
   \<and> ''b'' \<notin> onlineKeys (6 * minute)
      (registry_run (\<lambda>t k (email, lat, lon). TrackHeartbeat t k email lat lon) evictTick
        [Beat 0 ''a'' (''e'', 0, 0), Beat 0 ''b'' (''e'', 0, 0), Beat (2 * minute) ''a'' (''e'', 0, 0),
         Evict (6 * minute)] NewMemoryRegistry)"
  by (subst (1 2) registry_online_exact) simp_all

text \<open>
  C15. What a batch may assign: only nodes that are online get a monitor, only one of the batch, and at most five nodes
  probe monitors of one domain; with nobody online, nothing is assigned.
\<close>
theorem MatchBatch_sound:
  assumes "keyed r" and "map_order order (nodes r)"
  shows "dom (snd (MatchBatch h order now r idx monitors)) \<subseteq> onlineKeys now r
    \<and> ran (snd (MatchBatch h order now r idx monitors)) \<subseteq> set monitors
    \<and> card (of_domain h d (snd (MatchBatch h order now r idx monitors))) \<le> 5
    \<and> (onlineKeys now r = {} \<longrightarrow> snd (MatchBatch h order now r idx monitors) = Map.empty)"
proof -
  have "card (of_domain h d (snd (MatchBatch h order now r idx monitors))) \<le> 5"
    using matchLoop_cap [of h Map.empty "\<lambda>_. 0" d "GetOnlineNodes order now r" monitors idx]
    by (auto simp: MatchBatch_cases of_domain_def)
  with MatchBatch_bounds [OF assms] show ?thesis by (metis dom_eq_empty_conv subset_empty)
qed

definition demo_host :: "string \<Rightarrow> string option" where
  "demo_host u = Some u"

definition demo_monitor :: "string \<Rightarrow> string \<Rightarrow> Monitor" where
  "demo_monitor i u = \<lparr>m_ID = i, m_OwnerID = 1, m_TargetURL = u, m_CheckIntervalSeconds = 60,
     m_TotalSpentTokens = 0, m_IsActive = True, m_CreatedAt = 0\<rparr>"

definition demo_registry :: "pubkey list \<Rightarrow> MemoryRegistry" where
  "demo_registry ks = fold (\<lambda>k. TrackHeartbeat 0 k ''e'' 0 0) ks NewMemoryRegistry"

lemma demo_registry_ok:
  "keyed (demo_registry [''a'']) \<and> map_order [''a''] (nodes (demo_registry [''a'']))"
  "keyed (demo_registry [''a'', ''b'']) \<and> map_order [''b'', ''a''] (nodes (demo_registry [''a'', ''b'']))"
  by (auto simp: demo_registry_def keyed_def map_order_def TrackHeartbeat_def NewMemoryRegistry_def
      split: if_splits)

theorem MatchBatch_sound_witness:
  "dom (snd (MatchBatch demo_host [''a''] 0 (demo_registry [''a'']) (\<lambda>_. 0)
      [demo_monitor ''m1'' ''x'', demo_monitor ''m2'' ''y''])) \<subseteq> onlineKeys 0 (demo_registry [''a''])
   \<and> snd (MatchBatch demo_host [''a''] 0 (demo_registry [''a'']) (\<lambda>_. 0)
      [demo_monitor ''m1'' ''x'', demo_monitor ''m2'' ''y'']) ''a'' = Some (demo_monitor ''m2'' ''y'')"
proof -
  have 1: "dom (snd (MatchBatch demo_host [''a''] 0 (demo_registry [''a'']) (\<lambda>_. 0)
      [demo_monitor ''m1'' ''x'', demo_monitor ''m2'' ''y''])) \<subseteq> onlineKeys 0 (demo_registry [''a''])"
    using MatchBatch_sound [of "demo_registry [''a'']" "[''a'']"] demo_registry_ok(1) by blast
  have 2: "snd (MatchBatch demo_host [''a''] 0 (demo_registry [''a'']) (\<lambda>_. 0)
      [demo_monitor ''m1'' ''x'', demo_monitor ''m2'' ''y'']) ''a'' = Some (demo_monitor ''m2'' ''y'')"
    by (simp add: MatchBatch_def Let_def demo_registry_def TrackHeartbeat_def NewMemoryRegistry_def)
  from 1 2 show ?thesis by blast
qed

text \<open>
  Round robin: a batch of at most five monitors of one domain, no more than there are nodes
  online, is assigned completely, the i-th monitor to the i-th node after the domain's cursor.
\<close>
theorem MatchBatch_round_robin:
  assumes "keyed r" and "map_order order (nodes r)"
    and "length monitors \<le> 5" and "length monitors \<le> length (GetOnlineNodes order now r)"
    and "\<forall>m \<in> set monitors. cleanDomain h (m_TargetURL m) = d"
    and "i < length monitors"
  shows "snd (MatchBatch h order now r idx monitors)
      (an_Pubkey (GetOnlineNodes order now r ! ((idx d + i) mod length (GetOnlineNodes order now r))))
    = Some (monitors ! i)"
proof -
  let ?ns = "GetOnlineNodes order now r"
  have d: "distinct (map an_Pubkey ?ns)"
    using GetOnlineNodes_distinct assms(1,2) by (auto simp: map_order_def)
  have ne: "?ns \<noteq> []" using assms(4,6) by auto
  from matchLoop_round_robin [OF d ne assms(4), of "\<lambda>_. 0" d h i idx Map.empty] assms(3,5,6) ne
  show ?thesis by (simp add: MatchBatch_cases)
qed

theorem MatchBatch_round_robin_witness:
  "snd (MatchBatch demo_host [''b'', ''a''] 0 (demo_registry [''a'', ''b'']) (\<lambda>_. 1)
      [demo_monitor ''m1'' ''x'', demo_monitor ''m2'' ''x'']) ''b'' = Some (demo_monitor ''m2'' ''x'')"
proof -
  have ns: "GetOnlineNodes [''b'', ''a''] 0 (demo_registry [''a'', ''b'']) =
      [\<lparr>an_Pubkey = ''b'', an_Email = ''e'', an_Latitude = 0, an_Longitude = 0, an_LastSeen = 0\<rparr>,
       \<lparr>an_Pubkey = ''a'', an_Email = ''e'', an_Latitude = 0, an_Longitude = 0, an_LastSeen = 0\<rparr>]"
    by (simp add: demo_registry_def TrackHeartbeat_def NewMemoryRegistry_def)
  have same: "\<forall>m \<in> set [demo_monitor ''m1'' ''x'', demo_monitor ''m2'' ''x''].
      cleanDomain demo_host (m_TargetURL m) = cleanDomain demo_host ''x''"
    by (simp add: demo_monitor_def)
  from MatchBatch_round_robin [OF conjunct1 [OF demo_registry_ok(2)] conjunct2 [OF demo_registry_ok(2)],
      of "[demo_monitor ''m1'' ''x'', demo_monitor ''m2'' ''x'']" 0 demo_host _ 1 "\<lambda>_. 1",
      OF _ _ same]
  show ?thesis by (simp add: ns del: GetOnlineNodes_Cons)
qed

text \<open>
  A batch with more monitors than nodes online leaves some monitor unassigned, since a node
  that is picked again overwrites its earlier assignment: a node never receives two monitors in
  one tick.
\<close>
theorem MatchBatch_overwrites:
  assumes "keyed r" and "map_order order (nodes r)"
    and "card (onlineKeys now r) < card (set monitors)"
  shows "\<exists>m. m \<in> set monitors \<and> m \<notin> ran (snd (MatchBatch h order now r idx monitors))"
proof (rule ccontr)
  assume "\<not> ?thesis"
  then have "set monitors \<subseteq> ran (snd (MatchBatch h order now r idx monitors))" by blast
  with MatchBatch_bounds [OF assms(1,2), of h now idx monitors] assms(3)
  show False by (metis linorder_not_less subset_antisym)
qed

theorem MatchBatch_overwrites_witness:
  "card (onlineKeys 0 (demo_registry [''a''])) = 1
   \<and> (\<exists>m. m \<in> set [demo_monitor ''m1'' ''x'', demo_monitor ''m2'' ''y'']
        \<and> m \<notin> ran (snd (MatchBatch demo_host [''a''] 0 (demo_registry [''a'']) (\<lambda>_. 0)
              [demo_monitor ''m1'' ''x'', demo_monitor ''m2'' ''y''])))"
proof -
  have 1: "onlineKeys 0 (demo_registry [''a'']) = {''a''}"
    by (auto simp: onlineKeys_def demo_registry_def TrackHeartbeat_def NewMemoryRegistry_def split: if_splits)
  have 2: "card (set [demo_monitor ''m1'' ''x'', demo_monitor ''m2'' ''y'']) = 2"
    by (simp add: demo_monitor_def)
  from MatchBatch_overwrites [OF conjunct1 [OF demo_registry_ok(1)] conjunct2 [OF demo_registry_ok(1)],
      of 0 "[demo_monitor ''m1'' ''x'', demo_monitor ''m2'' ''y'']" demo_host "\<lambda>_. 0"] 1 2
  show ?thesis by simp
qed

subsection \<open>The matching as a closed formula\<close>

text \<open>
  The reference: the monitor at position \<open>j\<close> goes to the node its domain's cursor points at after
  one move for each earlier monitor of the domain, unless five of them came before it.
\<close>

definition earlier :: "(string \<Rightarrow> string option) \<Rightarrow> string \<Rightarrow> Monitor list \<Rightarrow> nat" where
  "earlier h d ms = length [m \<leftarrow> ms. cleanDomain h (m_TargetURL m) = d]"

definition chosen ::
  "(string \<Rightarrow> string option) \<Rightarrow> ActiveNode list \<Rightarrow> cursors \<Rightarrow> (string \<Rightarrow> nat) \<Rightarrow> Monitor list \<Rightarrow>
   nat \<Rightarrow> pubkey option" where
  "chosen h ns idx cnt ms j =
     (let d = cleanDomain h (m_TargetURL (ms ! j)); i = earlier h d (take j ms)
      in if cnt d + i < 5 then Some (an_Pubkey (ns ! ((idx d + i) mod length ns))) else None)"

text \<open>A node keeps the last monitor that goes to it.\<close>

definition last_chosen ::
  "(nat \<Rightarrow> pubkey option) \<Rightarrow> Monitor list \<Rightarrow> pubkey \<Rightarrow> Monitor option \<Rightarrow> Monitor option" where
  "last_chosen c ms k old =
     (case [j \<leftarrow> [0..<length ms]. c j = Some k] of [] \<Rightarrow> old | js \<Rightarrow> Some (ms ! last js))"

lemma earlier_simps [simp]:
  "earlier h d [] = 0"
  "earlier h d (m # ms) = (if cleanDomain h (m_TargetURL m) = d then 1 else 0) + earlier h d ms"
  by (simp_all add: earlier_def)

lemma last_chosen_Cons:
  "last_chosen c (m # ms) k old =
     last_chosen (\<lambda>j. c (Suc j)) ms k (if c 0 = Some k then Some m else old)"
proof -
  have up: "[0..<length (m # ms)] = 0 # map Suc [0..<length ms]"
    by (simp add: map_Suc_upt upt_conv_Cons del: upt_Suc)
  have "[j \<leftarrow> map Suc [0..<length ms]. c j = Some k]
      = map Suc [j \<leftarrow> [0..<length ms]. c (Suc j) = Some k]"
    by (simp add: filter_map o_def)
  then show ?thesis
    unfolding last_chosen_def up by (auto split: list.splits simp: last_map)
qed

lemma chosen_0:
  "chosen h ns idx cnt (m # ms) 0 =
    (let d = cleanDomain h (m_TargetURL m)
     in if 5 \<le> cnt d then None else Some (an_Pubkey (ns ! (idx d mod length ns))))"
  by (simp add: chosen_def Let_def)

lemma chosen_Suc:
  assumes "d = cleanDomain h (m_TargetURL m)"
  shows "chosen h ns idx cnt (m # ms) (Suc j) =
    (if 5 \<le> cnt d then chosen h ns idx cnt ms j
     else chosen h ns (idx(d := Suc (idx d mod length ns) mod length ns)) (cnt(d := Suc (cnt d))) ms j)"
  using assms by (auto simp: chosen_def Let_def mod_add_left_eq mod_Suc_eq)

lemma matchLoop_exact:
  "snd (matchLoop h ns ms idx cnt asg) k = last_chosen (chosen h ns idx cnt ms) ms k (asg k)"
proof (induction ms arbitrary: idx cnt asg)
  case Nil
  then show ?case by (simp add: last_chosen_def)
next
  case (Cons m ms)
  then show ?case
    by (cases "5 \<le> cnt (cleanDomain h (m_TargetURL m))")
      (simp_all add: Let_def last_chosen_Cons chosen_0 chosen_Suc [OF refl] fun_upd_def)
qed

lemma matchLoop_cursor:
  assumes "cnt d \<le> 5"
  shows "fst (matchLoop h ns ms idx cnt asg) d =
    (let i = min (5 - cnt d) (earlier h d ms)
     in if i = 0 then idx d else (idx d + i) mod length ns)"
  using assms
proof (induction ms arbitrary: idx cnt asg)
  case Nil
  then show ?case by simp
next
  case (Cons m ms)
  let ?e = "cleanDomain h (m_TargetURL m)"
  show ?case
  proof (cases "5 \<le> cnt ?e \<or> ?e \<noteq> d")
    case True
    with Cons show ?thesis by (auto simp: Let_def)
  next
    case False
    then obtain i where i: "min (5 - cnt d) (1 + earlier h d ms) = Suc i"
      "min (5 - Suc (cnt d)) (earlier h d ms) = i"
      by (cases "5 - cnt d") auto
    with False Cons show ?thesis
      by (simp add: Let_def) (auto simp: mod_add_left_eq mod_Suc_eq)
  qed
qed

text \<open>
  C14. The matching computes a closed formula. With somebody online a node gets the last of the batch's
  monitors that go to it, where a monitor goes to the node at its domain's cursor plus the number of
  the domain's earlier monitors, modulo the number of nodes, and a sixth monitor of a domain goes
  nowhere; each cursor has moved on by the number of the domain's monitors, five at most. With nobody
  online nothing is assigned and no cursor moves.
\<close>
theorem MatchBatch_exact:
  "MatchBatch h order now r idx monitors =
    (let ns = GetOnlineNodes order now r
     in if ns = [] then (idx, Map.empty)
        else (\<lambda>d. let i = min 5 (earlier h d monitors)
                  in if i = 0 then idx d else (idx d + i) mod length ns,
              \<lambda>k. last_chosen (chosen h ns idx (\<lambda>_. 0) monitors) monitors k None))"
  by (auto simp: MatchBatch_cases prod_eq_iff matchLoop_exact matchLoop_cursor fun_eq_iff)

end
