(* ===== verification/Broker.thy ===== *)
theory Broker
  imports Wire
begin

text \<open>
  The message broker as the program sees it: the connection of \<^verbatim>\<open>amqp091-go\<close>, the publisher
  \<^verbatim>\<open>schedulerAMQP\<close> of \<^verbatim>\<open>workers/schedular.go\<close>, \<^verbatim>\<open>GetHealthyChannel\<close> of \<^verbatim>\<open>grpc/server.go\<close> and the topology
  that \<^verbatim>\<open>declareQueues\<close> of \<^verbatim>\<open>app/application.go\<close> sets up. The library and the server are not part of
  the repository: what a call on them does is a parameter, a \<^typ>\<open>fate\<close> per publish and a truth value
  per attempt to open a channel. The program publishes without confirms, so the model records what
  was written to the connection, in order.
\<close>

subsection \<open>Connection and channels\<close>

record message =
  msg_exchange :: string
  msg_key :: string
  msg_body :: json

record connection =
  opened :: nat
  sent :: "message list"

definition amqp_open :: "bool \<Rightarrow> connection \<Rightarrow> connection \<times> nat option" where
  "amqp_open ok c = (if ok then (c\<lparr>opened := Suc (opened c)\<rparr>, Some (opened c)) else (c, None))"

definition amqp_publish :: "fate \<Rightarrow> message \<Rightarrow> connection \<Rightarrow> connection \<times> unit option" where
  "amqp_publish f m = remote f (\<lambda>c. (c\<lparr>sent := sent c @ [m]\<rparr>, ()))"

subsection \<open>schedulerAMQP\<close>

record schedulerAMQP =
  sa_conn :: connection
  sa_ch :: "nat option"

definition reopen :: "bool \<Rightarrow> schedulerAMQP \<Rightarrow> schedulerAMQP \<times> unit option" where
  "reopen ok s =
     (case amqp_open ok (sa_conn s) of
        (c, None) \<Rightarrow> (s\<lparr>sa_conn := c\<rparr>, None)
      | (c, Some ch) \<Rightarrow> (s\<lparr>sa_conn := c, sa_ch := Some ch\<rparr>, Some ()))"

definition newSchedulerAMQP :: "bool \<Rightarrow> connection \<Rightarrow> schedulerAMQP \<times> unit option" where
  "newSchedulerAMQP ok conn = reopen ok \<lparr>sa_conn = conn, sa_ch = None\<rparr>"

text \<open>What happens to the two attempts of a publish.\<close>

record publish_env =
  pe_first :: fate
  pe_reopen :: bool
  pe_second :: fate

definition try_publish :: "fate \<Rightarrow> message \<Rightarrow> schedulerAMQP \<Rightarrow> schedulerAMQP \<times> unit option" where
  "try_publish f m s = (let (c, r) = amqp_publish f m (sa_conn s) in (s\<lparr>sa_conn := c\<rparr>, r))"

definition publish ::
  "publish_env \<Rightarrow> string \<Rightarrow> json \<Rightarrow> schedulerAMQP \<Rightarrow> schedulerAMQP \<times> unit option" where
  "publish pe queue body s =
     (let m = \<lparr>msg_exchange = [], msg_key = queue, msg_body = body\<rparr>
      in case try_publish (pe_first pe) m s of
           (s1, Some _) \<Rightarrow> (s1, Some ())
         | (s1, None) \<Rightarrow>
             (case reopen (pe_reopen pe) s1 of
                (s2, None) \<Rightarrow> (s2, None)
              | (s2, Some _) \<Rightarrow> try_publish (pe_second pe) m s2))"

subsection \<open>GetHealthyChannel\<close>

text \<open>The shared channel is absent, or a number with a flag that tells whether it is closed.\<close>

type_synonym shared_channel = "(nat \<times> bool) option"

definition GetHealthyChannel ::
  "bool \<Rightarrow> shared_channel \<Rightarrow> connection \<Rightarrow> (shared_channel \<times> connection) \<times> nat option" where
  "GetHealthyChannel ok rabbitCh conn =
     (case rabbitCh of
        Some (ch, False) \<Rightarrow> ((rabbitCh, conn), Some ch)
      | _ \<Rightarrow>
          (case amqp_open ok conn of
             (conn', None) \<Rightarrow> ((rabbitCh, conn'), None)
           | (conn', Some ch) \<Rightarrow> ((Some (ch, False), conn'), Some ch)))"

subsection \<open>Topology\<close>

record topology =
  tp_queues :: "string list"
  tp_fanouts :: "string list"
  tp_bindings :: "(string \<times> string) list"

definition QueueDeclare :: "string \<Rightarrow> topology \<Rightarrow> topology" where
  "QueueDeclare q t = t\<lparr>tp_queues := (if q \<in> set (tp_queues t) then tp_queues t else tp_queues t @ [q])\<rparr>"

definition ExchangeDeclare :: "string \<Rightarrow> topology \<Rightarrow> topology" where
  "ExchangeDeclare e t = t\<lparr>tp_fanouts := (if e \<in> set (tp_fanouts t) then tp_fanouts t else tp_fanouts t @ [e])\<rparr>"

definition QueueBind :: "string \<Rightarrow> string \<Rightarrow> topology \<Rightarrow> topology" where
  "QueueBind q e t =
     t\<lparr>tp_bindings := (if (q, e) \<in> set (tp_bindings t) then tp_bindings t else tp_bindings t @ [(q, e)])\<rparr>"

definition declareQueues :: "topology \<Rightarrow> topology" where
  "declareQueues t =
     fold (\<lambda>q. QueueBind q ''monitor_updates'') [''processing_queue'', ''telegram_queue'']
       (ExchangeDeclare ''monitor_updates''
         (fold QueueDeclare
           [''job_queue'', ''processing_queue'', ''solana_sync_queue'', ''telegram_queue''] t))"

text \<open>
  Where a message goes: through the default exchange to the queue its key names, through a fanout
  exchange to every queue bound to it.
\<close>

definition routed :: "topology \<Rightarrow> message \<Rightarrow> string list" where
  "routed t m =
     (if msg_exchange m = [] then filter (\<lambda>q. q = msg_key m) (tp_queues t)
      else if msg_exchange m \<in> set (tp_fanouts t)
      then filter (\<lambda>q. (q, msg_exchange m) \<in> set (tp_bindings t)) (tp_queues t)
      else [])"

definition queue_content :: "topology \<Rightarrow> connection \<Rightarrow> string \<Rightarrow> json list" where
  "queue_content t c q = map msg_body (filter (\<lambda>m. q \<in> set (routed t m)) (sent c))"

lemma QueueDeclare_sets:
  "set (tp_queues (QueueDeclare q t)) = insert q (set (tp_queues t))"
  "tp_fanouts (QueueDeclare q t) = tp_fanouts t"
  "tp_bindings (QueueDeclare q t) = tp_bindings t"
  "q \<in> set (tp_queues t) \<Longrightarrow> QueueDeclare q t = t"
  by (auto simp: QueueDeclare_def)

lemma ExchangeDeclare_sets:
  "tp_queues (ExchangeDeclare e t) = tp_queues t"
  "set (tp_fanouts (ExchangeDeclare e t)) = insert e (set (tp_fanouts t))"
  "tp_bindings (ExchangeDeclare e t) = tp_bindings t"
  "e \<in> set (tp_fanouts t) \<Longrightarrow> ExchangeDeclare e t = t"
  by (auto simp: ExchangeDeclare_def)

lemma QueueBind_sets:
  "tp_queues (QueueBind q e t) = tp_queues t"
  "tp_fanouts (QueueBind q e t) = tp_fanouts t"
  "set (tp_bindings (QueueBind q e t)) = insert (q, e) (set (tp_bindings t))"
  "(q, e) \<in> set (tp_bindings t) \<Longrightarrow> QueueBind q e t = t"
  by (auto simp: QueueBind_def)

lemmas topology_simps = QueueDeclare_sets ExchangeDeclare_sets QueueBind_sets

subsection \<open>Publishing\<close>

lemma try_publish_sent:
  "try_publish f m s = (s', r) \<Longrightarrow>
     sent (sa_conn s') = sent (sa_conn s) @ (if f = RequestLost then [] else [m])
     \<and> (r = Some () \<longleftrightarrow> f = Delivered) \<and> (r = None \<longleftrightarrow> f \<noteq> Delivered)"
  by (cases f) (auto simp: try_publish_def amqp_publish_def)

lemma try_publish_simps [simp]:
  "try_publish Delivered m s = (s\<lparr>sa_conn := (sa_conn s)\<lparr>sent := sent (sa_conn s) @ [m]\<rparr>\<rparr>, Some ())"
  "try_publish RequestLost m s = (s, None)"
  "try_publish ReplyLost m s = (s\<lparr>sa_conn := (sa_conn s)\<lparr>sent := sent (sa_conn s) @ [m]\<rparr>\<rparr>, None)"
  by (simp_all add: try_publish_def amqp_publish_def)

lemma reopen_True: "reopen True s \<noteq> (s', None)"
  by (simp add: reopen_def amqp_open_def)

lemma publish_second:
  "pe_first pe \<noteq> Delivered \<Longrightarrow> pe_reopen pe \<Longrightarrow> pe_second pe = Delivered \<Longrightarrow>
     snd (publish pe q body s) = Some ()"
  using reopen_True by (cases "pe_first pe") (auto simp: publish_def Let_def split: prod.splits option.splits)

lemma reopen_sent [simp]: "reopen ok s = (s', r) \<Longrightarrow> sent (sa_conn s') = sent (sa_conn s)"
  by (auto simp: reopen_def amqp_open_def split: if_splits)

lemma publish_sent:
  assumes "publish pe q body s = (s', r)"
  shows "\<exists>n. sent (sa_conn s') = sent (sa_conn s) @ replicate n \<lparr>msg_exchange = [], msg_key = q, msg_body = body\<rparr>
    \<and> n \<le> 2 \<and> (r = Some () \<longrightarrow> 1 \<le> n)"
proof -
  let ?m = "\<lparr>msg_exchange = [], msg_key = q, msg_body = body\<rparr>"
  obtain s1 r1 where 1: "try_publish (pe_first pe) ?m s = (s1, r1)" by fastforce
  note s1 = try_publish_sent [OF 1]
  show ?thesis
  proof (cases r1)
    case (Some u)
    then have "s' = s1" "pe_first pe = Delivered" using assms 1 s1 by (auto simp: publish_def)
    then show ?thesis using s1 by (intro exI [of _ 1]) simp
  next
    case None
    obtain s2 r2 where 2: "reopen (pe_reopen pe) s1 = (s2, r2)" by fastforce
    show ?thesis
    proof (cases r2)
      case None
      then have "s' = s2" "r = None" using assms 1 2 \<open>r1 = None\<close> by (auto simp: publish_def)
      then show ?thesis
        using s1 reopen_sent [OF 2] by (intro exI [of _ "if pe_first pe = RequestLost then 0 else 1"]) simp
    next
      case (Some u)
      then have 3: "try_publish (pe_second pe) ?m s2 = (s', r)"
        using assms 1 2 \<open>r1 = None\<close> by (auto simp: publish_def)
      from s1 reopen_sent [OF 2] try_publish_sent [OF 3] show ?thesis
        by (intro exI [of _ "(if pe_first pe = RequestLost then 0 else 1)
              + (if pe_second pe = RequestLost then 0 else (1 :: nat))"])
           (auto simp: numeral_2_eq_2)
    qed
  qed
qed

subsection \<open>Properties\<close>

text \<open>
  Publishing is at least once and at most twice: whatever happens to the connection, a publish
  sends nothing but its own message, no more than twice, and reports success only when it was sent;
  if the first attempt succeeds it is sent exactly once.
\<close>
theorem publish_at_least_once:
  assumes "publish pe q body s = (s', r)"
  shows "(\<exists>n \<le> 2. sent (sa_conn s') = sent (sa_conn s)
        @ replicate n \<lparr>msg_exchange = [], msg_key = q, msg_body = body\<rparr> \<and> (r = Some () \<longrightarrow> 1 \<le> n))
    \<and> (pe_first pe = Delivered \<longrightarrow> r = Some ()
        \<and> sent (sa_conn s') = sent (sa_conn s) @ [\<lparr>msg_exchange = [], msg_key = q, msg_body = body\<rparr>])"
proof
  show "\<exists>n \<le> 2. sent (sa_conn s') = sent (sa_conn s)
        @ replicate n \<lparr>msg_exchange = [], msg_key = q, msg_body = body\<rparr> \<and> (r = Some () \<longrightarrow> 1 \<le> n)"
    using publish_sent [OF assms] by blast
  show "pe_first pe = Delivered \<longrightarrow> r = Some ()
      \<and> sent (sa_conn s') = sent (sa_conn s) @ [\<lparr>msg_exchange = [], msg_key = q, msg_body = body\<rparr>]"
    using assms by (auto simp: publish_def try_publish_def amqp_publish_def)
qed

definition idle_amqp :: schedulerAMQP where
  "idle_amqp = \<lparr>sa_conn = \<lparr>opened = 1, sent = []\<rparr>, sa_ch = Some 0\<rparr>"

theorem publish_at_least_once_witness:
  "\<exists>s'. publish \<lparr>pe_first = ReplyLost, pe_reopen = True, pe_second = Delivered\<rparr> ''job_queue'' JNull idle_amqp
      = (s', Some ())
    \<and> (\<exists>n \<le> 2. sent (sa_conn s') = replicate n \<lparr>msg_exchange = [], msg_key = ''job_queue'', msg_body = JNull\<rparr>
         \<and> 1 \<le> n)"
proof -
  let ?pe = "\<lparr>pe_first = ReplyLost, pe_reopen = True, pe_second = Delivered\<rparr>"
  obtain s' r where p: "publish ?pe ''job_queue'' JNull idle_amqp = (s', r)"
    by (rule prod.exhaust)
  from publish_second [of ?pe "''job_queue''" JNull idle_amqp] have "r = Some ()" by (simp add: p)
  moreover have "sent (sa_conn idle_amqp) = []" by (simp add: idle_amqp_def)
  moreover note conjunct1 [OF publish_at_least_once [OF p]]
  ultimately have "\<exists>n \<le> 2. sent (sa_conn s')
      = replicate n \<lparr>msg_exchange = [], msg_key = ''job_queue'', msg_body = JNull\<rparr> \<and> 1 \<le> n"
    by simp
  with p \<open>r = Some ()\<close> show ?thesis by (intro exI [of _ s'] conjI) simp_all
qed

text \<open>
  The topology: after \<^const>\<open>declareQueues\<close>, on any earlier state, a result published to the
  exchange reaches both the processing and the notification queue, and a job published to the default
  exchange reaches the job queue; declaring twice changes nothing.
\<close>
theorem topology_routes:
  "''processing_queue'' \<in> set (routed (declareQueues t) \<lparr>msg_exchange = ''monitor_updates'', msg_key = [], msg_body = b\<rparr>)
   \<and> ''telegram_queue'' \<in> set (routed (declareQueues t) \<lparr>msg_exchange = ''monitor_updates'', msg_key = [], msg_body = b\<rparr>)
   \<and> ''job_queue'' \<in> set (routed (declareQueues t) \<lparr>msg_exchange = [], msg_key = ''job_queue'', msg_body = b\<rparr>)
   \<and> declareQueues (declareQueues t) = declareQueues t"
  by (simp add: declareQueues_def routed_def topology_simps)

end
