(* ===== verification/Scheduler.thy ===== *)
theory Scheduler
  imports Validator Registry Store Broker
begin

text \<open>
  The scheduler of \<^verbatim>\<open>workers/schedular.go\<close>: one tick takes the due monitors from the sorted set
  \<^verbatim>\<open>scheduler:due\<close>, drops those that are gone, matches the others to online nodes, reschedules them and
  publishes a job with a fresh nonce for each; and \<^verbatim>\<open>SyncSchedulerState\<close> of
  \<^verbatim>\<open>services/schedular_sync.go\<close>, which seeds the set, as does \<^verbatim>\<open>BootstrapScheduler\<close> of
  \<^verbatim>\<open>app/application.go\<close>. The fate of every request, the nonces drawn and the order in which Go ranges over the
  assignments are parameters.
\<close>

subsection \<open>Keys\<close>

definition due_key :: string where
  "due_key = ''scheduler:due''"

definition sched_prefix :: string where
  "sched_prefix = ''sched:monitor:''"

definition sched_member :: "string \<Rightarrow> string" where
  "sched_member i = sched_prefix @ i"

lemma sched_member_inject [simp]: "sched_member a = sched_member b \<longleftrightarrow> a = b"
  by (simp add: sched_member_def)

lemma trim_sched_member [simp]: "trim_prefix sched_prefix (sched_member i) = i"
  by (simp add: sched_member_def)

subsection \<open>One tick\<close>

text \<open>What one dispatch meets: the nonce it draws, the fates of its requests and the server's time.\<close>

record dispatch_env =
  de_nonce :: string
  de_zadd :: fate
  de_set :: fate
  de_time :: instant
  de_publish :: publish_env

record 's tick_state =
  ts_rdb :: 's
  ts_cursors :: cursors
  ts_amqp :: schedulerAMQP

definition job_id :: "string \<Rightarrow> pubkey \<Rightarrow> int \<Rightarrow> string" where
  "job_id i pubkey now = i @ '':'' @ pubkey @ '':'' @ show_int now"

definition nonceTTL :: "int \<Rightarrow> duration" where
  "nonceTTL interval =
     (let ttl = interval * 2 * second in if ttl < 15 * minute then 15 * minute else ttl)"

definition job_payload :: "int \<Rightarrow> string \<Rightarrow> pubkey \<Rightarrow> Monitor \<Rightarrow> JobPayload" where
  "job_payload now nonce pubkey m =
     \<lparr>jp_JobID = job_id (m_ID m) pubkey now, jp_MonitorID = m_ID m, jp_TargetURL = m_TargetURL m,
      jp_RunnerPubkey = pubkey, jp_TaskNonce = nonce, jp_IssuedAt = now,
      jp_ExpiresAt = now + m_CheckIntervalSeconds m * 2\<rparr>"

definition dispatch ::
  "'s redis \<Rightarrow> int \<Rightarrow> dispatch_env \<Rightarrow> pubkey \<Rightarrow> Monitor \<Rightarrow> 's tick_state \<Rightarrow> 's tick_state" where
  "dispatch R now de pubkey m st =
     (let rdb1 = fst (remote (de_zadd de)
                   (\<lambda>s. (rZADD R due_key (now + m_CheckIntervalSeconds m) (sched_member (m_ID m)) s, ()))
                   (ts_rdb st));
          rdb2 = fst (remote (de_set de)
                   (\<lambda>s. (rSET R (de_time de) (nonce_key (de_nonce de)) (Str ''1'')
                           (nonceTTL (m_CheckIntervalSeconds m)) s, ())) rdb1);
          body = encode_JobPayload (job_payload now (de_nonce de) pubkey m)
      in st\<lparr>ts_rdb := rdb2, ts_amqp := fst (publish (de_publish de) ''job_queue'' body (ts_amqp st))\<rparr>)"

text \<open>The loop over the assignments, in the order Go ranges over them.\<close>

fun dispatch_all ::
  "'s redis \<Rightarrow> int \<Rightarrow> (pubkey \<Rightarrow> dispatch_env) \<Rightarrow> pubkey list \<Rightarrow> (pubkey \<Rightarrow> Monitor option) \<Rightarrow>
   's tick_state \<Rightarrow> 's tick_state" where
  "dispatch_all R now env [] assignments st = st"
| "dispatch_all R now env (pk # pks) assignments st =
     (case assignments pk of
        None \<Rightarrow> dispatch_all R now env pks assignments st
      | Some m \<Rightarrow> dispatch_all R now env pks assignments (dispatch R now (env pk) pk m st))"

definition remove_ghosts ::
  "'s redis \<Rightarrow> (string \<Rightarrow> fate) \<Rightarrow> string list \<Rightarrow> Monitor list \<Rightarrow> 's \<Rightarrow> 's" where
  "remove_ghosts R fates dueMembers monitors rdb =
     fold (\<lambda>mKey s.
         if trim_prefix sched_prefix mKey \<notin> set (map m_ID monitors)
         then fst (remote (fates mKey) (\<lambda>s. (rZREM R due_key mKey s, ())) s) else s)
       dueMembers rdb"

definition back_off ::
  "'s redis \<Rightarrow> int \<Rightarrow> (string \<Rightarrow> fate) \<Rightarrow> string list \<Rightarrow> Monitor list \<Rightarrow> 's \<Rightarrow> 's" where
  "back_off R now fates processed monitors rdb =
     fold (\<lambda>m s.
         if m_ID m \<notin> set processed
         then fst (remote (fates (m_ID m))
                (\<lambda>s. (rZADD R due_key (now + 5) (sched_member (m_ID m)) s, ())) s) else s)
       monitors rdb"

record tick_env =
  te_range :: bool
  te_find :: bool
  te_ghost :: "string \<Rightarrow> fate"
  te_order :: "pubkey list"
  te_assigned :: "pubkey list"
  te_dispatch :: "pubkey \<Rightarrow> dispatch_env"
  te_back :: "string \<Rightarrow> fate"

definition scheduleTick ::
  "'s redis \<Rightarrow> (string \<Rightarrow> string option) \<Rightarrow> (string \<Rightarrow> string option) \<Rightarrow> instant \<Rightarrow> tick_env \<Rightarrow> db \<Rightarrow>
   MemoryRegistry \<Rightarrow> 's tick_state \<Rightarrow> 's tick_state \<times> (db_error + unit)" where
  "scheduleTick R hostname uuid_in t te db reg st =
     (let now = Unix t;
          dueMembers = rZRANGE R due_key now 100 (ts_rdb st)
      in if \<not> te_range te \<or> dueMembers = [] then (st, Inr ())
         else
           (case FindMany uuid_in (te_find te) (map (trim_prefix sched_prefix) dueMembers) db of
              Inl e \<Rightarrow> (st, Inl e)
            | Inr monitors \<Rightarrow>
                (let rdb1 = remove_ghosts R (te_ghost te) dueMembers monitors (ts_rdb st)
                 in if monitors = [] then (st\<lparr>ts_rdb := rdb1\<rparr>, Inr ())
                    else
                      (let (cursors, assignments) =
                             MatchBatch hostname (te_order te) t reg (ts_cursors st) monitors;
                           st1 = dispatch_all R now (te_dispatch te) (te_assigned te) assignments
                                   (st\<lparr>ts_rdb := rdb1, ts_cursors := cursors\<rparr>);
                           processed = List.map_filter (\<lambda>pk. map_option m_ID (assignments pk))
                             (te_assigned te)
                       in (st1\<lparr>ts_rdb := back_off R now (te_back te) processed monitors (ts_rdb st1)\<rparr>,
                           Inr ())))))"

subsection \<open>Seeding the set\<close>

text \<open>The pipeline adds each active monitor that is not yet in the set.\<close>

definition SyncSchedulerState ::
  "'s redis \<Rightarrow> bool \<Rightarrow> (string \<Rightarrow> fate) \<Rightarrow> (string \<Rightarrow> instant) \<Rightarrow> db \<Rightarrow> 's \<Rightarrow> 's \<times> (db_error + unit)" where
  "SyncSchedulerState R up fates clock db rdb =
     (case FindActive up db of
        Inl e \<Rightarrow> (rdb, Inl e)
      | Inr monitors \<Rightarrow>
          (fold (\<lambda>m s. fst (remote (fates (m_ID m))
                   (\<lambda>s. (rZADDNX R due_key (Unix (clock (m_ID m))) (sched_member (m_ID m)) s, ())) s))
             monitors rdb,
           if list_all (\<lambda>m. fates (m_ID m) = Delivered) monitors then Inr () else Inl Unavailable))"

text \<open>The method \<^verbatim>\<open>BootstrapScheduler\<close> repeats \<^const>\<open>SyncSchedulerState\<close> on the application's own client.\<close>

definition BootstrapScheduler ::
  "'s redis \<Rightarrow> bool \<Rightarrow> (string \<Rightarrow> fate) \<Rightarrow> (string \<Rightarrow> instant) \<Rightarrow> db \<Rightarrow> 's \<Rightarrow> 's \<times> (db_error + unit)" where
  "BootstrapScheduler = SyncSchedulerState"

subsection \<open>The sorted set through a tick\<close>

lemma nonce_not_due [simp]: "nonce_key n \<noteq> due_key" "due_key \<noteq> nonce_key n"
  by (simp_all add: nonce_key_def due_key_def)

lemma fst_remote_Delivered [simp]: "fst (remote Delivered (\<lambda>s. (g s, ())) s) = g s"
  by simp

lemma ts_rdb_dispatch:
  assumes "de_zadd de = Delivered" "de_set de = Delivered"
  shows "ts_rdb (dispatch R now de pk m st) =
    rSET R (de_time de) (nonce_key (de_nonce de)) (Str ''1'') (nonceTTL (m_CheckIntervalSeconds m))
      (rZADD R due_key (now + m_CheckIntervalSeconds m) (sched_member (m_ID m)) (ts_rdb st))"
  using assms by (simp add: dispatch_def Let_def)

context redis_server begin

lemma dispatch_score:
  assumes "de_zadd de = Delivered" "de_set de = Delivered"
  shows "zset (ts_rdb (dispatch R now de pk m st)) due_key =
    (zset (ts_rdb st) due_key)(sched_member (m_ID m) := Some (now + m_CheckIntervalSeconds m))"
  by (simp add: ts_rdb_dispatch [OF assms] redis_simps)

lemma dispatch_all_score:
  assumes "\<forall>pk. de_zadd (env pk) = Delivered \<and> de_set (env pk) = Delivered"
    and "\<forall>pk m. asg pk = Some m \<and> m_ID m = i \<longrightarrow> m_CheckIntervalSeconds m = iv"
  shows "zset (ts_rdb (dispatch_all R now env pks asg st)) due_key (sched_member i) =
    (if \<exists>pk \<in> set pks. \<exists>m. asg pk = Some m \<and> m_ID m = i then Some (now + iv)
     else zset (ts_rdb st) due_key (sched_member i))"
proof (induction pks arbitrary: st)
  case (Cons pk pks)
  with assms dispatch_score [of "env pk" now pk _ st] show ?case
    by (auto split: option.splits)
qed simp

lemma remove_ghosts_score:
  assumes "\<forall>k. fates k = Delivered"
  shows "zset (remove_ghosts R fates due ms s) due_key k =
    (if k \<in> set due \<and> trim_prefix sched_prefix k \<notin> set (map m_ID ms) then None else zset s due_key k)"
  unfolding remove_ghosts_def
  using assms by (induction due arbitrary: s) (auto simp: redis_simps)

lemma back_off_score:
  assumes "\<forall>k. fates k = Delivered"
  shows "zset (back_off R now fates done ms s) due_key (sched_member i) =
    (if i \<notin> set done \<and> i \<in> set (map m_ID ms) then Some (now + 5) else zset s due_key (sched_member i))"
  unfolding back_off_def
  using assms by (induction ms arbitrary: s) (auto simp: redis_simps)

text \<open>Nothing but the dispatches touches the string keys.\<close>

lemma remove_ghosts_get: "rGET R t k (remove_ghosts R fates due ms s) = rGET R t k s"
  unfolding remove_ghosts_def
proof (induction due arbitrary: s)
  case (Cons d due)
  then show ?case by (cases "fates d") (auto simp: get_zrem)
qed simp

lemma back_off_get: "k \<noteq> due_key \<Longrightarrow> rGET R t k (back_off R now fates done ms s) = rGET R t k s"
  unfolding back_off_def
proof (induction ms arbitrary: s)
  case (Cons m ms)
  then show ?case by (cases "fates (m_ID m)") (auto simp: get_zadd)
qed simp

lemma dispatch_get:
  assumes "n \<noteq> de_nonce de"
  shows "rGET R t (nonce_key n) (ts_rdb (dispatch R now de pk m st)) = rGET R t (nonce_key n) (ts_rdb st)"
  using assms by (cases "de_zadd de"; cases "de_set de")
    (simp_all add: dispatch_def Let_def get_other_set get_zadd)

lemma dispatch_all_get_other:
  assumes "\<forall>pk \<in> set pks. n \<noteq> de_nonce (env pk)"
  shows "rGET R t (nonce_key n) (ts_rdb (dispatch_all R now env pks asg st))
    = rGET R t (nonce_key n) (ts_rdb st)"
  using assms by (induction pks arbitrary: st) (auto simp: dispatch_get split: option.splits)

lemma dispatch_get_own:
  assumes "de_set de = Delivered"
  shows "rGET R t (nonce_key (de_nonce de)) (ts_rdb (dispatch R now de pk m st)) =
    (if t < de_time de + nonceTTL (m_CheckIntervalSeconds m) then Some (Str ''1'') else None)"
  using assms by (simp add: dispatch_def Let_def get_after_set)

lemma dispatch_all_get_own:
  assumes "distinct pks" "inj_on (\<lambda>pk. de_nonce (env pk)) (set pks)" "pk \<in> set pks" "asg pk = Some m"
    "de_set (env pk) = Delivered"
  shows "rGET R t (nonce_key (de_nonce (env pk))) (ts_rdb (dispatch_all R now env pks asg st)) =
    (if t < de_time (env pk) + nonceTTL (m_CheckIntervalSeconds m) then Some (Str ''1'') else None)"
  using assms(1-3)
proof (induction pks arbitrary: st)
  case (Cons p ps)
  show ?case
  proof (cases "p = pk")
    case True
    have "\<forall>q \<in> set ps. de_nonce (env pk) \<noteq> de_nonce (env q)"
      using Cons.prems True by (auto simp: inj_on_def)
    with True assms(4,5) show ?thesis by (simp add: dispatch_all_get_other dispatch_get_own)
  next
    case False
    with Cons show ?thesis by (auto split: option.splits simp: inj_on_def)
  qed
qed simp

end

subsection \<open>A tick, taken apart\<close>

definition due_members :: "'s redis \<Rightarrow> instant \<Rightarrow> 's tick_state \<Rightarrow> string list" where
  "due_members R t st = rZRANGE R due_key (Unix t) 100 (ts_rdb st)"

lemma scheduleTick_run:
  assumes "te_range te" "due_members R t st \<noteq> []"
    and "FindMany uuid_in (te_find te) (map (trim_prefix sched_prefix) (due_members R t st)) db = Inr ms"
    and "ms \<noteq> []" "MatchBatch hostname (te_order te) t reg (ts_cursors st) ms = (cur, asg)"
  shows "scheduleTick R hostname uuid_in t te db reg st =
    (let st1 = dispatch_all R (Unix t) (te_dispatch te) (te_assigned te) asg
                 (st\<lparr>ts_rdb := remove_ghosts R (te_ghost te) (due_members R t st) ms (ts_rdb st),
                     ts_cursors := cur\<rparr>)
     in (st1\<lparr>ts_rdb := back_off R (Unix t) (te_back te)
               (List.map_filter (\<lambda>pk. map_option m_ID (asg pk)) (te_assigned te)) ms (ts_rdb st1)\<rparr>, Inr ()))"
  using assms by (simp add: scheduleTick_def due_members_def Let_def)

lemma scheduleTick_none:
  assumes "te_range te" "due_members R t st \<noteq> []"
    and "FindMany uuid_in (te_find te) (map (trim_prefix sched_prefix) (due_members R t st)) db = Inr []"
  shows "scheduleTick R hostname uuid_in t te db reg st =
    (st\<lparr>ts_rdb := remove_ghosts R (te_ghost te) (due_members R t st) [] (ts_rdb st)\<rparr>, Inr ())"
  using assms by (simp add: scheduleTick_def due_members_def Let_def)

lemma processed_iff:
  "i \<in> set (List.map_filter (\<lambda>pk. map_option m_ID (asg pk)) pks)
     \<longleftrightarrow> (\<exists>pk \<in> set pks. \<exists>m. asg pk = Some m \<and> m_ID m = i)"
  by (induction pks) (auto simp: map_filter_simps split: option.splits)

text \<open>Every request of the tick to Redis is answered.\<close>

definition redis_up :: "tick_env \<Rightarrow> bool" where
  "redis_up te \<longleftrightarrow> te_range te \<and> (\<forall>k. te_ghost te k = Delivered) \<and> (\<forall>i. te_back te i = Delivered)
     \<and> (\<forall>pk. de_zadd (te_dispatch te pk) = Delivered \<and> de_set (te_dispatch te pk) = Delivered)"

text \<open>The interval of a monitor is its own among those of a batch with distinct ids.\<close>

lemma MatchBatch_values:
  assumes "MatchBatch hostname order t reg cur ms = (cur', asg)" "asg pk = Some m"
  shows "m \<in> set ms"
proof -
  have "ran asg \<subseteq> set ms"
    using matchLoop_ran [of hostname "GetOnlineNodes order t reg" ms cur "\<lambda>_. 0" Map.empty] assms(1)
    by (auto simp: MatchBatch_cases split: if_splits)
  with assms(2) show ?thesis by (auto simp: ran_def)
qed

context redis_server begin

lemma dispatch_all_other:
  assumes "\<forall>pk. de_zadd (env pk) = Delivered \<and> de_set (env pk) = Delivered"
    and "\<And>pk m. asg pk = Some m \<Longrightarrow> k \<noteq> sched_member (m_ID m)"
  shows "zset (ts_rdb (dispatch_all R now env pks asg st)) due_key k = zset (ts_rdb st) due_key k"
proof (induction pks arbitrary: st)
  case (Cons pk pks)
  with assms dispatch_score [of "env pk" now pk _ st] show ?case by (auto split: option.splits)
qed simp

lemma back_off_other:
  assumes "\<forall>k. fates k = Delivered" "\<And>m. m \<in> set ms \<Longrightarrow> k \<noteq> sched_member (m_ID m)"
  shows "zset (back_off R now fates done ms s) due_key k = zset s due_key k"
  unfolding back_off_def
  using assms(2) by (induction ms arbitrary: s) (auto simp: redis_simps assms(1))

lemma tick_scores:
  assumes "redis_up te" "map_order (te_assigned te) asg"
    and "distinct (map m_ID (t_monitors db))"
    and "due_members R t st \<noteq> []"
    and "FindMany uuid_in (te_find te) (map (trim_prefix sched_prefix) (due_members R t st)) db = Inr ms"
    and "MatchBatch hostname (te_order te) t reg (ts_cursors st) ms = (cur, asg)"
    and "scheduleTick R hostname uuid_in t te db reg st = (st', r)"
  shows "(\<forall>k \<in> set (due_members R t st). trim_prefix sched_prefix k \<notin> set (map m_ID ms)
             \<longrightarrow> zset (ts_rdb st') due_key k = None)
    \<and> (\<forall>m \<in> set ms. zset (ts_rdb st') due_key (sched_member (m_ID m)) =
          Some (Unix t + (if m \<in> ran asg then m_CheckIntervalSeconds m else 5)))"
proof (cases "ms = []")
  case True
  have s: "scheduleTick R hostname uuid_in t te db reg st =
      (st\<lparr>ts_rdb := remove_ghosts R (te_ghost te) (due_members R t st) [] (ts_rdb st)\<rparr>, Inr ())"
    by (rule scheduleTick_none) (use assms(1,4,5) True in \<open>auto simp: redis_up_def\<close>)
  with assms(7) have "ts_rdb st' = remove_ghosts R (te_ghost te) (due_members R t st) [] (ts_rdb st)"
    by auto
  moreover have "\<forall>k. te_ghost te k = Delivered" using assms(1) by (simp add: redis_up_def)
  ultimately show ?thesis
    using remove_ghosts_score [of "te_ghost te" "due_members R t st" "[]"] True
    by simp
next
  case False
  let ?due = "due_members R t st"
  let ?s0 = "remove_ghosts R (te_ghost te) ?due ms (ts_rdb st)"
  let ?st0 = "st\<lparr>ts_rdb := ?s0, ts_cursors := cur\<rparr>"
  let ?st1 = "dispatch_all R (Unix t) (te_dispatch te) (te_assigned te) asg ?st0"
  let ?done = "List.map_filter (\<lambda>pk. map_option m_ID (asg pk)) (te_assigned te)"
  have up: "\<forall>k. te_ghost te k = Delivered" "\<forall>i. te_back te i = Delivered"
    "\<forall>pk. de_zadd (te_dispatch te pk) = Delivered \<and> de_set (te_dispatch te pk) = Delivered" "te_range te"
    using assms(1) by (auto simp: redis_up_def)
  have st': "ts_rdb st' = back_off R (Unix t) (te_back te) ?done ms (ts_rdb ?st1)"
    using scheduleTick_run [OF up(4) assms(4,5) False assms(6)] assms(7) by (auto simp: Let_def)
  have inj: "m = m'" if "m \<in> set ms" "m' \<in> set ms" "m_ID m = m_ID m'" for m m'
    using FindMany_Inr(2) [OF assms(5,3)] that by (simp add: same_key)
  have asg: "\<exists>pk \<in> set (te_assigned te). asg pk = Some m" if "m \<in> ran asg" for m
    using that assms(2) by (auto simp: ran_def map_order_def)
  have sc: "zset (ts_rdb st') due_key (sched_member i) =
      (if i \<notin> set ?done \<and> i \<in> set (map m_ID ms) then Some (Unix t + 5)
       else zset (ts_rdb ?st1) due_key (sched_member i))" for i
    unfolding st' by (rule back_off_score [OF up(2)])
  have "zset (ts_rdb st') due_key (sched_member (m_ID m)) =
      Some (Unix t + (if m \<in> ran asg then m_CheckIntervalSeconds m else 5))" if m: "m \<in> set ms" for m
  proof (cases "m \<in> ran asg")
    case True
    from asg [OF True] obtain pk where pk: "pk \<in> set (te_assigned te)" "asg pk = Some m" by blast
    have "\<forall>q n. asg q = Some n \<and> m_ID n = m_ID m \<longrightarrow> m_CheckIntervalSeconds n = m_CheckIntervalSeconds m"
      using inj m MatchBatch_values [OF assms(6)] by blast
    from dispatch_all_score [OF up(3) this, of "Unix t" "te_assigned te" ?st0] pk
    have "zset (ts_rdb ?st1) due_key (sched_member (m_ID m)) = Some (Unix t + m_CheckIntervalSeconds m)"
      by auto
    moreover have "m_ID m \<in> set ?done" using pk by (auto simp: processed_iff)
    ultimately show ?thesis using True by (simp add: sc)
  next
    case False
    have "m_ID m \<notin> set ?done"
    proof
      assume "m_ID m \<in> set ?done"
      then obtain pk n where "asg pk = Some n" "m_ID n = m_ID m" by (auto simp: processed_iff)
      with inj m MatchBatch_values [OF assms(6)] have "asg pk = Some m" by metis
      with False show False by (auto simp: ran_def)
    qed
    with m False show ?thesis by (auto simp: sc)
  qed
  moreover have "zset (ts_rdb st') due_key k = None"
    if k: "k \<in> set ?due" "trim_prefix sched_prefix k \<notin> set (map m_ID ms)" for k
  proof -
    have ids: "m_ID m \<in> set (map m_ID ms)" if "asg pk = Some m" for pk m
      using MatchBatch_values [OF assms(6) that] by auto
    have ne: "k \<noteq> sched_member (m_ID m)" if "m \<in> set ms" for m using k(2) that by auto
    have "zset (ts_rdb st') due_key k = zset (ts_rdb ?st1) due_key k"
      unfolding st' by (rule back_off_other) (use up(2) ne in auto)
    also have "\<dots> = zset ?s0 due_key k"
      by (subst dispatch_all_other) (use up(3) ne MatchBatch_values [OF assms(6)] in auto)
    also have "\<dots> = None" using k by (simp add: remove_ghosts_score [OF up(1)])
    finally show ?thesis .
  qed
  ultimately show ?thesis by blast
qed

end

subsection \<open>Properties\<close>

text \<open>
  C16. No monitor is lost and none fires twice: after a tick with Redis up, a due member whose
  monitor was not found is gone from the set, and every monitor found is due again after its interval
  if it was dispatched, after five seconds if it was not.
\<close>
theorem tick_reschedules:
  assumes "redis_server R str zset" "redis_up te" "map_order (te_assigned te) asg"
    and "distinct (map m_ID (t_monitors db))"
    and "due_members R t st \<noteq> []"
    and "FindMany uuid_in (te_find te) (map (trim_prefix sched_prefix) (due_members R t st)) db = Inr ms"
    and "MatchBatch hostname (te_order te) t reg (ts_cursors st) ms = (cur, asg)"
    and "scheduleTick R hostname uuid_in t te db reg st = (st', r)"
  shows "(\<forall>k \<in> set (due_members R t st). trim_prefix sched_prefix k \<notin> set (map m_ID ms)
             \<longrightarrow> zset (ts_rdb st') due_key k = None)
    \<and> (\<forall>m \<in> set ms. zset (ts_rdb st') due_key (sched_member (m_ID m)) =
          Some (Unix t + (if m \<in> ran asg then m_CheckIntervalSeconds m else 5)))"
  by (rule redis_server.tick_scores [OF assms])

text \<open>A tick on the reference server: two due members, one of them of a monitor that is gone.\<close>

definition demo_tick_state :: "ref_state tick_state" where
  "demo_tick_state =
     \<lparr>ts_rdb = rZADD ref_redis due_key 0 (sched_member ''x'')
                (rZADD ref_redis due_key 0 (sched_member ''m'') ref_empty),
      ts_cursors = (\<lambda>_. 0), ts_amqp = idle_amqp\<rparr>"

definition demo_tick_env :: tick_env where
  "demo_tick_env =
     \<lparr>te_range = True, te_find = True, te_ghost = (\<lambda>_. Delivered), te_order = [''a''], te_assigned = [''a''],
      te_dispatch = (\<lambda>_. \<lparr>de_nonce = ''n'', de_zadd = Delivered, de_set = Delivered, de_time = 0,
        de_publish = \<lparr>pe_first = Delivered, pe_reopen = True, pe_second = Delivered\<rparr>\<rparr>),
      te_back = (\<lambda>_. Delivered)\<rparr>"

definition demo_due :: Monitor where
  "demo_due = scan_monitor (demo_monitor_row ''m'' 1)"

lemma demo_due_members: "due_members ref_redis 0 demo_tick_state = [sched_member ''m'', sched_member ''x'']"
  by (simp add: due_members_def demo_tick_state_def ref_redis_def ref_empty_def zdel_def Unix_def sched_member_def)

lemma demo_find: "FindMany Some True [''m'', ''x''] (demo_db 3 20 0) = Inr [demo_due]"
  by (simp add: FindMany_def demo_db_def demo_due_def owner_has_credit_def demo_monitor_row_def demo_user_def)

lemma demo_match: "MatchBatch demo_host [''a''] 0 (demo_registry [''a'']) (\<lambda>_. 0) [demo_due]
    = ((\<lambda>_. 0), [''a'' \<mapsto> demo_due])"
  by (simp add: MatchBatch_def Let_def demo_registry_def TrackHeartbeat_def NewMemoryRegistry_def fun_eq_iff)

lemma demo_selectors:
  "te_order demo_tick_env = [''a'']" "te_assigned demo_tick_env = [''a'']" "te_find demo_tick_env"
  "te_range demo_tick_env" "ts_cursors demo_tick_state = (\<lambda>_. 0)"
  "distinct (map m_ID (t_monitors (demo_db 3 20 0)))"
  by (simp_all add: demo_tick_env_def demo_tick_state_def demo_db_def)

lemma demo_up: "redis_up demo_tick_env"
  by (simp add: redis_up_def demo_tick_env_def)

lemma demo_tick_facts:
  "map_order (te_assigned demo_tick_env) [''a'' \<mapsto> demo_due]"
  "distinct (map m_ID (t_monitors (demo_db 3 20 0)))"
  "due_members ref_redis 0 demo_tick_state \<noteq> []"
  "FindMany Some (te_find demo_tick_env)
     (map (trim_prefix sched_prefix) (due_members ref_redis 0 demo_tick_state)) (demo_db 3 20 0) = Inr [demo_due]"
  "MatchBatch demo_host (te_order demo_tick_env) 0 (demo_registry [''a'']) (ts_cursors demo_tick_state) [demo_due]
    = ((\<lambda>_. 0), [''a'' \<mapsto> demo_due])"
  using demo_find demo_match by (simp_all add: map_order_def demo_due_members demo_selectors)

theorem tick_reschedules_witness:
  "\<exists>st'. scheduleTick ref_redis demo_host Some 0 demo_tick_env (demo_db 3 20 0) (demo_registry [''a''])
       demo_tick_state = (st', Inr ())
    \<and> ref_zset (ts_rdb st') due_key (sched_member ''x'') = None
    \<and> ref_zset (ts_rdb st') due_key (sched_member ''m'') = Some 60"
proof -
  obtain st' r where r: "scheduleTick ref_redis demo_host Some 0 demo_tick_env (demo_db 3 20 0)
      (demo_registry [''a'']) demo_tick_state = (st', r)" by (rule prod.exhaust)
  have "\<forall>k \<in> set [sched_member ''m'', sched_member ''x'']. trim_prefix sched_prefix k \<notin> set (map m_ID [demo_due])
             \<longrightarrow> ref_zset (ts_rdb st') due_key k = None"
    "\<forall>m \<in> set [demo_due]. ref_zset (ts_rdb st') due_key (sched_member (m_ID m)) =
          Some (Unix 0 + (if m \<in> ran [''a'' \<mapsto> demo_due] then m_CheckIntervalSeconds m else 5))"
    using tick_reschedules [OF ref_server demo_up demo_tick_facts r] by (simp_all add: demo_due_members)
  moreover have "m_ID demo_due = ''m''" "m_CheckIntervalSeconds demo_due = 60"
    by (simp_all add: demo_due_def demo_monitor_row_def scan_monitor_def Monitor.truncate_def)
  moreover have "r = Inr ()"
    using scheduleTick_run [OF demo_selectors(4) demo_tick_facts(3,4) _ demo_tick_facts(5)] r
    by (auto simp: Let_def)
  ultimately show ?thesis using r by (auto simp: Unix_def)
qed

subsection \<open>The jobs of a tick\<close>

definition job_message :: "int \<Rightarrow> (pubkey \<Rightarrow> dispatch_env) \<Rightarrow> pubkey \<Rightarrow> Monitor \<Rightarrow> message" where
  "job_message now env pk m = \<lparr>msg_exchange = [], msg_key = ''job_queue'',
     msg_body = encode_JobPayload (job_payload now (de_nonce (env pk)) pk m)\<rparr>"

definition tick_messages ::
  "int \<Rightarrow> (pubkey \<Rightarrow> dispatch_env) \<Rightarrow> (pubkey \<Rightarrow> Monitor option) \<Rightarrow> pubkey list \<Rightarrow> message list" where
  "tick_messages now env asg pks = List.map_filter (\<lambda>pk. map_option (job_message now env pk) (asg pk)) pks"

lemma sent_dispatch:
  "\<exists>n \<le> 2. sent (sa_conn (ts_amqp (dispatch R now (env pk) pk m st)))
     = sent (sa_conn (ts_amqp st)) @ replicate n (job_message now env pk m)
     \<and> (pe_first (de_publish (env pk)) = Delivered \<longrightarrow> n = 1)"
proof -
  obtain s' r where p: "publish (de_publish (env pk)) ''job_queue''
      (encode_JobPayload (job_payload now (de_nonce (env pk)) pk m)) (ts_amqp st) = (s', r)"
    by (rule prod.exhaust)
  have d: "ts_amqp (dispatch R now (env pk) pk m st) = s'" by (simp add: dispatch_def Let_def p)
  show ?thesis
  proof (cases "pe_first (de_publish (env pk)) = Delivered")
    case True
    with p have "sent (sa_conn s') = sent (sa_conn (ts_amqp st)) @ [job_message now env pk m]"
      by (auto simp: publish_def Let_def job_message_def)
    then show ?thesis unfolding d by (intro exI [of _ 1]) simp
  next
    case False
    with publish_sent [OF p] show ?thesis unfolding d job_message_def by blast
  qed
qed

lemma sent_dispatch_all:
  "(\<forall>pk \<in> set pks. pe_first (de_publish (env pk)) = Delivered) \<Longrightarrow>
     sent (sa_conn (ts_amqp (dispatch_all R now env pks asg st)))
       = sent (sa_conn (ts_amqp st)) @ tick_messages now env asg pks"
proof (induction pks arbitrary: st)
  case Nil
  then show ?case by (simp add: tick_messages_def map_filter_simps)
next
  case (Cons pk pks)
  then show ?case
  proof (cases "asg pk")
    case None
    with Cons show ?thesis by (simp add: tick_messages_def map_filter_simps)
  next
    case (Some m)
    from sent_dispatch [of R now env pk m st] Cons.prems
    have "sent (sa_conn (ts_amqp (dispatch R now (env pk) pk m st)))
        = sent (sa_conn (ts_amqp st)) @ [job_message now env pk m]" by auto
    with Cons Some show ?thesis by (simp add: tick_messages_def map_filter_simps)
  qed
qed

lemma sent_dispatch_all_sub:
  "set (sent (sa_conn (ts_amqp (dispatch_all R now env pks asg st))))
     \<subseteq> set (sent (sa_conn (ts_amqp st))) \<union> set (tick_messages now env asg pks)"
proof (induction pks arbitrary: st)
  case Nil
  then show ?case by simp
next
  case (Cons pk pks)
  show ?case
  proof (cases "asg pk")
    case None
    with Cons show ?thesis by (auto simp: tick_messages_def map_filter_simps)
  next
    case (Some m)
    from sent_dispatch [of R now env pk m st] obtain n where
      "sent (sa_conn (ts_amqp (dispatch R now (env pk) pk m st)))
        = sent (sa_conn (ts_amqp st)) @ replicate n (job_message now env pk m)" by blast
    then have "set (sent (sa_conn (ts_amqp (dispatch R now (env pk) pk m st))))
        \<subseteq> insert (job_message now env pk m) (set (sent (sa_conn (ts_amqp st))))" by auto
    with Cons.IH [of "dispatch R now (env pk) pk m st"] Some
    show ?thesis by (auto simp: tick_messages_def map_filter_simps)
  qed
qed

lemma tick_messages_iff:
  "x \<in> set (tick_messages now env asg pks) \<longleftrightarrow>
     (\<exists>pk \<in> set pks. \<exists>m. asg pk = Some m \<and> x = job_message now env pk m)"
  unfolding tick_messages_def
  by (induction pks) (auto simp: map_filter_simps split: option.splits)

text \<open>A batch of different monitors gives no monitor to two nodes.\<close>

lemma matchLoop_inj:
  assumes "distinct ms" "\<forall>k m. asg k = Some m \<longrightarrow> m \<notin> set ms"
    and "\<forall>k k' m. asg k = Some m \<and> asg k' = Some m \<longrightarrow> k = k'"
    and "snd (matchLoop h ns ms idx cnt asg) k = Some m" "snd (matchLoop h ns ms idx cnt asg) k' = Some m"
  shows "k = k'"
  using assms
proof (induction ms arbitrary: idx cnt asg)
  case Nil
  then have "asg k = Some m \<and> asg k' = Some m" by (simp only: matchLoop.simps snd_conv)
  with Nil.prems(3) show ?case by blast
next
  case (Cons x ms)
  let ?d = "cleanDomain h (m_TargetURL x)"
  have d: "distinct ms" "x \<notin> set ms" using Cons.prems(1) by simp_all
  show ?case
  proof (cases "5 \<le> cnt ?d")
    case True
    then have r: "snd (matchLoop h ns ms idx cnt asg) k = Some m"
      "snd (matchLoop h ns ms idx cnt asg) k' = Some m" using Cons.prems(4,5) by simp_all
    have "\<forall>k m. asg k = Some m \<longrightarrow> m \<notin> set ms" using Cons.prems(2) by simp
    from Cons.IH [OF d(1) this Cons.prems(3) r] show ?thesis .
  next
    case False
    let ?k = "an_Pubkey (ns ! (idx ?d mod length ns))"
    let ?asg = "asg(?k \<mapsto> x)"
    let ?idx = "idx(?d := Suc (idx ?d mod length ns) mod length ns)"
    let ?cnt = "cnt(?d := Suc (cnt ?d))"
    have fresh: "\<forall>k m. ?asg k = Some m \<longrightarrow> m \<notin> set ms" using d Cons.prems(2) by simp
    have inj: "\<forall>k k' m. ?asg k = Some m \<and> ?asg k' = Some m \<longrightarrow> k = k'"
    proof (intro allI impI)
      fix a b n
      assume ab: "?asg a = Some n \<and> ?asg b = Some n"
      have old: "asg j \<noteq> Some x" for j using Cons.prems(2) by force
      show "a = b"
      proof (cases "n = x")
        case True
        with ab old show ?thesis by (metis fun_upd_other)
      next
        case False
        with ab have "asg a = Some n \<and> asg b = Some n" by (auto split: if_splits)
        with Cons.prems(3) show ?thesis by blast
      qed
    qed
    have r: "snd (matchLoop h ns ms ?idx ?cnt ?asg) k = Some m"
      "snd (matchLoop h ns ms ?idx ?cnt ?asg) k' = Some m"
      using Cons.prems(4,5) False by (simp_all add: Let_def)
    from Cons.IH [OF d(1) fresh inj r] show ?thesis .
  qed
qed

lemma MatchBatch_inj:
  assumes "MatchBatch h order t reg cur ms = (cur', asg)" "distinct ms" "asg k = Some m" "asg k' = Some m"
  shows "k = k'"
proof (rule matchLoop_inj [OF assms(2), of Map.empty h "GetOnlineNodes order t reg" cur "\<lambda>_. 0" k m k'])
  have "asg = snd (matchLoop h (GetOnlineNodes order t reg) ms cur (\<lambda>_. 0) Map.empty) \<or> asg = Map.empty"
    using assms(1) by (auto simp: MatchBatch_cases split: if_splits)
  with assms(3,4) show "snd (matchLoop h (GetOnlineNodes order t reg) ms cur (\<lambda>_. 0) Map.empty) k = Some m"
    "snd (matchLoop h (GetOnlineNodes order t reg) ms cur (\<lambda>_. 0) Map.empty) k' = Some m" by auto
qed simp_all

text \<open>What a tick sends, however it goes.\<close>

lemma tick_sends:
  assumes "scheduleTick R hostname uuid_in t te db reg st = (st', r)" "keyed reg"
    and "map_order (te_order te) (nodes reg)" "distinct (map m_ID (t_monitors db))"
    and "x \<in> set (sent (sa_conn (ts_amqp st')))" "x \<notin> set (sent (sa_conn (ts_amqp st)))"
  shows "\<exists>pk m k. x = job_message (Unix t) (te_dispatch te) pk m \<and> pk \<in> onlineKeys t reg \<and> eligible db m
    \<and> k \<in> set (due_members R t st) \<and> uuid_in (trim_prefix sched_prefix k) = Some (m_ID m)"
proof -
  from assms(1,5,6) obtain ms cur asg where
    ms: "FindMany uuid_in (te_find te) (map (trim_prefix sched_prefix) (due_members R t st)) db = Inr ms"
    and mb: "MatchBatch hostname (te_order te) t reg (ts_cursors st) ms = (cur, asg)"
    and x: "x \<in> set (sent (sa_conn (ts_amqp (dispatch_all R (Unix t) (te_dispatch te) (te_assigned te) asg
          (st\<lparr>ts_rdb := remove_ghosts R (te_ghost te) (due_members R t st) ms (ts_rdb st),
              ts_cursors := cur\<rparr>)))))"
    by (auto simp: scheduleTick_def due_members_def Let_def split: if_splits sum.splits prod.splits)
  from x assms(6) sent_dispatch_all_sub have "x \<in> set (tick_messages (Unix t) (te_dispatch te) asg (te_assigned te))"
    by fastforce
  then obtain pk m where pm: "asg pk = Some m" "x = job_message (Unix t) (te_dispatch te) pk m"
    by (auto simp: tick_messages_iff)
  have "m \<in> set ms" by (rule MatchBatch_values [OF mb pm(1)])
  then have "eligible db m" "Some (m_ID m) \<in> set (map uuid_in (map (trim_prefix sched_prefix) (due_members R t st)))"
    using FindMany_Inr(1) [OF ms] by blast+
  moreover from this(2) obtain k where "k \<in> set (due_members R t st)" "uuid_in (trim_prefix sched_prefix k) = Some (m_ID m)"
    by auto
  moreover have "pk \<in> onlineKeys t reg"
    using MatchBatch_bounds [OF assms(2,3), of hostname t "ts_cursors st" ms] pm(1) by (auto simp: mb)
  ultimately show ?thesis using pm(2) by blast
qed

text \<open>
  C20. Only due and eligible work is dispatched: whatever happens to its requests, every message a tick
  adds to the broker is a job, addressed to a node online at that moment, for a monitor that is in the schedule with
  a time that has come, is active, not deleted and whose owner has credit left; the job names that monitor, its URL and that
  node.
\<close>
theorem tick_dispatches_eligible:
  assumes "redis_server R str zset"
    and "scheduleTick R hostname uuid_in t te db reg st = (st', r)" "keyed reg"
    and "map_order (te_order te) (nodes reg)" "distinct (map m_ID (t_monitors db))"
    and "x \<in> set (sent (sa_conn (ts_amqp st')))" "x \<notin> set (sent (sa_conn (ts_amqp st)))"
  shows "\<exists>pk m p k score. msg_exchange x = [] \<and> msg_key x = ''job_queue'' \<and> msg_body x = encode_JobPayload p
    \<and> pk \<in> onlineKeys t reg \<and> eligible db m \<and> jp_MonitorID p = m_ID m \<and> jp_TargetURL p = m_TargetURL m
    \<and> jp_RunnerPubkey p = pk \<and> jp_ExpiresAt p = jp_IssuedAt p + 2 * m_CheckIntervalSeconds m
    \<and> uuid_in (trim_prefix sched_prefix k) = Some (m_ID m) \<and> zset (ts_rdb st) due_key k = Some score \<and> score \<le> Unix t"
proof -
  from tick_sends [OF assms(2-7)] obtain pk m k where
    x: "x = job_message (Unix t) (te_dispatch te) pk m" "pk \<in> onlineKeys t reg" "eligible db m"
    and k: "k \<in> set (due_members R t st)" "uuid_in (trim_prefix sched_prefix k) = Some (m_ID m)" by blast
  from redis_server.zrange_due [OF assms(1)] k(1) obtain score where
    "zset (ts_rdb st) due_key k = Some score" "score \<le> Unix t" unfolding due_members_def by blast
  with x k(2) show ?thesis
    by (intro exI [of _ pk] exI [of _ m] exI [of _ "job_payload (Unix t) (de_nonce (te_dispatch te pk)) pk m"]
        exI [of _ k] exI [of _ score])
       (simp add: job_message_def job_payload_def)
qed

lemma cursors_dispatch_all: "ts_cursors (dispatch_all R now env pks asg st) = ts_cursors st"
  by (induction pks arbitrary: st) (auto simp: dispatch_def Let_def split: option.splits)

lemma tick_published:
  assumes "te_range te" "due_members R t st \<noteq> []" "ms \<noteq> []"
    and "\<forall>pk \<in> set (te_assigned te). pe_first (de_publish (te_dispatch te pk)) = Delivered"
    and "distinct (map m_ID (t_monitors db))"
    and "FindMany uuid_in (te_find te) (map (trim_prefix sched_prefix) (due_members R t st)) db = Inr ms"
    and "MatchBatch hostname (te_order te) t reg (ts_cursors st) ms = (cur, asg)"
    and "scheduleTick R hostname uuid_in t te db reg st = (st', r)"
  shows "sent (sa_conn (ts_amqp st')) = sent (sa_conn (ts_amqp st))
        @ tick_messages (Unix t) (te_dispatch te) asg (te_assigned te)
    \<and> ts_cursors st' = cur \<and> r = Inr ()
    \<and> (\<forall>k k' m. asg k = Some m \<and> asg k' = Some m \<longrightarrow> k = k')"
proof -
  have "distinct ms" using FindMany_Inr(2) [OF assms(6,5)] by (simp add: distinct_map)
  with MatchBatch_inj [OF assms(7)] have inj: "\<forall>k k' m. asg k = Some m \<and> asg k' = Some m \<longrightarrow> k = k'"
    by blast
  have "sent (sa_conn (ts_amqp st')) = sent (sa_conn (ts_amqp st))
        @ tick_messages (Unix t) (te_dispatch te) asg (te_assigned te) \<and> ts_cursors st' = cur \<and> r = Inr ()"
    using scheduleTick_run [OF assms(1,2,6,3,7)] assms(8)
    by (auto simp: Let_def sent_dispatch_all [OF assms(4)] cursors_dispatch_all)
  with inj show ?thesis by blast
qed

lemma demo_tick_sent:
  "\<exists>st'. scheduleTick ref_redis demo_host Some 0 demo_tick_env (demo_db 3 20 0) (demo_registry [''a''])
       demo_tick_state = (st', Inr ())
     \<and> sent (sa_conn (ts_amqp st')) = [job_message 0 (te_dispatch demo_tick_env) ''a'' demo_due]"
proof -
  obtain st' r where r: "scheduleTick ref_redis demo_host Some 0 demo_tick_env (demo_db 3 20 0)
      (demo_registry [''a'']) demo_tick_state = (st', r)" by (rule prod.exhaust)
  have "\<forall>pk \<in> set (te_assigned demo_tick_env). pe_first (de_publish (te_dispatch demo_tick_env pk)) = Delivered"
    by (simp add: demo_tick_env_def)
  note p = tick_published [OF demo_selectors(4) demo_tick_facts(3) _ this demo_selectors(6)
      demo_tick_facts(4,5) r]
  have "tick_messages 0 env [''a'' \<mapsto> demo_due] [''a''] = [job_message 0 env ''a'' demo_due]" for env
    by (simp add: tick_messages_def map_filter_simps)
  moreover have "sent (sa_conn (ts_amqp demo_tick_state)) = []"
    by (simp add: demo_tick_state_def idle_amqp_def)
  ultimately show ?thesis using p r by (simp add: demo_selectors Unix_def)
qed

theorem tick_dispatches_eligible_witness:
  "\<exists>st' p k score. scheduleTick ref_redis demo_host Some 0 demo_tick_env (demo_db 3 20 0) (demo_registry [''a''])
       demo_tick_state = (st', Inr ())
     \<and> map msg_body (sent (sa_conn (ts_amqp st'))) = [encode_JobPayload p]
     \<and> jp_RunnerPubkey p \<in> onlineKeys 0 (demo_registry [''a''])
     \<and> ref_zset (ts_rdb demo_tick_state) due_key k = Some score \<and> score \<le> 0"
proof -
  obtain st' where r: "scheduleTick ref_redis demo_host Some 0 demo_tick_env (demo_db 3 20 0)
      (demo_registry [''a'']) demo_tick_state = (st', Inr ())"
    and s: "sent (sa_conn (ts_amqp st')) = [job_message 0 (te_dispatch demo_tick_env) ''a'' demo_due]"
    using demo_tick_sent by blast
  have "map_order (te_order demo_tick_env) (nodes (demo_registry [''a'']))" "keyed (demo_registry [''a''])"
    using demo_registry_ok(1) by (simp_all add: demo_selectors)
  moreover have "sent (sa_conn (ts_amqp demo_tick_state)) = []"
    by (simp add: demo_tick_state_def idle_amqp_def)
  ultimately obtain p k score where
    p: "msg_body (job_message 0 (te_dispatch demo_tick_env) ''a'' demo_due) = encode_JobPayload p"
      "jp_RunnerPubkey p \<in> onlineKeys 0 (demo_registry [''a''])"
      "ref_zset (ts_rdb demo_tick_state) due_key k = Some score" "score \<le> Unix 0"
    using tick_dispatches_eligible [OF ref_server r _ _ demo_selectors(6),
        of "job_message 0 (te_dispatch demo_tick_env) ''a'' demo_due"] s by auto
  have "map msg_body (sent (sa_conn (ts_amqp st'))) = [encode_JobPayload p]"
    unfolding s using p(1) by simp
  with r p(2-4) show ?thesis by (intro exI [of _ st'] exI [of _ p] exI [of _ k] exI [of _ score]) (simp add: Unix_def)
qed

subsection \<open>Nonces of a tick\<close>

lemma nonceTTL_covers: "2 * interval * second \<le> nonceTTL interval \<and> 15 * minute \<le> nonceTTL interval"
  by (simp add: nonceTTL_def Let_def)

lemma expiry_covered:
  assumes "t \<le> u"
  shows "(Unix t + 2 * interval) * second \<le> u + nonceTTL interval"
proof -
  have "Unix t * second \<le> t" unfolding Unix_def using minus_mod_eq_div_mult [of t second, symmetric] by simp
  with assms nonceTTL_covers [of interval] show ?thesis by (simp add: algebra_simps)
qed

context redis_server begin

lemma tick_stores_nonce:
  assumes "te_range te" "due_members R t st \<noteq> []" "ms \<noteq> []" "map_order (te_assigned te) asg"
    and "inj_on (\<lambda>pk. de_nonce (te_dispatch te pk)) (set (te_assigned te))"
    and "FindMany uuid_in (te_find te) (map (trim_prefix sched_prefix) (due_members R t st)) db = Inr ms"
    and "MatchBatch hostname (te_order te) t reg (ts_cursors st) ms = (cur, asg)"
    and "scheduleTick R hostname uuid_in t te db reg st = (st', r)"
    and "asg pk = Some m" "de_set (te_dispatch te pk) = Delivered"
  shows "rGET R t' (nonce_key (de_nonce (te_dispatch te pk))) (ts_rdb st') =
    (if t' < de_time (te_dispatch te pk) + nonceTTL (m_CheckIntervalSeconds m) then Some (Str ''1'') else None)"
proof -
  have pk: "pk \<in> set (te_assigned te)" "distinct (te_assigned te)"
    using assms(4,9) by (auto simp: map_order_def)
  show ?thesis
    using scheduleTick_run [OF assms(1,2,6,3,7)] assms(8)
    by (auto simp: Let_def back_off_get
        dispatch_all_get_own [where env = "te_dispatch te" and pk = pk and asg = asg and m = m, OF pk(2) assms(5) pk(1) assms(9,10)])
qed

lemma tick_nonce:
  assumes "te_range te" "due_members R t st \<noteq> []" "ms \<noteq> []" "map_order (te_assigned te) asg"
    and "inj_on (\<lambda>pk. de_nonce (te_dispatch te pk)) (set (te_assigned te))"
    and "FindMany uuid_in (te_find te) (map (trim_prefix sched_prefix) (due_members R t st)) db = Inr ms"
    and "MatchBatch hostname (te_order te) t reg (ts_cursors st) ms = (cur, asg)"
    and "scheduleTick R hostname uuid_in t te db reg st = (st', r)"
    and "asg pk = Some m" "de_set (te_dispatch te pk) = Delivered" "de_nonce (te_dispatch te pk) \<noteq> []"
  shows "snd (ValidateTaskNonce R Delivered t' (de_nonce (te_dispatch te pk)) (ts_rdb st')) = None
    \<longleftrightarrow> t' < de_time (te_dispatch te pk) + nonceTTL (m_CheckIntervalSeconds m)"
  using tick_stores_nonce [OF assms(1-10), of t'] assms(11) by (simp add: validate_iff)

end

text \<open>
  C21. Every assignment is published, under a nonce that is stored: when no request for a nonce is lost and no first attempt
  to publish fails, a tick that matched a batch adds exactly one job per assigned node, in the order of the assignments,
  each for its monitor and node and with the nonce drawn for it; no monitor is given to two nodes; and afterwards each of these
  nonces is in Redis until its time to live has passed.
\<close>
theorem tick_publishes_assignments:
  assumes "redis_server R str zset"
    and "te_range te" "due_members R t st \<noteq> []" "ms \<noteq> []" "map_order (te_assigned te) asg"
    and "\<forall>pk \<in> set (te_assigned te). pe_first (de_publish (te_dispatch te pk)) = Delivered"
    and "\<forall>pk \<in> set (te_assigned te). de_set (te_dispatch te pk) = Delivered"
    and "inj_on (\<lambda>pk. de_nonce (te_dispatch te pk)) (set (te_assigned te))"
    and "distinct (map m_ID (t_monitors db))"
    and "FindMany uuid_in (te_find te) (map (trim_prefix sched_prefix) (due_members R t st)) db = Inr ms"
    and "MatchBatch hostname (te_order te) t reg (ts_cursors st) ms = (cur, asg)"
    and "scheduleTick R hostname uuid_in t te db reg st = (st', r)"
  shows "sent (sa_conn (ts_amqp st')) = sent (sa_conn (ts_amqp st))
        @ map (\<lambda>pk. \<lparr>msg_exchange = [], msg_key = ''job_queue'',
            msg_body = encode_JobPayload (job_payload (Unix t) (de_nonce (te_dispatch te pk)) pk (the (asg pk)))\<rparr>) (te_assigned te)
    \<and> ts_cursors st' = cur \<and> r = Inr ()
    \<and> (\<forall>k k' m. asg k = Some m \<and> asg k' = Some m \<longrightarrow> k = k')
    \<and> (\<forall>pk m t'. asg pk = Some m \<longrightarrow> rGET R t' (nonce_key (de_nonce (te_dispatch te pk))) (ts_rdb st') =
         (if t' < de_time (te_dispatch te pk) + nonceTTL (m_CheckIntervalSeconds m) then Some (Str ''1'') else None))"
proof -
  have "List.map_filter (\<lambda>pk. map_option (job_message (Unix t) (te_dispatch te) pk) (asg pk)) pks
      = map (\<lambda>pk. job_message (Unix t) (te_dispatch te) pk (the (asg pk))) pks"
    if "set pks \<subseteq> dom asg" for pks
    using that by (induction pks) (auto simp: map_filter_simps)
  from this [of "te_assigned te"] assms(5) have "tick_messages (Unix t) (te_dispatch te) asg (te_assigned te)
      = map (\<lambda>pk. job_message (Unix t) (te_dispatch te) pk (the (asg pk))) (te_assigned te)"
    by (simp add: map_order_def tick_messages_def)
  moreover have "rGET R t' (nonce_key (de_nonce (te_dispatch te pk))) (ts_rdb st') =
      (if t' < de_time (te_dispatch te pk) + nonceTTL (m_CheckIntervalSeconds m) then Some (Str ''1'') else None)"
    if "asg pk = Some m" for pk m t'
  proof -
    have "de_set (te_dispatch te pk) = Delivered" using assms(5,7) that by (auto simp: map_order_def)
    from redis_server.tick_stores_nonce [OF assms(1-5,8,10-12) that this] show ?thesis .
  qed
  ultimately show ?thesis using tick_published [OF assms(2-4,6,9-12)] by (simp add: job_message_def)
qed

theorem tick_publishes_assignments_witness:
  "\<exists>st'. scheduleTick ref_redis demo_host Some 0 demo_tick_env (demo_db 3 20 0) (demo_registry [''a''])
       demo_tick_state = (st', Inr ())
     \<and> length (sent (sa_conn (ts_amqp st'))) = 1 \<and> rGET ref_redis 0 (nonce_key ''n'') (ts_rdb st') = Some (Str ''1'')"
proof -
  obtain st' where r: "scheduleTick ref_redis demo_host Some 0 demo_tick_env (demo_db 3 20 0)
      (demo_registry [''a'']) demo_tick_state = (st', Inr ())"
    using demo_tick_sent by blast
  have e: "\<forall>pk \<in> set (te_assigned demo_tick_env). pe_first (de_publish (te_dispatch demo_tick_env pk)) = Delivered"
    "\<forall>pk \<in> set (te_assigned demo_tick_env). de_set (te_dispatch demo_tick_env pk) = Delivered"
    "inj_on (\<lambda>pk. de_nonce (te_dispatch demo_tick_env pk)) (set (te_assigned demo_tick_env))"
    "de_nonce (te_dispatch demo_tick_env pk) = ''n''" "de_time (te_dispatch demo_tick_env pk) = 0" for pk
    by (simp_all add: demo_tick_env_def)
  note p = tick_publishes_assignments [OF ref_server demo_selectors(4) demo_tick_facts(3) list.distinct(2) demo_tick_facts(1) e(1-3)
      demo_selectors(6) demo_tick_facts(4,5) r]
  have "m_CheckIntervalSeconds demo_due = 60"
    by (simp add: demo_due_def demo_monitor_row_def scan_monitor_def Monitor.truncate_def)
  then have "0 < nonceTTL (m_CheckIntervalSeconds demo_due)" by (simp add: nonceTTL_def)
  moreover have "rGET ref_redis 0 (nonce_key ''n'') (ts_rdb st')
      = (if 0 < 0 + nonceTTL (m_CheckIntervalSeconds demo_due) then Some (Str ''1'') else None)"
    using p [THEN conjunct2, THEN conjunct2, THEN conjunct2, THEN conjunct2, rule_format, of "''a''" demo_due 0]
    unfolding e(4,5) by simp
  ultimately have "rGET ref_redis 0 (nonce_key ''n'') (ts_rdb st') = Some (Str ''1'')" by simp
  moreover have "length (sent (sa_conn (ts_amqp st'))) = 1"
    unfolding p [THEN conjunct1] by (simp add: demo_selectors demo_tick_state_def idle_amqp_def)
  ultimately show ?thesis using r by blast
qed

text \<open>
  A job's nonce outlives the job: after a tick the nonce of each dispatched job is accepted, at any
  moment before its time to live has passed and at none after; and the time to live, counted from any
  instant of the tick on, reaches beyond the expiry that the job carries.
\<close>
theorem job_nonce_outlives_job:
  assumes "redis_server R str zset"
    and "te_range te" "due_members R t st \<noteq> []" "ms \<noteq> []" "map_order (te_assigned te) asg"
    and "inj_on (\<lambda>pk. de_nonce (te_dispatch te pk)) (set (te_assigned te))"
    and "FindMany uuid_in (te_find te) (map (trim_prefix sched_prefix) (due_members R t st)) db = Inr ms"
    and "MatchBatch hostname (te_order te) t reg (ts_cursors st) ms = (cur, asg)"
    and "scheduleTick R hostname uuid_in t te db reg st = (st', r)"
    and "asg pk = Some m" "de_set (te_dispatch te pk) = Delivered" "de_nonce (te_dispatch te pk) \<noteq> []"
    and "t \<le> de_time (te_dispatch te pk)"
  shows "(snd (ValidateTaskNonce R Delivered t' (de_nonce (te_dispatch te pk)) (ts_rdb st')) = None
      \<longleftrightarrow> t' < de_time (te_dispatch te pk) + nonceTTL (m_CheckIntervalSeconds m))
    \<and> jp_ExpiresAt (job_payload (Unix t) (de_nonce (te_dispatch te pk)) pk m) * second
      \<le> de_time (te_dispatch te pk) + nonceTTL (m_CheckIntervalSeconds m)"
  using redis_server.tick_nonce [OF assms(1-12)] expiry_covered [OF assms(13), of "m_CheckIntervalSeconds m"]
  by (simp add: job_payload_def mult.commute)

theorem job_nonce_outlives_job_witness:
  "\<exists>st'. scheduleTick ref_redis demo_host Some 0 demo_tick_env (demo_db 3 20 0) (demo_registry [''a''])
       demo_tick_state = (st', Inr ())
     \<and> snd (ValidateTaskNonce ref_redis Delivered (14 * minute) ''n'' (ts_rdb st')) = None
     \<and> snd (ValidateTaskNonce ref_redis Delivered (15 * minute) ''n'' (ts_rdb st')) \<noteq> None"
proof -
  obtain st' where r: "scheduleTick ref_redis demo_host Some 0 demo_tick_env (demo_db 3 20 0)
      (demo_registry [''a'']) demo_tick_state = (st', Inr ())"
    using demo_tick_sent by blast
  have e: "de_nonce (te_dispatch demo_tick_env pk) = ''n''" "de_set (te_dispatch demo_tick_env pk) = Delivered"
    "de_time (te_dispatch demo_tick_env pk) = 0" for pk
    by (simp_all add: demo_tick_env_def)
  have inj: "inj_on (\<lambda>pk. de_nonce (te_dispatch demo_tick_env pk)) (set (te_assigned demo_tick_env))"
    by (simp add: demo_selectors)
  have "m_CheckIntervalSeconds demo_due = 60"
    by (simp add: demo_due_def demo_monitor_row_def scan_monitor_def Monitor.truncate_def)
  then have ttl: "nonceTTL (m_CheckIntervalSeconds demo_due) = 15 * minute" by (simp add: nonceTTL_def)
  have "snd (ValidateTaskNonce ref_redis Delivered t' ''n'' (ts_rdb st')) = None \<longleftrightarrow> t' < 15 * minute" for t'
    using job_nonce_outlives_job [OF ref_server demo_selectors(4) demo_tick_facts(3) _ demo_tick_facts(1) inj
        demo_tick_facts(4,5) r, of "''a''" demo_due t'] by (simp add: e ttl)
  note iff = this
  have "snd (ValidateTaskNonce ref_redis Delivered (14 * minute) ''n'' (ts_rdb st')) = None"
    unfolding iff by simp
  moreover have "snd (ValidateTaskNonce ref_redis Delivered (15 * minute) ''n'' (ts_rdb st')) \<noteq> None"
    unfolding iff by simp
  ultimately show ?thesis using r by blast
qed

subsection \<open>Seeding\<close>

context redis_server begin

lemma seed_scores:
  assumes "\<forall>i. fates i = Delivered"
  shows "zset (fold (\<lambda>m s. fst (remote (fates (m_ID m))
      (\<lambda>s. (rZADDNX R due_key (Unix (clock (m_ID m))) (sched_member (m_ID m)) s, ())) s)) ms s) due_key k =
    (case zset s due_key k of
       Some x \<Rightarrow> Some x
     | None \<Rightarrow> if \<exists>m \<in> set ms. k = sched_member (m_ID m)
        then Some (Unix (clock (trim_prefix sched_prefix k))) else None)"
  using assms by (induction ms arbitrary: s) (auto simp: redis_simps split: option.splits)

end

text \<open>
  Seeding is complete and harmless: with Redis up, afterwards every eligible monitor is in the
  set, a score that was there is unchanged, and nothing is added but eligible monitors.
\<close>
theorem seeding_complete:
  assumes "redis_server R str zset" "\<forall>i. fates i = Delivered"
    and "SyncSchedulerState R True fates clock db s = (s', r)"
  shows "r = Inr ()
    \<and> (\<forall>m. eligible db m \<longrightarrow> zset s' due_key (sched_member (m_ID m)) \<noteq> None)
    \<and> (\<forall>k x. zset s due_key k = Some x \<longrightarrow> zset s' due_key k = Some x)
    \<and> (\<forall>k. zset s due_key k = None \<and> zset s' due_key k \<noteq> None
          \<longrightarrow> (\<exists>m. eligible db m \<and> k = sched_member (m_ID m)))"
proof -
  obtain ms where ms: "FindActive True db = Inr ms" by (simp add: FindActive_def)
  note el = FindActive_Inr [OF ms]
  have s': "s' = fold (\<lambda>m s. fst (remote (fates (m_ID m))
      (\<lambda>s. (rZADDNX R due_key (Unix (clock (m_ID m))) (sched_member (m_ID m)) s, ())) s)) ms s"
    and r: "r = Inr ()"
    using assms(2,3) by (simp_all add: SyncSchedulerState_def ms list_all_iff del: remote_simps)
  note sc = redis_server.seed_scores [OF assms(1,2), of clock ms s, folded s']
  show ?thesis
    unfolding sc using el r by (auto split: option.splits)
qed

theorem seeding_complete_witness:
  "\<exists>s'. SyncSchedulerState ref_redis True (\<lambda>_. Delivered) (\<lambda>_. 5 * second) (demo_db 3 20 0) ref_empty = (s', Inr ())
     \<and> ref_zset s' due_key (sched_member ''m'') \<noteq> None"
proof -
  obtain s' r where r:
    "SyncSchedulerState ref_redis True (\<lambda>_. Delivered) (\<lambda>_. 5 * second) (demo_db 3 20 0) ref_empty = (s', r)"
    by (rule prod.exhaust)
  have "eligible (demo_db 3 20 0) demo_due"
    by (simp add: eligible_def demo_db_def demo_due_def owner_has_credit_def demo_monitor_row_def demo_user_def)
  moreover have "m_ID demo_due = ''m''" by (simp add: demo_due_def demo_monitor_row_def)
  ultimately show ?thesis using seeding_complete [OF ref_server _ r] r by force
qed

end
