(* ===== verification/PingLogs.thy ===== *)
theory PingLogs
  imports Settlement "HOL-Library.Multiset"
begin

text \<open>
  The ping logs: \<^verbatim>\<open>db/repositories/ping_log.go\<close>, the service \<^verbatim>\<open>services/ping_log_service.go\<close> that
  settles a packet of results and logs them, and the consumer of \<^verbatim>\<open>workers/result_processor.go\<close>
  that feeds it from \<^verbatim>\<open>processing_queue\<close>.
\<close>

subsection \<open>ping_log.go\<close>

text \<open>
  Why a row is refused: \<^verbatim>\<open>monitor_id\<close> is a \<^verbatim>\<open>UUID\<close>, \<^verbatim>\<open>runner_pubkey\<close> a \<^verbatim>\<open>VARCHAR(128)\<close>, an unsigned duration is sent
  to a signed \<^verbatim>\<open>BIGINT\<close>, \<^verbatim>\<open>status_code\<close> is an \<^verbatim>\<open>INT\<close>, and some partition must hold the timestamp.
\<close>

definition bigint_ok :: "u64 \<Rightarrow> bool" where
  "bigint_ok w \<longleftrightarrow> unat w < 2 ^ 63"

definition in_partition :: "(instant \<times> instant) list \<Rightarrow> instant \<Rightarrow> bool" where
  "in_partition parts t \<longleftrightarrow> list_ex (\<lambda>(a, b). a \<le> t \<and> t < b) parts"

definition row_error :: "(string \<Rightarrow> string option) \<Rightarrow> db \<Rightarrow> PingLog \<Rightarrow> db_error option" where
  "row_error uuid_in db l =
     (if uuid_in (p_MonitorID l) = None then Some BadUUID
      else if \<not> list_all bigint_ok [p_DnsUs l, p_TcpUs l, p_TlsUs l, p_TtfbUs l, p_TotalUs l]
      then Some OutOfRange
      else if \<not> int4 (p_StatusCode l) then Some OutOfRange
      else if 128 < length (p_RunnerPubkey l) then Some TooLong
      else if \<not> in_partition (t_partitions db) (p_Timestamp l) then Some NoPartition
      else None)"

definition BulkInsert ::
  "(string \<Rightarrow> string option) \<Rightarrow> fate \<Rightarrow> PingLog list \<Rightarrow> db \<Rightarrow> db \<times> (db_error + unit)" where
  "BulkInsert uuid_in f logs db =
     (if logs = [] then (db, Inr ())
      else
        (case List.map_filter (row_error uuid_in db) logs of
           e # _ \<Rightarrow> (db, Inl e)
         | [] \<Rightarrow> exec f (\<lambda>db. db\<lparr>t_ping_logs := t_ping_logs db @
                    map (\<lambda>(i, l). l\<lparr>p_ID := t_ping_seq db + int i,
                                    p_MonitorID := the (uuid_in (p_MonitorID l))\<rparr>)
                      (enumerate 0 logs),
                  t_ping_seq := t_ping_seq db + int (length logs)\<rparr>) db))"

definition FindByMonitor ::
  "(string \<Rightarrow> string option) \<Rightarrow> bool \<Rightarrow> string \<Rightarrow> int \<Rightarrow> db \<Rightarrow> db_error + PingLog list" where
  "FindByMonitor uuid_in up monitorID limit db = query up
     (case uuid_in monitorID of
        None \<Rightarrow> Inl BadUUID
      | Some c \<Rightarrow>
          (if limit < 0 then Inl OutOfRange
           else Inr (map (\<lambda>l. l\<lparr>p_TimestampMs := 0\<rparr>)
             (take (nat limit)
               (sort_key (\<lambda>l. - p_Timestamp l)
                 (filter (\<lambda>l. p_MonitorID l = c) (t_ping_logs db)))))))"

definition UptimePercentage ::
  "(string \<Rightarrow> string option) \<Rightarrow> bool \<Rightarrow> string \<Rightarrow> instant \<Rightarrow> db \<Rightarrow> db_error + rat" where
  "UptimePercentage uuid_in up monitorID since db = query up
     (case uuid_in monitorID of
        None \<Rightarrow> Inl BadUUID
      | Some c \<Rightarrow>
          (let rows = filter (\<lambda>l. p_MonitorID l = c \<and> p_Timestamp l \<ge> since) (t_ping_logs db)
           in Inr (if rows = [] then 0
                   else 100 * of_nat (length (filter p_Success rows)) / of_nat (length rows))))"

text \<open>\<^verbatim>\<open>AVG\<close> cast to \<^verbatim>\<open>bigint\<close> rounds half up on these non-negative values.\<close>

definition AvgLatencyUs ::
  "(string \<Rightarrow> string option) \<Rightarrow> bool \<Rightarrow> string \<Rightarrow> instant \<Rightarrow> db \<Rightarrow> db_error + u64" where
  "AvgLatencyUs uuid_in up monitorID since db = query up
     (case uuid_in monitorID of
        None \<Rightarrow> Inl BadUUID
      | Some c \<Rightarrow>
          (let us = map (unat \<circ> p_TotalUs)
                 (filter (\<lambda>l. p_MonitorID l = c \<and> p_Timestamp l \<ge> since \<and> p_Success l) (t_ping_logs db))
           in Inr (if us = [] then 0 else word_of_nat ((2 * sum_list us + length us) div (2 * length us)))))"

subsection \<open>ping_log_service.go\<close>

definition build_log :: "instant \<Rightarrow> pubkey \<Rightarrow> PingResultItem \<Rightarrow> PingLog" where
  "build_log now runner r =
     \<lparr>p_ID = 0, p_MonitorID = pr_MonitorID r, p_RunnerPubkey = runner,
      p_DnsUs = pr_DnsUs r, p_TcpUs = pr_TcpUs r, p_TlsUs = pr_TlsUs r, p_TtfbUs = pr_TtfbUs r,
      p_TotalUs = pr_TotalUs r, p_LatencyMs = 0, p_StatusCode = pr_StatusCode r,
      p_Success = pr_Success r, p_ErrorKind = [], p_GeoRegion = [], p_Latitude = 0, p_Longitude = 0,
      p_Timestamp = (if 0 < sint (pr_TimestampMs r) then sint (pr_TimestampMs r) * 1000000 else now),
      p_TimestampMs = sint (pr_TimestampMs r)\<rparr>"

text \<open>
  \<open>env i\<close> is what the settlement of the \<open>i\<close>-th result of the packet meets: the event id and the
  time the server would use, and the network.
\<close>

definition packet_jobs ::
  "(nat \<Rightarrow> string \<times> instant \<times> tx_net) \<Rightarrow> ResultPacket \<Rightarrow> (settle_job \<times> PingResultItem) list" where
  "packet_jobs env packet =
     map (\<lambda>(i, r). (\<lparr>j_uuid = fst (env i), j_now = fst (snd (env i)), j_net = snd (snd (env i)),
                     j_monitor = pr_MonitorID r, j_runner = rp_RunnerPubkey packet\<rparr>, r))
       (filter (\<lambda>(i, r). pr_MonitorID r \<noteq> []) (enumerate 0 (rp_Results packet)))"

definition settle_result ::
  "(string \<Rightarrow> string option) \<Rightarrow> rat \<Rightarrow> settle_job \<times> PingResultItem \<Rightarrow> db \<Rightarrow>
   db \<times> (db_error + ProcessJobSettlementResponse)" where
  "settle_result uuid_in threshold jr = settle_job uuid_in threshold (fst jr)"

definition ProcessPacket ::
  "(string \<Rightarrow> string option) \<Rightarrow> rat \<Rightarrow> instant \<Rightarrow> (nat \<Rightarrow> string \<times> instant \<times> tx_net) \<Rightarrow> fate \<Rightarrow>
   ResultPacket \<Rightarrow> db \<Rightarrow> db \<times> (db_error + rat)" where
  "ProcessPacket uuid_in threshold now env f packet db =
     (let (db', ok) = settle_all (settle_result uuid_in threshold) (packet_jobs env packet) db;
          logs = map (\<lambda>(j, r). build_log now (rp_RunnerPubkey packet) r) ok
      in if logs = [] then (db', Inr 0)
         else
           (case BulkInsert uuid_in f logs db' of
              (db'', Inl e) \<Rightarrow> (db'', Inl e)
            | (db'', Inr _) \<Rightarrow> (db'', Inr 0)))"

definition MarshalResultPacket :: "pubkey \<Rightarrow> string \<Rightarrow> PingResultItem list \<Rightarrow> ResultPacket" where
  "MarshalResultPacket runner signature results =
     \<lparr>rp_NodeId = [], rp_RunnerPubkey = runner, rp_Signature = signature, rp_Results = results\<rparr>"

subsection \<open>result_processor.go\<close>

text \<open>
  One delivery of \<^verbatim>\<open>processing_queue\<close>. \<open>decode\<close> is \<^verbatim>\<open>json.Unmarshal\<close> into a \<^verbatim>\<open>ResultPacket\<close>.
\<close>

datatype ack = Ack | NackDrop | NackRequeue

record consume_env =
  ce_now :: instant
  ce_settle :: "nat \<Rightarrow> string \<times> instant \<times> tx_net"
  ce_insert :: fate

definition handle_delivery ::
  "('b \<Rightarrow> ResultPacket option) \<Rightarrow> (string \<Rightarrow> string option) \<Rightarrow> rat \<Rightarrow> consume_env \<Rightarrow> 'b \<Rightarrow> db \<Rightarrow>
   db \<times> ack" where
  "handle_delivery decode uuid_in threshold ce body db =
     (case decode body of
        None \<Rightarrow> (db, NackDrop)
      | Some packet \<Rightarrow>
          (case ProcessPacket uuid_in threshold (ce_now ce) (ce_settle ce) (ce_insert ce) packet db of
             (db', Inl _) \<Rightarrow> (db', NackRequeue)
           | (db', Inr _) \<Rightarrow> (db', Ack)))"

text \<open>
  The queue as the consumer sees it: the messages that wait at the broker, those delivered to the worker that it has not taken
  yet, and those it has handled without its answer reaching the broker. The last two count as unacknowledged.
\<close>

record 'b consumer =
  cs_ready :: "'b list"
  cs_buffer :: "'b list"
  cs_unsettled :: "'b list"

abbreviation unacked :: "'b consumer \<Rightarrow> 'b list" where
  "unacked c \<equiv> cs_unsettled c @ cs_buffer c"

text \<open>What one iteration meets: new messages, how far the broker got in pushing, and the way of the answer.\<close>

record 'b consume_iter =
  ci_arrive :: "'b list"
  ci_push :: nat
  ci_env :: consume_env
  ci_reached :: bool
  ci_slot :: nat

text \<open>The broker pushes at most as many messages as the prefetch count of \<^verbatim>\<open>Qos\<close> leaves room for, where 0 is no limit.\<close>

definition push_deliveries :: "nat \<Rightarrow> nat \<Rightarrow> 'b consumer \<Rightarrow> 'b consumer" where
  "push_deliveries prefetch n c =
     (let k = (if prefetch = 0 then n else min n (prefetch - length (unacked c)))
      in c\<lparr>cs_ready := drop k (cs_ready c), cs_buffer := cs_buffer c @ take k (cs_ready c)\<rparr>)"

definition insert_at :: "nat \<Rightarrow> 'b \<Rightarrow> 'b list \<Rightarrow> 'b list" where
  "insert_at i b q = take i q @ b # drop i q"

definition answer_delivery :: "bool \<Rightarrow> nat \<Rightarrow> ack \<Rightarrow> 'b \<Rightarrow> 'b consumer \<Rightarrow> 'b consumer" where
  "answer_delivery reached slot a b c =
     (if \<not> reached then c\<lparr>cs_unsettled := cs_unsettled c @ [b]\<rparr>
      else if a = NackRequeue then c\<lparr>cs_ready := insert_at slot b (cs_ready c)\<rparr>
      else c)"

text \<open>
  One iteration of \<^verbatim>\<open>runConsumeLoop\<close> takes the next message delivered and answers it; it waits while there is none. A
  message refused with requeue goes back among the waiting ones, behind those already delivered.
\<close>

definition consume_next ::
  "('b \<Rightarrow> ResultPacket option) \<Rightarrow> (string \<Rightarrow> string option) \<Rightarrow> rat \<Rightarrow> nat \<Rightarrow> 'b consume_iter \<Rightarrow>
   db \<times> 'b consumer \<Rightarrow> db \<times> 'b consumer" where
  "consume_next decode uuid_in threshold prefetch it st =
     (let db = fst st;
          c = push_deliveries prefetch (ci_push it) ((snd st)\<lparr>cs_ready := cs_ready (snd st) @ ci_arrive it\<rparr>)
      in case cs_buffer c of
           [] \<Rightarrow> (db, c)
         | b # rest \<Rightarrow>
             (let (db', a) = handle_delivery decode uuid_in threshold (ci_env it) b db
              in (db', answer_delivery (ci_reached it) (ci_slot it) a b (c\<lparr>cs_buffer := rest\<rparr>))))"


text \<open>All the messages of the queue, and the effect of each part of an iteration on them.\<close>

definition in_queue :: "'b consumer \<Rightarrow> 'b multiset" where
  "in_queue c = mset (cs_ready c) + mset (cs_buffer c) + mset (cs_unsettled c)"

lemma mset_insert_at [simp]: "mset (insert_at i b q) = add_mset b (mset q)"
  unfolding insert_at_def by (metis append_take_drop_id mset.simps(2) mset_append union_mset_add_mset_right)

lemma mset_take_drop: "mset (drop k q) + mset (take k q) = mset q"
  by (metis add.commute append_take_drop_id mset_append)

lemma in_queue_push [simp]: "in_queue (push_deliveries prefetch n c) = in_queue c"
  unfolding in_queue_def push_deliveries_def Let_def
  by (simp add: mset_take_drop)

lemma in_queue_arrive [simp]: "in_queue (c\<lparr>cs_ready := cs_ready c @ new\<rparr>) = in_queue c + mset new"
  by (simp add: in_queue_def add_ac)

text \<open>Whether a message handled this way is gone from the queue.\<close>

abbreviation gone :: "bool \<Rightarrow> ack \<Rightarrow> bool" where
  "gone reached a \<equiv> reached \<and> a \<noteq> NackRequeue"

lemma in_queue_answer [simp]:
  "cs_buffer c = b # rest \<Longrightarrow>
     in_queue (answer_delivery reached slot a b (c\<lparr>cs_buffer := rest\<rparr>))
       = (if gone reached a then in_queue c - {#b#} else in_queue c)"
  by (simp add: in_queue_def answer_delivery_def add_ac)

text \<open>An iteration waited, or it handled one message of the queue.\<close>

lemma consume_next_cases:
  assumes "consume_next decode uuid_in threshold prefetch it (db, c) = (db', c')"
  obtains (waited) "db' = db" "in_queue c' = in_queue c + mset (ci_arrive it)"
  | (handled) b a where "b \<in># in_queue c + mset (ci_arrive it)"
      "handle_delivery decode uuid_in threshold (ci_env it) b db = (db', a)"
      "in_queue c' = (if gone (ci_reached it) a then in_queue c + mset (ci_arrive it) - {#b#}
                      else in_queue c + mset (ci_arrive it))"
proof -
  let ?c = "push_deliveries prefetch (ci_push it) (c\<lparr>cs_ready := cs_ready c @ ci_arrive it\<rparr>)"
  have q: "in_queue ?c = in_queue c + mset (ci_arrive it)" by simp
  show thesis
  proof (cases "cs_buffer ?c")
    case Nil
    with assms have "db' = db" "c' = ?c" by (simp_all add: consume_next_def Let_def)
    with q waited show thesis by simp
  next
    case (Cons b rest)
    obtain a where "handle_delivery decode uuid_in threshold (ci_env it) b db = (db', a)"
      "c' = answer_delivery (ci_reached it) (ci_slot it) a b (?c\<lparr>cs_buffer := rest\<rparr>)"
      using assms Cons by (auto simp: consume_next_def Let_def split: prod.splits)
    moreover have "b \<in># in_queue ?c" by (simp add: in_queue_def Cons)
    ultimately show thesis using handled in_queue_answer [OF Cons] q by simp
  qed
qed

subsection \<open>A packet's settlements keep the contract\<close>

interpretation packet: settlement "settle_result uuid_in threshold" wf_db credits account_worth
  "\<lambda>jr. net_commit (j_net (fst jr)) \<noteq> ReplyLost" for uuid_in threshold
  by unfold_locales
     (auto simp: settle_result_def settled.keep settled.worth
       dest: settled.charge settled.charge_error settled.charge_lossless credits_nonneg)

lemma settle_all_frame:
  "wf_db db \<Longrightarrow>
     t_ping_logs (fst (settle_all (settle_result uuid_in threshold) js db)) = t_ping_logs db
     \<and> t_partitions (fst (settle_all (settle_result uuid_in threshold) js db)) = t_partitions db"
proof (induction js arbitrary: db)
  case (Cons j js)
  have "wf_db (fst (settle_result uuid_in threshold j db))" by (rule packet.keep [OF Cons.prems])
  from Cons.IH [OF this] settle_job_frame [OF Cons.prems, of uuid_in threshold "fst j"]
  show ?case unfolding fst_settle_all settle_result_def by simp
qed simp

text \<open>No settlement of the packet lost the reply of its commit.\<close>

definition lossless :: "(nat \<Rightarrow> string \<times> instant \<times> tx_net) \<Rightarrow> bool" where
  "lossless env \<longleftrightarrow> (\<forall>i. net_commit (snd (snd (env i))) \<noteq> ReplyLost)"

lemma packet_jobs_lossless:
  "lossless env \<Longrightarrow> \<forall>jr \<in> set (packet_jobs env packet). net_commit (j_net (fst jr)) \<noteq> ReplyLost"
  by (auto simp: packet_jobs_def lossless_def)

lemma packet_jobs_results:
  "(j, r) \<in> set (packet_jobs env packet) \<Longrightarrow> r \<in> set (rp_Results packet) \<and> pr_MonitorID r \<noteq> []"
  by (auto simp: packet_jobs_def in_set_enumerate_eq)

text \<open>The first half of \<^const>\<open>ProcessPacket\<close>: the settlements are over and their logs are built.\<close>

lemma ProcessPacket_split:
  assumes "wf_db db" "lossless env"
  obtains db1 logs where
    "ProcessPacket uuid_in threshold now env f packet db =
       (case BulkInsert uuid_in f logs db1 of (db2, Inl e) \<Rightarrow> (db2, Inl e) | (db2, Inr _) \<Rightarrow> (db2, Inr 0))"
    "wf_db db1" "int (length logs) = credits db - credits db1" "t_ping_logs db1 = t_ping_logs db"
    "t_partitions db1 = t_partitions db" "\<And>pk. account_worth pk db1 = account_worth pk db"
    "\<forall>l \<in> set logs. \<exists>r \<in> set (rp_Results packet). pr_MonitorID r \<noteq> []
        \<and> l = build_log now (rp_RunnerPubkey packet) r"
proof -
  obtain db1 ok where s: "settle_all (settle_result uuid_in threshold) (packet_jobs env packet) db = (db1, ok)"
    by fastforce
  let ?logs = "map (\<lambda>(j, r). build_log now (rp_RunnerPubkey packet) r) ok"
  show ?thesis
  proof (rule that [of ?logs db1])
    show "ProcessPacket uuid_in threshold now env f packet db =
        (case BulkInsert uuid_in f ?logs db1 of (db2, Inl e) \<Rightarrow> (db2, Inl e) | (db2, Inr _) \<Rightarrow> (db2, Inr 0))"
      by (simp add: ProcessPacket_def s BulkInsert_def)
    show "wf_db db1" using packet.all_keep [OF assms(1)] s by (metis fst_conv)
    show "int (length ?logs) = credits db - credits db1"
      using packet.all_charge_lossless [OF assms(1) packet_jobs_lossless [OF assms(2)] s] by simp
    show "t_ping_logs db1 = t_ping_logs db" "t_partitions db1 = t_partitions db"
      using settle_all_frame [OF assms(1)] s by (metis fst_conv)+
    show "account_worth pk db1 = account_worth pk db" for pk
      using packet.all_worth [OF assms(1)] s by (metis fst_conv)
    show "\<forall>l \<in> set ?logs. \<exists>r \<in> set (rp_Results packet). pr_MonitorID r \<noteq> []
        \<and> l = build_log now (rp_RunnerPubkey packet) r"
      using packet.all_subseq [OF s] packet_jobs_results by fastforce
  qed
qed

lemma BulkInsert_error:
  "BulkInsert uuid_in f logs db = (db', Inl e) \<Longrightarrow>
     logs \<noteq> [] \<and> (f = ReplyLost \<or> db' = db)"
  by (cases f) (auto simp: BulkInsert_def split: if_splits list.splits)

lemma BulkInsert_Inr:
  "BulkInsert uuid_in f logs db = (db', Inr x) \<Longrightarrow>
     credits db' = credits db \<and> (\<exists>new. t_ping_logs db' = t_ping_logs db @ new \<and> length new = length logs
       \<and> map p_RunnerPubkey new = map p_RunnerPubkey logs \<and> map p_TotalUs new = map p_TotalUs logs)"
  by (auto simp: BulkInsert_def credits_def o_def case_prod_beta enumerate_eq_zip
      split: if_splits list.splits intro!: nth_equalityI)


subsection \<open>Properties\<close>

lemma ProcessPacket_charges:
  assumes "wf_db db" "lossless env"
    and "ProcessPacket uuid_in threshold now env f packet db = (db', Inl e)" "f \<noteq> ReplyLost"
  shows "t_ping_logs db' = t_ping_logs db \<and> credits db' < credits db \<and> wf_db db'
    \<and> t_partitions db' = t_partitions db"
proof -
  obtain db1 logs where
    s: "ProcessPacket uuid_in threshold now env f packet db =
       (case BulkInsert uuid_in f logs db1 of (db2, Inl e) \<Rightarrow> (db2, Inl e) | (db2, Inr _) \<Rightarrow> (db2, Inr 0))"
    "wf_db db1" "int (length logs) = credits db - credits db1" "t_ping_logs db1 = t_ping_logs db"
    "t_partitions db1 = t_partitions db"
    by (rule ProcessPacket_split [OF assms(1,2)])
  from assms(3) have "BulkInsert uuid_in f logs db1 = (db', Inl e)"
    by (auto simp: s(1) split: prod.splits sum.splits)
  from BulkInsert_error [OF this] assms(4) have eq: "db' = db1" and ne: "logs \<noteq> []" by blast+
  from ne have "0 < int (length logs)" by simp
  with s(2-5) show ?thesis unfolding eq by linarith
qed

definition demo_result :: "string \<Rightarrow> int \<Rightarrow> PingResultItem" where
  "demo_result m ts = \<lparr>pr_JobID = ''j'', pr_BatchID = [], pr_NodeID = ''r'', pr_TargetURL = ''http://x'',
     pr_Success = True, pr_StatusCode = 200, pr_DnsUs = 1, pr_TcpUs = 2, pr_TlsUs = 3, pr_TtfbUs = 4,
     pr_TotalUs = 10, pr_LatencyMs = 0, pr_TaskNonce = ''n'', pr_ErrorKind = [], pr_ErrorMsg = [],
     pr_MonitorID = m, pr_GeoRegion = [], pr_TimestampMs = word_of_int ts, pr_Latitude = 0,
     pr_Longitude = 0\<rparr>"

definition demo_packet :: "int \<Rightarrow> ResultPacket" where
  "demo_packet ts = MarshalResultPacket ''r'' ''s'' [demo_result ''m'' ts, demo_result [] ts]"

definition demo_env :: "nat \<Rightarrow> string \<times> instant \<times> tx_net" where
  "demo_env i = (''e'', 0, net_up)"

definition demo_db_parts :: "int \<Rightarrow> db" where
  "demo_db_parts c = (demo_db c 20 0)\<lparr>t_partitions := [(0, 1000000000000)]\<rparr>"

lemma demo_env_lossless: "lossless demo_env"
  by (simp add: lossless_def demo_env_def net_up_def)

lemma wf_demo_db_parts: "0 \<le> c \<Longrightarrow> wf_db (demo_db_parts c)"
  by (simp add: wf_db_def demo_db_parts_def demo_db_def demo_user_def demo_monitor_row_def demo_runner_def)

lemmas demo_process = ProcessPacket_def packet_jobs_def demo_packet_def MarshalResultPacket_def
  demo_result_def demo_env_def settle_result_def settle_job_def demo_db_parts_def demo_settlement
  BulkInsert_def build_log_def row_error_def bigint_ok_def in_partition_def int4_def

text \<open>
  Accounting of a packet: when a packet is processed without error, and no commit reply was
  lost, the logs stored are as many as the credits taken, each of the packet's runner, and no
  account's earnings are lost or doubled.
\<close>
theorem packet_accounting:
  assumes "wf_db db" "lossless env"
    and "ProcessPacket uuid_in threshold now env f packet db = (db', Inr x)"
  shows "\<exists>new. t_ping_logs db' = t_ping_logs db @ new \<and> int (length new) = credits db - credits db'
    \<and> (\<forall>l \<in> set new. p_RunnerPubkey l = rp_RunnerPubkey packet)
    \<and> length new \<le> length (rp_Results packet)"
proof -
  obtain db1 ok where s: "settle_all (settle_result uuid_in threshold) (packet_jobs env packet) db = (db1, ok)"
    by fastforce
  let ?logs = "map (\<lambda>(j, r). build_log now (rp_RunnerPubkey packet) r) ok"
  have "wf_db db1" using packet.all_keep [OF assms(1)] s by (metis fst_conv)
  have l1: "t_ping_logs db1 = t_ping_logs db" using settle_all_frame [OF assms(1)] s by (metis fst_conv)
  have n: "int (length ok) = credits db - credits db1"
    using packet.all_charge_lossless [OF assms(1) packet_jobs_lossless [OF assms(2)] s] .
  have "int (length ok) \<le> int (length (packet_jobs env packet))"
    using packet.all_charge [OF assms(1) s] n by simp
  also have "\<dots> \<le> int (length (rp_Results packet))"
    by (simp add: packet_jobs_def) (metis length_enumerate length_filter_le)
  finally have le: "length ok \<le> length (rp_Results packet)" by simp
  from assms(3) have "BulkInsert uuid_in f ?logs db1 = (db', Inr ())"
    by (auto simp: ProcessPacket_def s BulkInsert_def split: if_splits prod.splits sum.splits)
  from BulkInsert_Inr [OF this] obtain new where
    new: "credits db' = credits db1" "t_ping_logs db' = t_ping_logs db1 @ new" "length new = length ?logs"
    "map p_RunnerPubkey new = map p_RunnerPubkey ?logs" by blast
  have "p_RunnerPubkey l = rp_RunnerPubkey packet" if "l \<in> set new" for l
  proof -
    have "p_RunnerPubkey l \<in> set (map p_RunnerPubkey ?logs)"       using that new(4) by (metis image_eqI set_map)
    then show ?thesis by (auto simp: build_log_def)
  qed
  with new n l1 le show ?thesis by auto
qed

theorem packet_accounting_witness:
  "\<exists>db'. ProcessPacket Some 1 0 demo_env Delivered (demo_packet 5) (demo_db_parts 3) = (db', Inr 0)
     \<and> length (t_ping_logs db') = nat (3 - credits db')"
proof -
  have "\<exists>db'. ProcessPacket Some 1 0 demo_env Delivered (demo_packet 5) (demo_db_parts 3) = (db', Inr 0)"
    by (simp add: demo_process new_reward_stake numeric_12_4_def round4_def map_filter_simps)
  then obtain db' where
    r: "ProcessPacket Some 1 0 demo_env Delivered (demo_packet 5) (demo_db_parts 3) = (db', Inr 0)" by blast
  have "t_ping_logs (demo_db_parts 3) = []" "credits (demo_db_parts 3) = 3"
    by (simp_all add: demo_db_parts_def demo_db_def demo_user_def credits_def)
  with packet_accounting [OF wf_demo_db_parts demo_env_lossless r] r show ?thesis by fastforce
qed

text \<open>
  A packet is not settled atomically: whenever \<^const>\<open>ProcessPacket\<close> reports an error, it stored no log,
  and yet the settlements that ran before the failing insert stay committed, so that at least one
  credit was charged.
\<close>
theorem failed_packet_charges:
  assumes "wf_db db" "lossless env"
    and "ProcessPacket uuid_in threshold now env f packet db = (db', Inl e)" "f \<noteq> ReplyLost"
  shows "t_ping_logs db' = t_ping_logs db \<and> credits db' < credits db"
  using ProcessPacket_charges [OF assms] by simp

theorem failed_packet_charges_witness:
  "\<exists>db'. ProcessPacket Some 1 0 demo_env Delivered (demo_packet 2000000) (demo_db_parts 3) = (db', Inl NoPartition)
     \<and> t_ping_logs db' = [] \<and> credits db' < 3"
proof -
  have "\<exists>db'. ProcessPacket Some 1 0 demo_env Delivered (demo_packet 2000000) (demo_db_parts 3) = (db', Inl NoPartition)"
    by (simp add: demo_process new_reward_stake numeric_12_4_def round4_def map_filter_simps)
  then obtain db' where
    r: "ProcessPacket Some 1 0 demo_env Delivered (demo_packet 2000000) (demo_db_parts 3) = (db', Inl NoPartition)"
    by blast
  have "t_ping_logs (demo_db_parts 3) = []" "credits (demo_db_parts 3) = 3"
    by (simp_all add: demo_db_parts_def demo_db_def demo_user_def credits_def)
  with failed_packet_charges [OF wf_demo_db_parts demo_env_lossless r] r show ?thesis by fastforce
qed











text \<open>The rounded mean lies between the bounds of the values.\<close>

lemma mean_bounds:
  fixes us :: "nat list"
  assumes "\<forall>u \<in> set us. lo \<le> u \<and> u \<le> hi" "us \<noteq> []"
  shows "lo \<le> (2 * sum_list us + length us) div (2 * length us)
    \<and> (2 * sum_list us + length us) div (2 * length us) \<le> hi"
proof -
  have "length us * lo \<le> sum_list us \<and> sum_list us \<le> length us * hi"
    using assms(1) by (induction us) auto
  moreover obtain n where n: "length us = n" by blast
  ultimately have b: "lo * n \<le> sum_list us" "sum_list us \<le> hi * n"
    by (simp_all add: mult.commute)
  have L: "0 < n" using assms(2) n by auto
  have "lo * (2 * n) \<le> 2 * sum_list us + n" using b(1) by simp
  moreover have "2 * sum_list us + n < Suc hi * (2 * n)" using b(2) L by simp
  ultimately have "lo \<le> (2 * sum_list us + n) div (2 * n)" "(2 * sum_list us + n) div (2 * n) < Suc hi"
    using L by (simp_all only: less_eq_div_iff_mult_less_eq div_less_iff_less_mult nat_0_less_mult_iff pos2)
  then show ?thesis unfolding n by simp
qed

text \<open>
  The history of a monitor: at most \<open>limit\<close> logs, all of that monitor, newest first, and no
  log left out is newer than one returned.
\<close>
theorem FindByMonitor_newest:
  assumes "FindByMonitor uuid_in True m limit db = Inr logs" "uuid_in m = Some c"
  shows "length logs \<le> nat limit \<and> (\<forall>l \<in> set logs. p_MonitorID l = c)
    \<and> sorted (rev (map p_Timestamp logs))
    \<and> (\<forall>l \<in> set logs. \<forall>x \<in> set (t_ping_logs db).
         p_MonitorID x = c \<and> p_Timestamp l < p_Timestamp x \<longrightarrow> x\<lparr>p_TimestampMs := 0\<rparr> \<in> set logs)"
proof -
  let ?s = "sort_key (\<lambda>l. - p_Timestamp l) (filter (\<lambda>l. p_MonitorID l = c) (t_ping_logs db))"
  let ?g = "\<lambda>l :: PingLog. l\<lparr>p_TimestampMs := 0\<rparr>"
  let ?n = "nat limit"
  have logs: "logs = map ?g (take ?n ?s)"
    using assms by (auto simp: FindByMonitor_def split: if_splits)
  have sorted: "sorted (map (\<lambda>l. - p_Timestamp l) (take ?n ?s @ drop ?n ?s))" by simp
  have ts: "map p_Timestamp logs = map p_Timestamp (take ?n ?s)" by (simp add: logs)
  have "sorted (rev (map p_Timestamp (take ?n ?s)))"
    using sorted by (auto simp: sorted_append sorted_wrt_rev sorted_wrt_map)
  then have "sorted (rev (map p_Timestamp logs))" by (simp only: ts)
  moreover have "?g x \<in> set logs"
    if "l \<in> set logs" "x \<in> set (t_ping_logs db)" "p_MonitorID x = c" "p_Timestamp l < p_Timestamp x" for l x
  proof -
    from that(1) obtain l' where l': "l' \<in> set (take ?n ?s)" "p_Timestamp l' = p_Timestamp l"
      by (auto simp: logs)
    have "x \<in> set (take ?n ?s @ drop ?n ?s)" using that(2,3) by (simp del: set_append)
    moreover have "x \<notin> set (drop ?n ?s)"
      using sorted_map_append [OF sorted l'(1), of x] l'(2) that(4) by linarith
    ultimately have "x \<in> set (take ?n ?s)" by (metis Un_iff set_append)
    then show ?thesis unfolding logs by simp
  qed
  moreover have "p_MonitorID l = c" if "l \<in> set logs" for l
    using that by (auto simp: logs dest: in_set_takeD)
  moreover have "length logs \<le> ?n" by (simp add: logs)
  ultimately show ?thesis by blast
qed

theorem FindByMonitor_newest_witness:
  "\<exists>db'. ProcessPacket Some 1 0 demo_env Delivered (demo_packet 5) (demo_db_parts 3) = (db', Inr 0)
     \<and> (\<exists>logs. FindByMonitor Some True ''m'' 10 db' = Inr logs \<and> length logs \<le> 10)"
proof -
  have "\<exists>db'. ProcessPacket Some 1 0 demo_env Delivered (demo_packet 5) (demo_db_parts 3) = (db', Inr 0)"
    by (simp add: demo_process new_reward_stake numeric_12_4_def round4_def map_filter_simps)
  then obtain db' where
    r: "ProcessPacket Some 1 0 demo_env Delivered (demo_packet 5) (demo_db_parts 3) = (db', Inr 0)" by blast
  obtain logs where l: "FindByMonitor Some True ''m'' 10 db' = Inr logs"
    by (simp add: FindByMonitor_def)
  from FindByMonitor_newest [OF l] r l show ?thesis by auto
qed

text \<open>
  Statistics: the uptime is a percentage, 0 when there is no log and 100 exactly when there are
  logs and all are successes; the average latency lies between the least and the greatest total
  of the successful logs.
\<close>
theorem uptime_and_latency:
  assumes "uuid_in m = Some c"
    and "rows = filter (\<lambda>l. p_MonitorID l = c \<and> p_Timestamp l \<ge> since) (t_ping_logs db)"
    and "\<forall>l \<in> set (t_ping_logs db). bigint_ok (p_TotalUs l)"
    and "UptimePercentage uuid_in True m since db = Inr pct"
    and "AvgLatencyUs uuid_in True m since db = Inr avg"
  shows "0 \<le> pct \<and> pct \<le> 100
    \<and> (pct = 100 \<longleftrightarrow> rows \<noteq> [] \<and> (\<forall>l \<in> set rows. p_Success l))
    \<and> (\<forall>lo hi. (\<exists>l \<in> set rows. p_Success l)
         \<and> (\<forall>l \<in> set rows. p_Success l \<longrightarrow> lo \<le> unat (p_TotalUs l) \<and> unat (p_TotalUs l) \<le> hi)
         \<longrightarrow> lo \<le> unat avg \<and> unat avg \<le> hi)"
proof -
  let ?ok = "filter p_Success rows"
  let ?us = "map (unat \<circ> p_TotalUs) ?ok"
  have pct: "pct = (if rows = [] then 0 else 100 * of_nat (length ?ok) / of_nat (length rows))"
    using assms(1,2,4) by (auto simp: UptimePercentage_def Let_def)
  have "length ?ok \<le> length rows" by simp
  moreover have "length ?ok = length rows \<longleftrightarrow> (\<forall>l \<in> set rows. p_Success l)"
    by (metis filter_True length_filter_less less_irrefl)
  ultimately have p: "0 \<le> pct \<and> pct \<le> 100 \<and> (pct = 100 \<longleftrightarrow> rows \<noteq> [] \<and> (\<forall>l \<in> set rows. p_Success l))"
    by (auto simp: pct field_simps)
  have avg: "avg = (if ?us = [] then 0 else word_of_nat ((2 * sum_list ?us + length ?us) div (2 * length ?us)))"
    using assms(1,2,5) by (auto simp: AvgLatencyUs_def Let_def)
  have a: "lo \<le> unat avg \<and> unat avg \<le> hi"
    if "\<exists>l \<in> set rows. p_Success l"
      "\<forall>l \<in> set rows. p_Success l \<longrightarrow> lo \<le> unat (p_TotalUs l) \<and> unat (p_TotalUs l) \<le> hi" for lo hi
  proof -
    let ?q = "(2 * sum_list ?us + length ?us) div (2 * length ?us)"
    have us: "\<forall>u \<in> set ?us. lo \<le> u \<and> u \<le> min hi (2 ^ 63)" "?us \<noteq> []"
      using that assms(2,3) by (auto simp: bigint_ok_def filter_empty_conv)
    from us have q: "lo \<le> ?q \<and> ?q \<le> min hi (2 ^ 63)" using mean_bounds by blast
    then have "unat (word_of_nat ?q :: u64) = ?q" by (simp add: unsigned_of_nat take_bit_nat_eq_self_iff)
    with q us(2) show ?thesis by (simp add: avg)
  qed
  from p a show ?thesis by blast
qed

theorem uptime_and_latency_witness:
  "\<exists>pct avg. UptimePercentage Some True ''m'' 0
       ((demo_db_parts 3)\<lparr>t_ping_logs := [build_log 0 ''r'' (demo_result ''m'' 5)]\<rparr>) = Inr pct
     \<and> AvgLatencyUs Some True ''m'' 0
       ((demo_db_parts 3)\<lparr>t_ping_logs := [build_log 0 ''r'' (demo_result ''m'' 5)]\<rparr>) = Inr avg
     \<and> pct = 100 \<and> unat avg = 10"
proof -
  let ?l = "build_log 0 ''r'' (demo_result ''m'' 5)"
  let ?db = "(demo_db_parts 3)\<lparr>t_ping_logs := [?l]\<rparr>"
  obtain pct avg where r: "UptimePercentage Some True ''m'' 0 ?db = Inr pct"
    "AvgLatencyUs Some True ''m'' 0 ?db = Inr avg"
    by (auto simp: UptimePercentage_def AvgLatencyUs_def Let_def)
  have l: "p_MonitorID ?l = ''m''" "0 \<le> p_Timestamp ?l" "p_Success ?l" "unat (p_TotalUs ?l) = 10"
    by (simp_all add: build_log_def demo_result_def)
  have "\<forall>x \<in> set (t_ping_logs ?db). bigint_ok (p_TotalUs x)" by (simp add: l bigint_ok_def)
  moreover have "[?l] = filter (\<lambda>l. p_MonitorID l = ''m'' \<and> p_Timestamp l \<ge> 0) (t_ping_logs ?db)"
    by (simp add: l)
  ultimately have b: "(pct = 100 \<longleftrightarrow> [?l] \<noteq> [] \<and> (\<forall>l \<in> set [?l]. p_Success l))
    \<and> (\<forall>lo hi. (\<exists>l \<in> set [?l]. p_Success l)
         \<and> (\<forall>l \<in> set [?l]. p_Success l \<longrightarrow> lo \<le> unat (p_TotalUs l) \<and> unat (p_TotalUs l) \<le> hi)
         \<longrightarrow> lo \<le> unat avg \<and> unat avg \<le> hi)"
    using uptime_and_latency [where uuid_in = Some and m = "''m''" and c = "''m''" and rows = "[?l]"
      and since = 0 and db = ?db and pct = pct and avg = avg] r by blast
  then have "pct = 100" using l by simp
  moreover have "10 \<le> unat avg \<and> unat avg \<le> 10"
    using b [THEN conjunct2, rule_format, of 10 10] l by simp
  ultimately show ?thesis using r by auto
qed

end
