(* ===== verification/MonitorService.thy ===== *)
theory MonitorService
  imports Scheduler PingLogs
begin

text \<open>
  \<^verbatim>\<open>services/monitor_service.go\<close>: creation, listing, statistics, pause, resume and deletion of monitors. Its
  operations write the database and then Redis: they drop a cache entry, and a new monitor is put into the
  scheduler's sorted set. Their state is the pair of the tables and the Redis server.
\<close>

subsection \<open>Requests and responses\<close>

record CreateMonitorRequest =
  cq_TargetURL :: string
  cq_IntervalSeconds :: int

record MonitorResponse =
  mr_ID :: string
  mr_TargetURL :: string
  mr_IntervalSeconds :: int
  mr_CreditBalanceChecks :: int
  mr_TotalSpentTokens :: rat
  mr_IsActive :: bool

record MonitorStatsResponse =
  st_MonitorID :: string
  st_CheckInterval :: int
  st_UptimePct24h :: rat
  st_UptimePct7d :: rat
  st_RecentPings :: "PingLog list"

definition toMonitorResponse :: "Monitor \<Rightarrow> MonitorResponse" where
  "toMonitorResponse m =
     \<lparr>mr_ID = m_ID m, mr_TargetURL = m_TargetURL m, mr_IntervalSeconds = m_CheckIntervalSeconds m,
      mr_CreditBalanceChecks = 0, mr_TotalSpentTokens = m_TotalSpentTokens m, mr_IsActive = m_IsActive m\<rparr>"

datatype monitor_error = MissingURL | MonitorFailed db_error

subsection \<open>Operations\<close>

definition cache_key :: string where
  "cache_key = ''cache:active_monitors''"

text \<open>The cache entry is dropped without a look at the reply.\<close>

definition drop_cache :: "'s redis \<Rightarrow> fate \<Rightarrow> 's \<Rightarrow> 's" where
  "drop_cache R f rdb = fst (remote f (\<lambda>s. (rDEL R cache_key s, ())) rdb)"

definition service_Create ::
  "'s redis \<Rightarrow> string \<Rightarrow> instant \<Rightarrow> fate \<Rightarrow> fate \<Rightarrow> int \<Rightarrow> CreateMonitorRequest \<Rightarrow> db \<times> 's \<Rightarrow>
   (db \<times> 's) \<times> (monitor_error + MonitorResponse)" where
  "service_Create R uuid now f_del f_zadd ownerID req s =
     (if cq_TargetURL req = [] then (s, Inl MissingURL)
      else
        (let interval = (if cq_IntervalSeconds req < 30 then 60 else cq_IntervalSeconds req)
         in case monitor_Create uuid now ownerID (cq_TargetURL req) interval (fst s) of
              (db', Inl e) \<Rightarrow> ((db', snd s), Inl (MonitorFailed e))
            | (db', Inr m) \<Rightarrow>
                (let rdb1 = drop_cache R f_del (snd s);
                     rdb2 = fst (remote f_zadd (\<lambda>s. (rZADD R due_key 0 (sched_member (m_ID m)) s, ())) rdb1)
                 in ((db', rdb2), Inr (toMonitorResponse m)))))"

definition ListByOwner :: "bool \<Rightarrow> int \<Rightarrow> db \<Rightarrow> db_error + MonitorResponse list" where
  "ListByOwner up ownerID db = map_sum id (map toMonitorResponse) (FindByOwner up ownerID db)"

definition FindByMonitorID ::
  "(string \<Rightarrow> string option) \<Rightarrow> bool \<Rightarrow> string \<Rightarrow> db \<Rightarrow> db_error + Monitor" where
  "FindByMonitorID uuid_in up i db = FindByID uuid_in up i db"

text \<open>The four queries of \<^verbatim>\<open>Stats\<close>, each of which may fail; \<open>up\<close> numbers them from 0.\<close>

definition Stats ::
  "(string \<Rightarrow> string option) \<Rightarrow> (nat \<Rightarrow> bool) \<Rightarrow> instant \<Rightarrow> string \<Rightarrow> int \<Rightarrow> db \<Rightarrow> db_error + MonitorStatsResponse"
where
  "Stats uuid_in up now monitorID ownerID db =
     (case UptimePercentage uuid_in (up 0) monitorID (now - 24 * 60 * minute) db of
        Inl e \<Rightarrow> Inl e
      | Inr pct24h \<Rightarrow>
          (case UptimePercentage uuid_in (up 1) monitorID (now - 7 * 24 * 60 * minute) db of
             Inl e \<Rightarrow> Inl e
           | Inr pct7d \<Rightarrow>
               (case FindByMonitorID uuid_in (up 2) monitorID db of
                  Inl e \<Rightarrow> Inl e
                | Inr monitor \<Rightarrow>
                    (case FindByMonitor uuid_in (up 3) monitorID 7 db of
                       Inl e \<Rightarrow> Inl e
                     | Inr recent \<Rightarrow>
                         Inr \<lparr>st_MonitorID = monitorID, st_CheckInterval = m_CheckIntervalSeconds monitor,
                              st_UptimePct24h = pct24h, st_UptimePct7d = pct7d, st_RecentPings = recent\<rparr>))))"

text \<open>\<^verbatim>\<open>Pause\<close> and \<^verbatim>\<open>Resume\<close> take the caller's id and do not use it.\<close>

definition Pause ::
  "'s redis \<Rightarrow> (string \<Rightarrow> string option) \<Rightarrow> fate \<Rightarrow> fate \<Rightarrow> string \<Rightarrow> int \<Rightarrow> db \<times> 's \<Rightarrow> (db \<times> 's) \<times> (db_error + unit)"
where
  "Pause R uuid_in f f_del monitorID ownerID s =
     (case UpdateActive uuid_in f monitorID False (fst s) of
        (db', Inl e) \<Rightarrow> ((db', snd s), Inl e)
      | (db', Inr _) \<Rightarrow> ((db', drop_cache R f_del (snd s)), Inr ()))"

definition Resume ::
  "'s redis \<Rightarrow> (string \<Rightarrow> string option) \<Rightarrow> fate \<Rightarrow> fate \<Rightarrow> string \<Rightarrow> int \<Rightarrow> db \<times> 's \<Rightarrow> (db \<times> 's) \<times> (db_error + unit)"
where
  "Resume R uuid_in f f_del monitorID ownerID s =
     (case UpdateActive uuid_in f monitorID True (fst s) of
        (db', Inl e) \<Rightarrow> ((db', snd s), Inl e)
      | (db', Inr _) \<Rightarrow> ((db', drop_cache R f_del (snd s)), Inr ()))"

definition service_Delete ::
  "'s redis \<Rightarrow> (string \<Rightarrow> string option) \<Rightarrow> instant \<Rightarrow> fate \<Rightarrow> fate \<Rightarrow> string \<Rightarrow> int \<Rightarrow> db \<times> 's \<Rightarrow>
   (db \<times> 's) \<times> (db_error + unit)" where
  "service_Delete R uuid_in now f f_del monitorID ownerID s =
     (case monitor_Delete uuid_in now f monitorID ownerID (fst s) of
        (db', Inl e) \<Rightarrow> ((db', snd s), Inl e)
      | (db', Inr _) \<Rightarrow> ((db', drop_cache R f_del (snd s)), Inr ()))"

definition GetActiveMonitors :: "bool \<Rightarrow> db \<Rightarrow> db_error + Monitor list" where
  "GetActiveMonitors up db = FindActive up db"

subsection \<open>The statements on the tables\<close>

lemma cache_not_due [simp]: "cache_key \<noteq> due_key" "due_key \<noteq> cache_key"
  by (simp_all add: cache_key_def due_key_def)

lemma monitor_Create_Inr:
  assumes "monitor_Create uuid now ownerID url interval db = (db', Inr m)"
  obtains row where "m = scan_monitor row" "db' = db\<lparr>t_monitors := t_monitors db @ [row]\<rparr>"
    "row = \<lparr>m_ID = uuid, m_OwnerID = ownerID, m_TargetURL = url, m_CheckIntervalSeconds = interval,
       m_TotalSpentTokens = 0, m_IsActive = True, m_CreatedAt = now, m_deleted_at = None\<rparr>"
    "\<exists>u \<in> set (t_users db). u_ID u = ownerID"
  using assms by (auto simp: monitor_Create_def Let_def list_ex_iff split: if_splits)

text \<open>The interval that is stored for the one that was asked for.\<close>

definition effective_interval :: "int \<Rightarrow> int" where
  "effective_interval i = (if i < 30 then 60 else i)"

lemma service_Create_Inr:
  assumes "service_Create R uuid now f_del f_zadd ownerID req (db, rdb) = ((db', rdb'), Inr resp)"
  obtains row where "row = \<lparr>m_ID = uuid, m_OwnerID = ownerID, m_TargetURL = cq_TargetURL req,
       m_CheckIntervalSeconds = effective_interval (cq_IntervalSeconds req), m_TotalSpentTokens = 0,
       m_IsActive = True, m_CreatedAt = now, m_deleted_at = None\<rparr>"
    "db' = db\<lparr>t_monitors := t_monitors db @ [row]\<rparr>" "resp = toMonitorResponse (scan_monitor row)"
    "rdb' = fst (remote f_zadd (\<lambda>s. (rZADD R due_key 0 (sched_member uuid) s, ())) (drop_cache R f_del rdb))"
    "cq_TargetURL req \<noteq> []" "\<exists>u \<in> set (t_users db). u_ID u = ownerID"
proof -
  let ?i = "effective_interval (cq_IntervalSeconds req)"
  obtain d r where c: "monitor_Create uuid now ownerID (cq_TargetURL req) ?i db = (d, r)" by fastforce
  from assms have u: "cq_TargetURL req \<noteq> []" by (auto simp: service_Create_def)
  from assms u c obtain m where m: "r = Inr m" "db' = d" "resp = toMonitorResponse m"
    "rdb' = fst (remote f_zadd (\<lambda>s. (rZADD R due_key 0 (sched_member (m_ID m)) s, ())) (drop_cache R f_del rdb))"
    by (cases r) (auto simp: service_Create_def effective_interval_def Let_def)
  from monitor_Create_Inr [OF c [unfolded m(1)]] m u that show ?thesis by (metis Monitor.select_convs(1) scan_monitor_id)
qed

lemma owner_has_credit_iff:
  "owner_has_credit db m \<longleftrightarrow> (\<exists>u \<in> set (t_users db). u_ID u = m_OwnerID m \<and> 0 < u_CreditBalance u)"
  by (simp add: owner_has_credit_def list_ex_iff)

text \<open>A pause reaches the row with the id, whoever asks, and no other.\<close>

lemma UpdateActive_rows:
  assumes "uuid_in i = Some c" "UpdateActive uuid_in f i b db = (db', r)" "f \<noteq> RequestLost"
  shows "db' = db\<lparr>t_monitors := update_where (\<lambda>m. m_ID m = c \<and> m_deleted_at m = None)
           (\<lambda>m. m\<lparr>m_IsActive := b\<rparr>) (t_monitors db)\<rparr>"
  using assms by (cases f) (auto simp: UpdateActive_def)

lemma UpdateActive_Inr:
  "UpdateActive uuid_in f i b db = (db', Inr u) \<Longrightarrow> \<exists>c. uuid_in i = Some c \<and> f = Delivered"
  by (auto simp: UpdateActive_def split: option.splits)

lemma paused_not_eligible:
  assumes "\<forall>m \<in> set (t_monitors db). m_ID m = c \<and> m_deleted_at m = None \<longrightarrow> \<not> m_IsActive m"
  shows "eligible db m \<Longrightarrow> m_ID m \<noteq> c"
  using assms by (auto simp: eligible_def)

context redis_server begin

lemma drop_cache_due: "zset (drop_cache R f s) due_key = zset s due_key"
  by (cases f) (simp_all add: drop_cache_def redis_simps)

lemma create_scores:
  assumes "service_Create R uuid now f_del f_zadd ownerID req (db, rdb) = ((db', rdb'), Inr resp)"
  shows "zset rdb' due_key =
    (if f_zadd = RequestLost then zset rdb due_key else (zset rdb due_key)(sched_member uuid := Some 0))"
proof -
  from assms have "rdb' = fst (remote f_zadd (\<lambda>s. (rZADD R due_key 0 (sched_member uuid) s, ())) (drop_cache R f_del rdb))"
    by (elim service_Create_Inr)
  then show ?thesis by (cases f_zadd) (simp_all add: drop_cache_due redis_simps)
qed

text \<open>Seeding puts an eligible monitor into the set.\<close>

lemma sync_adds:
  assumes "\<forall>i. fates i = Delivered" "SyncSchedulerState R True fates clock db s = (s', r)" "eligible db m"
  shows "zset s' due_key (sched_member (m_ID m)) \<noteq> None"
proof -
  obtain ms where ms: "FindActive True db = Inr ms" by (simp add: FindActive_def)
  then have "m \<in> set ms" using FindActive_Inr assms(3) by blast
  then have m: "\<exists>m' \<in> set ms. sched_member (m_ID m) = sched_member (m_ID m')" by blast
  from assms(1,2) ms have s': "s' = fold (\<lambda>m s. fst (remote (fates (m_ID m))
      (\<lambda>s. (rZADDNX R due_key (Unix (clock (m_ID m))) (sched_member (m_ID m)) s, ())) s)) ms s"
    by (simp add: SyncSchedulerState_def del: remote_simps)
  show ?thesis
    unfolding seed_scores [OF assms(1), of clock ms s "sched_member (m_ID m)", folded s'] if_P [OF m]
    by (cases "zset s due_key (sched_member (m_ID m))") simp_all
qed

text \<open>A pause and a resume leave the set as it is.\<close>

lemma pause_scores: "Pause R uuid_in f f_del i caller (db, s) = ((db', s'), r) \<Longrightarrow> zset s' due_key = zset s due_key"
  by (auto simp: Pause_def drop_cache_due split: prod.splits sum.splits)

lemma resume_scores: "Resume R uuid_in f f_del i caller (db, s) = ((db', s'), r) \<Longrightarrow> zset s' due_key = zset s due_key"
  by (auto simp: Resume_def drop_cache_due split: prod.splits sum.splits)

end

lemma Pause_Inr:
  assumes "Pause R uuid_in f f_del i caller (db, s) = ((db', s'), Inr u)"
  shows "UpdateActive uuid_in f i False db = (db', Inr ())" "f = Delivered"
  using assms UpdateActive_Inr by (auto simp: Pause_def split: prod.splits sum.splits)

lemma Resume_Inr:
  assumes "Resume R uuid_in f f_del i caller (db, s) = ((db', s'), Inr u)"
  shows "UpdateActive uuid_in f i True db = (db', Inr ())" "f = Delivered"
  using assms UpdateActive_Inr by (auto simp: Resume_def split: prod.splits sum.splits)

text \<open>A pause by anybody makes the monitor inactive; a resume by anybody makes it active again.\<close>

lemma paused:
  assumes "uuid_in i = Some c" "UpdateActive uuid_in Delivered i False db = (db', Inr ())"
  shows "eligible db' m \<Longrightarrow> m_ID m \<noteq> c"
proof (rule paused_not_eligible)
  have db': "t_monitors db' = update_where (\<lambda>m. m_ID m = c \<and> m_deleted_at m = None) (\<lambda>m. m\<lparr>m_IsActive := False\<rparr>) (t_monitors db)"
    using UpdateActive_rows [OF assms] by simp
  show "\<forall>m \<in> set (t_monitors db'). m_ID m = c \<and> m_deleted_at m = None \<longrightarrow> \<not> m_IsActive m"
  proof
    fix m assume "m \<in> set (t_monitors db')"
    then obtain r where "m = (if m_ID r = c \<and> m_deleted_at r = None then r\<lparr>m_IsActive := False\<rparr> else r)"
      unfolding db' update_where_def set_map by (elim imageE)
    then show "m_ID m = c \<and> m_deleted_at m = None \<longrightarrow> \<not> m_IsActive m"
      by (cases "m_ID r = c \<and> m_deleted_at r = None") auto
  qed
qed

lemma resumed:
  assumes "uuid_in i = Some c" "UpdateActive uuid_in Delivered i True db = (db', Inr ())"
    and "row \<in> set (t_monitors db)" "m_ID row = c" "m_deleted_at row = None" "owner_has_credit db row"
  shows "\<exists>m. eligible db' m \<and> m_ID m = c"
proof -
  let ?row = "row\<lparr>m_IsActive := True\<rparr>"
  have db': "db' = db\<lparr>t_monitors := update_where (\<lambda>m. m_ID m = c \<and> m_deleted_at m = None)
      (\<lambda>m. m\<lparr>m_IsActive := True\<rparr>) (t_monitors db)\<rparr>"
    using UpdateActive_rows [OF assms(1,2)] by simp
  have "?row \<in> set (t_monitors db')" using assms(3-5) by (auto simp: db' set_update_where)
  moreover have "owner_has_credit db' ?row" using assms(6) by (simp add: db' owner_has_credit_def)
  ultimately have "eligible db' (scan_monitor ?row)" using assms(5) by (auto simp: eligible_def)
  then show ?thesis using assms(4) by (intro exI [of _ "scan_monitor ?row"]) simp
qed

subsection \<open>Properties\<close>

text \<open>
  C31. A monitor that was created is scheduled: it belongs to the caller, is active, has an interval of at least 30
  seconds, and unless the request to Redis is lost it is due at the next tick, whenever that is; no other monitor's
  time changes.
\<close>
theorem created_monitor_is_due:
  assumes "redis_server R str zset" "f_zadd \<noteq> RequestLost"
    and "service_Create R uuid now f_del f_zadd ownerID req (db, rdb) = ((db', rdb'), Inr resp)"
  shows "mr_ID resp = uuid \<and> 30 \<le> mr_IntervalSeconds resp
    \<and> (\<exists>row. t_monitors db' = t_monitors db @ [row] \<and> m_ID row = uuid \<and> m_OwnerID row = ownerID
         \<and> m_TargetURL row = cq_TargetURL req \<and> m_CheckIntervalSeconds row = mr_IntervalSeconds resp \<and> m_IsActive row
         \<and> (owner_has_credit db row \<longrightarrow> eligible db' (scan_monitor row)))
    \<and> zset rdb' due_key = (zset rdb due_key)(sched_member uuid := Some 0)
    \<and> (\<forall>t st. ts_rdb st = rdb' \<and> 0 \<le> t \<and> length (due_members R t st) < 100 \<longrightarrow> sched_member uuid \<in> set (due_members R t st))"
  using assms(3)
proof (rule service_Create_Inr)
  fix row
  assume r: "row = \<lparr>m_ID = uuid, m_OwnerID = ownerID, m_TargetURL = cq_TargetURL req,
       m_CheckIntervalSeconds = effective_interval (cq_IntervalSeconds req), m_TotalSpentTokens = 0,
       m_IsActive = True, m_CreatedAt = now, m_deleted_at = None\<rparr>"
    "db' = db\<lparr>t_monitors := t_monitors db @ [row]\<rparr>" "resp = toMonitorResponse (scan_monitor row)"
  have z: "zset rdb' due_key = (zset rdb due_key)(sched_member uuid := Some 0)"
    using redis_server.create_scores [OF assms(1,3)] assms(2) by simp
  have "sched_member uuid \<in> set (due_members R t st)"
    if "ts_rdb st = rdb'" "0 \<le> t" "length (due_members R t st) < 100" for t st
    using redis_server.zrange_all [OF assms(1), where k = due_key and y = 0] that z
    by (simp add: due_members_def Unix_def pos_imp_zdiv_nonneg_iff)
  moreover have "eligible db' (scan_monitor row)" if "owner_has_credit db row"
    using that r(1,2) by (auto simp: eligible_def owner_has_credit_def)
  ultimately show ?thesis
    using r z by (auto simp: toMonitorResponse_def scan_monitor_def Monitor.truncate_def effective_interval_def)
qed

theorem created_monitor_is_due_witness:
  "\<exists>db' rdb' resp. service_Create ref_redis ''n'' 7 RequestLost ReplyLost 1 \<lparr>cq_TargetURL = ''http://y'', cq_IntervalSeconds = 5\<rparr>
       (demo_db 3 20 0, ref_empty) = ((db', rdb'), Inr resp) \<and> 30 \<le> mr_IntervalSeconds resp
     \<and> ref_zset rdb' due_key (sched_member ''n'') = Some 0"
proof -
  have "\<exists>db' rdb' resp. service_Create ref_redis ''n'' 7 RequestLost ReplyLost 1 \<lparr>cq_TargetURL = ''http://y'', cq_IntervalSeconds = 5\<rparr>
       (demo_db 3 20 0, ref_empty) = ((db', rdb'), Inr resp)"
    by (simp add: service_Create_def monitor_Create_def int4_def demo_db_def demo_user_def Let_def)
  then obtain db' rdb' resp where r: "service_Create ref_redis ''n'' 7 RequestLost ReplyLost 1
      \<lparr>cq_TargetURL = ''http://y'', cq_IntervalSeconds = 5\<rparr> (demo_db 3 20 0, ref_empty) = ((db', rdb'), Inr resp)" by blast
  from created_monitor_is_due [OF ref_server _ r] r show ?thesis by auto
qed

text \<open>
  A pause outlasts the resume: once a paused monitor was due at a tick it is out of the schedule, and resuming it,
  which anybody can do as pausing, does not put it back; only the next synchronisation does, if its owner has credit.
\<close>
theorem resume_waits_for_sync:
  assumes "redis_server R str zset" "distinct (map m_ID (t_monitors db))" "uuid_in c = Some c"
    and "row \<in> set (t_monitors db)" "m_ID row = c" "m_deleted_at row = None" "owner_has_credit db row"
    and pause: "Pause R uuid_in f f_del c caller (db, rdb) = ((db1, rdb1), Inr ())"
    and tick: "redis_up te" "map_order (te_assigned te) asg" "sched_member c \<in> set (due_members R t st)"
      "FindMany uuid_in (te_find te) (map (trim_prefix sched_prefix) (due_members R t st)) db1 = Inr ms"
      "MatchBatch hostname (te_order te) t reg (ts_cursors st) ms = (cur, asg)"
      "scheduleTick R hostname uuid_in t te db1 reg st = (st', r)"
    and resume: "Resume R uuid_in g g_del c caller' (db1, ts_rdb st') = ((db2, rdb2), Inr ())"
    and sync: "\<forall>i. fates i = Delivered" "SyncSchedulerState R True fates clock db2 rdb2 = (rdb3, r3)"
  shows "zset (ts_rdb st') due_key (sched_member c) = None \<and> zset rdb2 due_key (sched_member c) = None
    \<and> zset rdb3 due_key (sched_member c) \<noteq> None"
proof -
  note p = Pause_Inr [OF pause]
  have db1: "db1 = db\<lparr>t_monitors := update_where (\<lambda>m. m_ID m = c \<and> m_deleted_at m = None)
      (\<lambda>m. m\<lparr>m_IsActive := False\<rparr>) (t_monitors db)\<rparr>"
    using UpdateActive_rows [of uuid_in c c Delivered False db db1 "Inr ()"] assms(3) p by simp
  have d: "distinct (map m_ID (t_monitors db1))" using assms(2) by (simp add: db1 map_update_where)
  have "c \<notin> set (map m_ID ms)"
    using FindMany_Inr(1) [OF tick(4)] paused [of uuid_in c c db db1] assms(3) p by auto
  then have out: "zset (ts_rdb st') due_key (sched_member c) = None"
    using redis_server.tick_scores [OF assms(1) tick(1,2) d _ tick(4-6)] tick(3) by force
  moreover have z2: "zset rdb2 due_key = zset (ts_rdb st') due_key"
    by (rule redis_server.resume_scores [OF assms(1) resume])
  moreover have "zset rdb3 due_key (sched_member c) \<noteq> None"
  proof -
    let ?row = "row\<lparr>m_IsActive := False\<rparr>"
    have "?row \<in> set (t_monitors db1)" using assms(4-6) by (auto simp: db1 set_update_where)
    moreover have "owner_has_credit db1 ?row" using assms(7) by (simp add: db1 owner_has_credit_def)
    ultimately obtain m where "eligible db2 m" "m_ID m = c"
      using resumed [of uuid_in c c db1 db2 ?row] assms(3) Resume_Inr [OF resume] assms(5,6) by auto
    with redis_server.sync_adds [OF assms(1) sync] show ?thesis by blast
  qed
  ultimately show ?thesis by simp
qed

theorem resume_waits_for_sync_witness:
  "\<exists>(st' :: ref_state tick_state) rdb2 rdb3. ref_zset (ts_rdb st') due_key (sched_member ''m'') = None \<and> ref_zset rdb2 due_key (sched_member ''m'') = None
     \<and> ref_zset rdb3 due_key (sched_member ''m'') \<noteq> None"
proof -
  let ?db1 = "demo_db 3 20 0\<lparr>t_monitors := [demo_monitor_row ''m'' 1\<lparr>m_IsActive := False\<rparr>]\<rparr>"
  let ?te = "demo_tick_env\<lparr>te_assigned := []\<rparr>"
  have sel: "t_monitors (demo_db 3 20 0) = [demo_monitor_row ''m'' 1]" "m_ID (demo_monitor_row ''m'' 1) = ''m''"
    "m_deleted_at (demo_monitor_row ''m'' 1) = None"
    by (simp_all add: demo_db_def demo_monitor_row_def)
  have a: "demo_monitor_row ''m'' 1 \<in> set (t_monitors (demo_db 3 20 0))" "owner_has_credit (demo_db 3 20 0) (demo_monitor_row ''m'' 1)"
    by (simp_all add: sel owner_has_credit_def) (simp add: demo_db_def demo_monitor_row_def demo_user_def)
  have pause: "Pause ref_redis Some Delivered Delivered ''m'' 7 (demo_db 3 20 0, ref_empty) =
      ((?db1, drop_cache ref_redis Delivered ref_empty), Inr ())"
    by (simp add: Pause_def UpdateActive_def sel)
  have up: "redis_up ?te" "map_order (te_assigned ?te) Map.empty"
    using demo_up by (simp_all add: redis_up_def map_order_def)
  have due: "sched_member ''m'' \<in> set (due_members ref_redis 0 demo_tick_state)"
    by (simp add: demo_due_members)
  have find: "FindMany Some (te_find ?te) (map (trim_prefix sched_prefix) (due_members ref_redis 0 demo_tick_state)) ?db1 = Inr []"
    by (simp add: demo_due_members demo_selectors FindMany_def)
  have match: "MatchBatch demo_host (te_order ?te) 0 (demo_registry []) (ts_cursors demo_tick_state) [] = (ts_cursors demo_tick_state, Map.empty)"
    by (simp add: MatchBatch_def Let_def)
  obtain st' r where tick: "scheduleTick ref_redis demo_host Some 0 ?te ?db1 (demo_registry []) demo_tick_state = (st', r)"
    by fastforce
  obtain db2 rdb2 where resume: "Resume ref_redis Some Delivered ReplyLost ''m'' 8 (?db1, ts_rdb st') = ((db2, rdb2), Inr ())"
    by (simp add: Resume_def UpdateActive_def)
  obtain rdb3 r3 where sync: "SyncSchedulerState ref_redis True (\<lambda>_. Delivered) (\<lambda>_. 0) db2 rdb2 = (rdb3, r3)"
    by fastforce
  have fates: "\<forall>i :: string. Delivered = Delivered" by simp
  from resume_waits_for_sync [OF ref_server demo_selectors(6) refl a(1) sel(2,3) a(2) pause up due find match tick resume fates sync]
  show ?thesis by blast
qed

text \<open>
  C40. Only deletion checks the owner: a caller who does not own a live monitor is told by all three operations that they
  succeeded. The deletion left every monitor of somebody else as it was, and the pause and the resumption changed the
  activity of the monitor.
\<close>
theorem only_deletion_checks_owner:
  assumes "uuid_in i = Some (m_ID m)" "m \<in> set (t_monitors db)" "m_deleted_at m = None" "m_OwnerID m \<noteq> caller"
    and "service_Delete R uuid_in now Delivered f_del i caller (db, rdb) = ((deleted, rdb1), r1)"
    and "Pause R uuid_in Delivered g_del i caller (db, rdb) = ((paused, rdb2), r2)"
    and "Resume R uuid_in Delivered h_zadd i caller (db, rdb) = ((resumed, rdb3), r3)"
  shows "r1 = Inr () \<and> filter (\<lambda>x. m_OwnerID x \<noteq> caller) (t_monitors deleted) = filter (\<lambda>x. m_OwnerID x \<noteq> caller) (t_monitors db)
    \<and> m \<in> set (t_monitors deleted)
    \<and> r2 = Inr () \<and> m\<lparr>m_IsActive := False\<rparr> \<in> set (t_monitors paused)
    \<and> r3 = Inr () \<and> m\<lparr>m_IsActive := True\<rparr> \<in> set (t_monitors resumed)"
proof -
  have others: "filter (\<lambda>m. m_OwnerID m \<noteq> caller) (update_where (\<lambda>m. m_ID m = c \<and> m_OwnerID m = caller)
      (\<lambda>m. m\<lparr>m_deleted_at := Some now\<rparr>) rows) = filter (\<lambda>m. m_OwnerID m \<noteq> caller) rows"
    for c and rows :: "monitor_row list"
    by (induction rows) auto
  have hit: "f m \<in> set (update_where P f (t_monitors db))" if "P m" for P f
    using assms(2) that by (force simp: update_where_def)
  have del: "r1 = Inr ()" "filter (\<lambda>x. m_OwnerID x \<noteq> caller) (t_monitors deleted) = filter (\<lambda>x. m_OwnerID x \<noteq> caller) (t_monitors db)"
    using assms(1,5) others by (auto simp: service_Delete_def monitor_Delete_def)
  moreover have "m \<in> set (t_monitors deleted)"
  proof -
    have "m \<in> set (filter (\<lambda>x. m_OwnerID x \<noteq> caller) (t_monitors db))" using assms(2,4) by simp
    then show ?thesis unfolding del(2) [symmetric] by simp
  qed
  moreover have "r2 = Inr () \<and> m\<lparr>m_IsActive := False\<rparr> \<in> set (t_monitors paused)"
    using assms(1-3,6) by (auto simp: Pause_def UpdateActive_def intro: hit)
  moreover have "r3 = Inr () \<and> m\<lparr>m_IsActive := True\<rparr> \<in> set (t_monitors resumed)"
    using assms(1-3,7) by (auto simp: Resume_def UpdateActive_def intro: hit)
  ultimately show ?thesis by blast
qed

theorem only_deletion_checks_owner_witness:
  "\<exists>deleted rdb1 r1. service_Delete ref_redis Some 9 Delivered Delivered ''m'' 2 (demo_db 3 20 0, ref_empty) = ((deleted, rdb1), r1)
     \<and> r1 = Inr () \<and> demo_monitor_row ''m'' 1 \<in> set (t_monitors deleted)"
proof -
  let ?s = "(demo_db 3 20 0, ref_empty)"
  obtain deleted rdb1 r1 where del: "service_Delete ref_redis Some 9 Delivered Delivered ''m'' 2 ?s = ((deleted, rdb1), r1)"
    by (metis prod.exhaust)
  obtain paused rdb2 r2 where pause: "Pause ref_redis Some Delivered Delivered ''m'' 2 ?s = ((paused, rdb2), r2)"
    by (metis prod.exhaust)
  obtain resumed rdb3 r3 where resume: "Resume ref_redis Some Delivered Delivered ''m'' 2 ?s = ((resumed, rdb3), r3)"
    by (metis prod.exhaust)
  have "demo_monitor_row ''m'' 1 \<in> set (t_monitors (demo_db 3 20 0))" "m_ID (demo_monitor_row ''m'' 1) = ''m''"
    "m_deleted_at (demo_monitor_row ''m'' 1) = None" "m_OwnerID (demo_monitor_row ''m'' 1) \<noteq> 2"
    by (simp_all add: demo_db_def demo_monitor_row_def)
  from only_deletion_checks_owner [OF _ this(1,3,4) del pause resume] this(2) del show ?thesis by auto
qed

lemma percentage:
  assumes "xs \<noteq> []"
  shows "0 \<le> 100 * of_nat (length (filter P xs)) / (of_nat (length xs) :: rat)"
    and "100 * of_nat (length (filter P xs)) / (of_nat (length xs) :: rat) \<le> 100"
proof -
  have "(of_nat (length (filter P xs)) :: rat) \<le> of_nat (length xs)"
    by (simp only: of_nat_le_iff length_filter_le)
  moreover have "(0 :: rat) < of_nat (length xs)" using assms by simp
  ultimately show "100 * of_nat (length (filter P xs)) / (of_nat (length xs) :: rat) \<le> 100"
    by (simp only: pos_divide_le_eq)
  show "0 \<le> 100 * of_nat (length (filter P xs)) / (of_nat (length xs) :: rat)" by simp
qed

text \<open>
  Statistics: the two percentages are percentages, at most seven probes are shown, each of the monitor that was asked for,
  and the interval is that of a live monitor; the caller's identity makes no difference.
\<close>
theorem stats_bounds:
  assumes "Stats uuid_in up now i caller db = Inr st"
  shows "0 \<le> st_UptimePct24h st \<and> st_UptimePct24h st \<le> 100 \<and> 0 \<le> st_UptimePct7d st \<and> st_UptimePct7d st \<le> 100
    \<and> length (st_RecentPings st) \<le> 7
    \<and> (\<exists>c. uuid_in i = Some c \<and> (\<forall>p \<in> set (st_RecentPings st). p_MonitorID p = c)
        \<and> (\<exists>m \<in> set (t_monitors db). m_ID m = c \<and> m_deleted_at m = None \<and> m_CheckIntervalSeconds m = st_CheckInterval st))
    \<and> (\<forall>caller'. Stats uuid_in up now i caller' db = Inr st)"
proof -
  from assms obtain a b m ps where q: "UptimePercentage uuid_in (up 0) i (now - 24 * 60 * minute) db = Inr a"
    "UptimePercentage uuid_in (up 1) i (now - 7 * 24 * 60 * minute) db = Inr b"
    "FindByMonitorID uuid_in (up 2) i db = Inr m" "FindByMonitor uuid_in (up 3) i 7 db = Inr ps"
    and st: "st = \<lparr>st_MonitorID = i, st_CheckInterval = m_CheckIntervalSeconds m, st_UptimePct24h = a,
      st_UptimePct7d = b, st_RecentPings = ps\<rparr>"
    unfolding Stats_def by (auto split: sum.splits)
  have pct: "0 \<le> x \<and> x \<le> 100" if "UptimePercentage uuid_in u i since db = Inr x" for u since x
    using that percentage
    by (auto simp: UptimePercentage_def query_Inr_iff Let_def simp del: filter_filter split: option.splits if_splits)
  from q(4) obtain c where c: "uuid_in i = Some c"
    and ps: "ps = map (\<lambda>l. l\<lparr>p_TimestampMs := 0\<rparr>) (take 7 (sort_key (\<lambda>l. - p_Timestamp l)
        (filter (\<lambda>l. p_MonitorID l = c) (t_ping_logs db))))"
    by (auto simp: FindByMonitor_def query_Inr_iff split: option.splits)
  have "length ps \<le> 7" "\<forall>p \<in> set ps. p_MonitorID p = c"
    unfolding ps by (auto dest: in_set_takeD)
  moreover obtain row where "row \<in> set (t_monitors db)" "m_ID row = c" "m_deleted_at row = None" "m = scan_monitor row"
    using q(3) c
    by (cases "query_row (filter (\<lambda>m. m_ID m = c \<and> m_deleted_at m = None) (t_monitors db))")
       (auto simp: FindByMonitorID_def FindByID_def query_Inr_iff dest: query_row_Inr)
  moreover have "m_CheckIntervalSeconds (scan_monitor x) = m_CheckIntervalSeconds x" for x
    by (simp add: scan_monitor_def Monitor.truncate_def)
  ultimately show ?thesis
    using pct [OF q(1)] pct [OF q(2)] c assms by (auto simp: st Stats_def)
qed

theorem stats_bounds_witness:
  "\<exists>st. Stats Some (\<lambda>_. True) 0 ''m'' 2 (demo_db 3 20 0) = Inr st \<and> st_UptimePct24h st \<le> 100 \<and> length (st_RecentPings st) \<le> 7"
proof -
  have "\<exists>st. Stats Some (\<lambda>_. True) 0 ''m'' 2 (demo_db 3 20 0) = Inr st"
    by (simp add: Stats_def UptimePercentage_def FindByMonitorID_def FindByID_def FindByMonitor_def query_row_def
        demo_db_def demo_monitor_row_def Let_def)
  with stats_bounds show ?thesis by blast
qed

end
