(* ===== verification/RewardService.thy ===== *)
theory RewardService
  imports Settlement Broker
begin

text \<open>
  \<^verbatim>\<open>services/reward_service.go\<close>: a reward that is added through the stored procedure, the announcement of a payout on
  \<^verbatim>\<open>solana_sync_queue\<close>, and the reward status of a runner. Headers and message ids of the announcement are left out.
\<close>

subsection \<open>Operations\<close>

record SolanaSyncPayload =
  sp_RunnerPubkey :: pubkey
  sp_AmountTokens :: rat

definition encode_sync_payload :: "SolanaSyncPayload \<Rightarrow> json" where
  "encode_sync_payload p = JObj
     [(''runner_pubkey'', JStr (sp_RunnerPubkey p)), (''amount_tokens'', encode_float (sp_AmountTokens p))]"

definition sync_message :: "pubkey \<Rightarrow> rat \<Rightarrow> message" where
  "sync_message pubkey amount = \<lparr>msg_exchange = [], msg_key = ''solana_sync_queue'',
     msg_body = encode_sync_payload \<lparr>sp_RunnerPubkey = pubkey, sp_AmountTokens = amount\<rparr>\<rparr>"

record RewardStatusResponse =
  rs_RunnerPubkey :: pubkey
  rs_OffchainAccumulatedTokens :: rat
  rs_TotalEarnedAllTime :: rat
  rs_PendingSync :: bool

datatype reward_error = AccumulateFailed db_error | PublishFailed | RunnerNotFound db_error

text \<open>What a call meets: the event id and time of the procedure, its answer, and the fates of the publish and of the flag.\<close>

record reward_env =
  rw_uuid :: string
  rw_now :: instant
  rw_up :: bool
  rw_publish :: fate
  rw_flag :: fate
  rw_flag_now :: instant

definition AccumulateAndMaybeSync ::
  "rat \<Rightarrow> reward_env \<Rightarrow> string \<Rightarrow> rat \<Rightarrow> db \<times> connection \<Rightarrow> (db \<times> connection) \<times> (reward_error + unit)" where
  "AccumulateAndMaybeSync threshold re pubkey delta s =
     (case AccumulateReward (rw_uuid re) (rw_now re) (rw_up re) pubkey delta threshold (fst s) of
        (db', Inl e) \<Rightarrow> ((db', snd s), Inl (AccumulateFailed e))
      | (db', Inr res) \<Rightarrow>
          if \<not> acc_DidSync res then ((db', snd s), Inr ())
          else
            (case amqp_publish (rw_publish re) (sync_message pubkey (acc_NewBalance res)) (snd s) of
               (c', None) \<Rightarrow>
                 ((fst (SetPendingSync (rw_flag_now re) (rw_flag re) pubkey True db'), c'), Inl PublishFailed)
             | (c', Some _) \<Rightarrow> ((db', c'), Inr ())))"

definition GetStatus :: "bool \<Rightarrow> string \<Rightarrow> db \<Rightarrow> reward_error + RewardStatusResponse" where
  "GetStatus up pubkey db =
     (case FindByPubkey up pubkey db of
        Inl e \<Rightarrow> Inl (RunnerNotFound e)
      | Inr node \<Rightarrow>
          Inr \<lparr>rs_RunnerPubkey = r_OwnerPubkey node,
               rs_OffchainAccumulatedTokens = r_OffchainAccumulatedTokens node,
               rs_TotalEarnedAllTime = r_TotalEarnedTokensAllTime node,
               rs_PendingSync = r_PendingSolanaSync node\<rparr>)"

subsection \<open>Facts\<close>

lemma SetPendingSync_frame:
  assumes "SetPendingSync now f pubkey b db = (db', r)"
  shows "ledger_of db' = ledger_of db" "t_sync_events db' = t_sync_events db" "t_users db' = t_users db"
  using assms by (cases f; auto simp: SetPendingSync_def ledger_of_def column_same)+

lemma SetPendingSync_sets:
  assumes "SetPendingSync now f pubkey b db = (db', r)" "f \<noteq> RequestLost" "n \<in> set (t_runner_nodes db')"
    "r_OwnerPubkey n = pubkey"
  shows "r_PendingSolanaSync n = b"
proof -
  have "t_runner_nodes db' = update_where (\<lambda>n. r_OwnerPubkey n = pubkey)
      (\<lambda>n. n\<lparr>r_PendingSolanaSync := b, r_UpdatedAt := now\<rparr>) (t_runner_nodes db)"
    using assms(1,2) by (cases f) (auto simp: SetPendingSync_def)
  with assms(3) obtain x where "n = (if r_OwnerPubkey x = pubkey then x\<lparr>r_PendingSolanaSync := b, r_UpdatedAt := now\<rparr> else x)"
    by (auto simp only: update_where_def set_map image_iff)
  with assms(4) show ?thesis by (cases "r_OwnerPubkey x = pubkey") auto
qed

text \<open>
  A payout is announced as well as queued: with the procedure answered, the runner's balance grows by the reward of its
  stake and not by \<open>delta\<close>; when that reaches the threshold the balance is emptied, one payout of exactly that amount is queued
  in the database and the same amount is published unless the request is lost, and if the publish fails the runner
  is flagged; below the threshold nothing is published.
\<close>
theorem accumulation_announces_payout:
  assumes "wf_db db" "lg_stake (ledger_of db) pk = Some s" "lg_balance (ledger_of db) pk = Some b" "rw_up re"
    and "AccumulateAndMaybeSync threshold re pk delta (db, c) = ((db', c'), r)" "\<forall>e. r \<noteq> Inl (AccumulateFailed e)"
  shows "(\<forall>delta'. AccumulateAndMaybeSync threshold re pk delta' (db, c) = ((db', c'), r))
    \<and> (let b' = b + new_reward s in
        if b' \<ge> threshold
        then lg_balance (ledger_of db') pk = Some 0 \<and> lg_queued (ledger_of db') pk = lg_queued (ledger_of db) pk @ [b']
          \<and> sent c' = sent c @ (if rw_publish re = RequestLost then [] else [sync_message pk b'])
          \<and> (r = Inr () \<longleftrightarrow> rw_publish re = Delivered)
          \<and> (r \<noteq> Inr () \<and> rw_flag re \<noteq> RequestLost \<longrightarrow>
               (\<forall>n \<in> set (t_runner_nodes db'). r_OwnerPubkey n = pk \<longrightarrow> r_PendingSolanaSync n))
        else lg_balance (ledger_of db') pk = Some b' \<and> lg_queued (ledger_of db') pk = lg_queued (ledger_of db) pk
          \<and> sent c' = sent c \<and> r = Inr ())"
proof -
  have delta: "AccumulateAndMaybeSync threshold re pk x (db, c) = AccumulateAndMaybeSync threshold re pk delta (db, c)" for x
    by (simp add: AccumulateAndMaybeSync_def AccumulateReward_def)
  obtain d p where p: "create_payout_event_if_threshold (rw_uuid re) (rw_now re) pk threshold db = Inr (d, p)"
    using assms(4-6) by (auto simp: AccumulateAndMaybeSync_def AccumulateReward_def split: sum.splits)
  have "pay_node_pubkey p \<noteq> None"
  proof -
    have "filter (\<lambda>n. r_OwnerPubkey n = pk) (t_runner_nodes db) \<noteq> []"
      using assms(3) column_None [of r_OwnerPubkey r_OffchainAccumulatedTokens "t_runner_nodes db" pk]
      by (auto simp: ledger_of_def)
    with p show ?thesis
      by (auto simp: create_payout_event_if_threshold_def Let_def split: list.splits if_splits)
  qed
  with assms(1) p show ?thesis
  proof (rule payout_Inr)
    fix s' b'
    assume o: "lg_stake (ledger_of db) pk = Some s'" "lg_balance (ledger_of db) pk = Some b'"
      and l: "lg_balance (ledger_of d) = (lg_balance (ledger_of db))
         (pk \<mapsto> (if b' + new_reward s' \<ge> threshold then 0 else b' + new_reward s'))"
       "lg_queued (ledger_of d) = (lg_queued (ledger_of db))
         (pk := (if b' + new_reward s' \<ge> threshold then lg_queued (ledger_of db) pk @ [b' + new_reward s']
               else lg_queued (ledger_of db) pk))"
      and pay: "p = \<lparr>pay_created = b' + new_reward s' \<ge> threshold,
          pay_amount = (if b' + new_reward s' \<ge> threshold then b' + new_reward s' else 0),
          pay_reward_delta = new_reward s', pay_node_pubkey = Some pk\<rparr>"
    from o assms(2,3) have sb: "s' = s" "b' = b" by simp_all
    let ?b = "b + new_reward s"
    show ?thesis
    proof (cases "?b \<ge> threshold")
      case False
      with assms(4,5) p pay have "db' = d" "c' = c" "r = Inr ()"
        by (auto simp: AccumulateAndMaybeSync_def AccumulateReward_def sb)
      with False l delta assms(5) show ?thesis by (simp add: sb Let_def)
    next
      case True
      with assms(4,5) p pay have a: "(case amqp_publish (rw_publish re) (sync_message pk ?b) c of
               (c', None) \<Rightarrow> ((fst (SetPendingSync (rw_flag_now re) (rw_flag re) pk True d), c'), Inl PublishFailed)
             | (c', Some _) \<Rightarrow> ((d, c'), Inr ())) = ((db', c'), r)"
        by (simp add: AccumulateAndMaybeSync_def AccumulateReward_def sb)
      obtain d' u where f: "SetPendingSync (rw_flag_now re) (rw_flag re) pk True d = (d', u)" by fastforce
      have "ledger_of db' = ledger_of d" "sent c' = sent c @ (if rw_publish re = RequestLost then [] else [sync_message pk ?b])"
        "r = Inr () \<longleftrightarrow> rw_publish re = Delivered" "r \<noteq> Inr () \<longrightarrow> db' = d'"
        using a SetPendingSync_frame(1) [OF f] by (cases "rw_publish re"; auto simp: amqp_publish_def f)+
      then show ?thesis
        using True l delta assms(5) SetPendingSync_sets [OF f] by (auto simp: sb Let_def)
    qed
  qed
qed

definition demo_reward_env :: "fate \<Rightarrow> reward_env" where
  "demo_reward_env f = \<lparr>rw_uuid = ''u'', rw_now = 0, rw_up = True, rw_publish = f, rw_flag = Delivered, rw_flag_now = 0\<rparr>"

theorem accumulation_announces_payout_witness:
  "\<exists>db' c'. AccumulateAndMaybeSync 10 (demo_reward_env ReplyLost) ''r'' 7 (demo_db 3 20 (999 / 100), \<lparr>opened = 0, sent = []\<rparr>) =
       ((db', c'), Inl PublishFailed)
     \<and> sent c' = [sync_message ''r'' (2001 / 200)] \<and> lg_queued (ledger_of db') ''r'' = [2001 / 200]"
proof -
  let ?db = "demo_db 3 20 (999 / 100)"
  obtain db' c' r where r: "AccumulateAndMaybeSync 10 (demo_reward_env ReplyLost) ''r'' 7 (?db, \<lparr>opened = 0, sent = []\<rparr>) = ((db', c'), r)"
    by (metis prod.exhaust)
  have l: "lg_stake (ledger_of ?db) ''r'' = Some 20" "lg_balance (ledger_of ?db) ''r'' = Some (999 / 100)"
    "lg_queued (ledger_of ?db) ''r'' = []"
    by (simp_all add: ledger_of_def demo_db_def demo_runner_def queued_def)
  have wf: "wf_db ?db" by (rule wf_demo_db) (simp_all add: decimal4_def)
  have n: "new_reward 20 = 3 / 200" by (simp add: new_reward_def stake_multiplier_def)
  have "r = Inl PublishFailed"
    using r by (simp add: AccumulateAndMaybeSync_def AccumulateReward_def create_payout_event_if_threshold_def demo_db_def demo_runner_def
        n Let_def numeric_12_4_def round4_def demo_reward_env_def amqp_publish_def)
  with accumulation_announces_payout [OF wf l(1,2) _ r] r show ?thesis
    by (simp add: n l demo_reward_env_def Let_def)
qed

text \<open>The status of a runner is that of a live row of that owner.\<close>

lemma GetStatus_Inr:
  assumes "GetStatus up pk db = Inr st"
  shows "\<exists>n \<in> set (t_runner_nodes db). r_OwnerPubkey n = pk \<and> r_DeletedAt n = None \<and> rs_RunnerPubkey st = pk
    \<and> rs_PendingSync st = r_PendingSolanaSync n \<and> rs_OffchainAccumulatedTokens st = r_OffchainAccumulatedTokens n"
proof -
  from assms obtain n where n: "query_row (filter (\<lambda>n. r_OwnerPubkey n = pk \<and> r_DeletedAt n = None) (t_runner_nodes db)) = Inr n"
    by (cases "query_row (filter (\<lambda>n. r_OwnerPubkey n = pk \<and> r_DeletedAt n = None) (t_runner_nodes db))")
       (auto simp: GetStatus_def FindByPubkey_def query_def runner_by_def split: if_splits)
  with assms query_row_Inr [OF n] show ?thesis
    by (intro bexI [of _ n])
       (auto simp: GetStatus_def FindByPubkey_def query_def runner_by_def scan_runner_def RunnerNode.truncate_def split: if_splits)
qed

end
