(* ===== verification/RunnerService.thy ===== *)
theory RunnerService
  imports Registry Settlement
begin

text \<open>
  \<^verbatim>\<open>services/runner_service.go\<close>: registration and lookup of runner nodes, and the heartbeat that
  writes the database and then the in-memory registry.
\<close>

subsection \<open>Responses\<close>

record RunnerResponse =
  rr_ID :: int
  rr_OwnerPubkey :: pubkey
  rr_NodePubkey :: string
  rr_Region :: string
  rr_Latitude :: float64
  rr_Longitude :: float64
  rr_OffchainAccumulatedTokens :: rat
  rr_TotalEarnedTokensAllTime :: rat
  rr_PendingSolanaSync :: bool

text \<open>The literal of the source leaves out the node's key.\<close>

definition toRunnerResponse :: "RunnerNode \<Rightarrow> RunnerResponse" where
  "toRunnerResponse n =
     \<lparr>rr_ID = r_ID n, rr_OwnerPubkey = r_OwnerPubkey n, rr_NodePubkey = [], rr_Region = r_Region n,
      rr_Latitude = r_Latitude n, rr_Longitude = r_Longitude n,
      rr_OffchainAccumulatedTokens = r_OffchainAccumulatedTokens n,
      rr_TotalEarnedTokensAllTime = r_TotalEarnedTokensAllTime n,
      rr_PendingSolanaSync = r_PendingSolanaSync n\<rparr>"

datatype service_error = MissingFields | NotFound | Failed db_error

text \<open>\<open>parse_float\<close> is \<^verbatim>\<open>strconv.ParseFloat\<close> with its error dropped.\<close>

definition service_Register ::
  "(string \<Rightarrow> rat) \<Rightarrow> schema \<Rightarrow> instant \<Rightarrow> string \<Rightarrow> string \<Rightarrow> string \<Rightarrow> string \<Rightarrow> string \<Rightarrow> db \<Rightarrow>
   db \<times> (service_error + RunnerResponse)" where
  "service_Register parse_float sch now email ownerPubkey region latitude longitude db =
     (if ownerPubkey = [] \<or> region = [] then (db, Inl MissingFields)
      else
        (case runner_Register sch now email ownerPubkey region (parse_float latitude)
                (parse_float longitude) db of
           (db', Inl e) \<Rightarrow> (db', Inl (Failed e))
         | (db', Inr node) \<Rightarrow> (db', Inr (toRunnerResponse node))))"

definition GetByPubkey :: "bool \<Rightarrow> string \<Rightarrow> db \<Rightarrow> db_error + RunnerResponse" where
  "GetByPubkey up pubkey db = map_sum id toRunnerResponse (FindByPubkey up pubkey db)"

definition GetByNodePDA :: "bool \<Rightarrow> string \<Rightarrow> db \<Rightarrow> db_error + RunnerResponse" where
  "GetByNodePDA up nodePDA db = map_sum id toRunnerResponse (FindByNodePDA up nodePDA db)"

definition GetByNodePubKey :: "bool \<Rightarrow> string \<Rightarrow> db \<Rightarrow> db_error + RunnerResponse" where
  "GetByNodePubKey up NodePubkey db = map_sum id toRunnerResponse (FindByNodePubKey up NodePubkey db)"

text \<open>A heartbeat: the time of its database statement, its two requests and the time of the registry.\<close>

definition service_Heartbeat ::
  "instant \<Rightarrow> fate \<Rightarrow> bool \<Rightarrow> string \<Rightarrow> db \<times> MemoryRegistry \<Rightarrow> (db \<times> MemoryRegistry) \<times> (db_error + unit)"
where
  "service_Heartbeat now f up pubkey s =
     (case UpdateHeartbeat now f pubkey (fst s) of
        (db', Inl e) \<Rightarrow> ((db', snd s), Inl e)
      | (db', Inr _) \<Rightarrow>
          (case FindByNodePubKey up pubkey db' of
             Inl e \<Rightarrow> ((db', snd s), Inl e)
           | Inr node \<Rightarrow>
               ((db', TrackHeartbeat now (r_OwnerPubkey node) (r_OwnerEmail node) (r_Latitude node)
                        (r_Longitude node) (snd s)), Inr ())))"

subsection \<open>Lookups\<close>

lemma runner_by_Inr:
  "runner_by P db = Inr n \<Longrightarrow> n \<in> set (t_runner_nodes db) \<and> P n \<and> r_DeletedAt n = None"
  by (auto simp: runner_by_def dest: query_row_Inr)

lemma scan_runner_fields [simp]:
  "r_ID (scan_runner n) = r_ID n" "r_OwnerPubkey (scan_runner n) = r_OwnerPubkey n"
  "r_OwnerEmail (scan_runner n) = r_OwnerEmail n" "r_NodePubkey (scan_runner n) = r_NodePubkey n"
  "r_Region (scan_runner n) = r_Region n" "r_Latitude (scan_runner n) = r_Latitude n"
  "r_Longitude (scan_runner n) = r_Longitude n" "r_LastSeenTimestamp (scan_runner n) = r_LastSeenTimestamp n"
  by (simp_all add: scan_runner_def RunnerNode.truncate_def)

lemma FindByNodePubKey_Inr:
  assumes "FindByNodePubKey up pk db = Inr n"
  shows "\<exists>row \<in> set (t_runner_nodes db). n = scan_runner row \<and> r_NodePubkey row = Some pk
    \<and> r_DeletedAt row = None"
  using assms by (auto simp: FindByNodePubKey_def query_Inr_iff split: sum.splits dest!: runner_by_Inr)
    (cases "runner_by (\<lambda>n. r_NodePubkey n = Some pk) db"; auto dest: runner_by_Inr)+

lemma GetByNodePubKey_Inr:
  "GetByNodePubKey up pk db = Inr resp \<Longrightarrow>
     \<exists>row \<in> set (t_runner_nodes db). rr_OwnerPubkey resp = r_OwnerPubkey row \<and> r_NodePubkey row = Some pk
       \<and> r_DeletedAt row = None \<and> rr_Region resp = r_Region row"
  by (cases "FindByNodePubKey up pk db")
     (auto simp: GetByNodePubKey_def toRunnerResponse_def dest!: FindByNodePubKey_Inr)

subsection \<open>Properties\<close>

text \<open>
  A heartbeat puts its node online: after a successful heartbeat the owner of a live node with
  that key is online, and nobody else's presence has changed; a failed one leaves the registry
  as it was.
\<close>
theorem heartbeat_online:
  assumes "service_Heartbeat now f up pubkey (db, reg) = ((db', reg'), r)"
  shows "(\<exists>e. r = Inl e) \<and> reg' = reg
    \<or> r = Inr () \<and> (\<exists>row \<in> set (t_runner_nodes db'). r_NodePubkey row = Some pubkey \<and> r_DeletedAt row = None
        \<and> r_OwnerPubkey row \<in> onlineKeys now reg'
        \<and> (\<forall>k. k \<noteq> r_OwnerPubkey row \<longrightarrow> (k \<in> onlineKeys t reg' \<longleftrightarrow> k \<in> onlineKeys t reg)))"
proof (cases "UpdateHeartbeat now f pubkey db")
  case (Pair d u)
  show ?thesis
  proof (cases u)
    case (Inl e)
    with Pair assms show ?thesis by (auto simp: service_Heartbeat_def)
  next
    case (Inr x)
    show ?thesis
    proof (cases "FindByNodePubKey up pubkey d")
      case (Inl e)
      with Pair Inr assms show ?thesis by (auto simp: service_Heartbeat_def)
    next
      case n: (Inr n)
      from FindByNodePubKey_Inr [OF n] obtain row where row: "row \<in> set (t_runner_nodes d)"
        "n = scan_runner row" "r_NodePubkey row = Some pubkey" "r_DeletedAt row = None" by blast
      from assms Pair Inr n have "r = Inr ()" "db' = d" "reg' = TrackHeartbeat now (r_OwnerPubkey row)
          (r_OwnerEmail row) (r_Latitude row) (r_Longitude row) reg"
        by (auto simp: service_Heartbeat_def row(2))
      with row show ?thesis
        by (intro disjI2 conjI bexI [of _ row]) (auto simp: onlineKeys_def TrackHeartbeat_def)
    qed
  qed
qed

theorem heartbeat_online_witness:
  "\<exists>db' reg'. service_Heartbeat 7 Delivered True ''r'' (demo_db 3 20 0, NewMemoryRegistry) = ((db', reg'), Inr ())
     \<and> (\<exists>row \<in> set (t_runner_nodes db'). r_OwnerPubkey row \<in> onlineKeys 7 reg')"
proof -
  obtain db' reg' r where r:
    "service_Heartbeat 7 Delivered True ''r'' (demo_db 3 20 0, NewMemoryRegistry) = ((db', reg'), r)"
    by (metis prod.exhaust)
  moreover have "r = Inr ()"
    using r by (auto simp: service_Heartbeat_def UpdateHeartbeat_def FindByNodePubKey_def runner_by_def
        query_row_def demo_db_def demo_runner_def)
  ultimately show ?thesis using heartbeat_online [OF r] by auto
qed

text \<open>
  Registration under \<^verbatim>\<open>schema.sql\<close> always fails and stores nothing: its unique index on the
  owner's key is partial, so that \<^verbatim>\<open>ON CONFLICT\<close> finds no arbiter, and the node key it does not
  supply is required; either reason alone suffices.
\<close>
theorem registration_needs_another_schema:
  assumes "\<not> arbiter_owner_pubkey sch \<or> \<not> node_pubkey_nullable sch"
  shows "(\<exists>e. snd (service_Register pf sch now email pk region lat lng db) = Inl e)
    \<and> t_runner_nodes (fst (service_Register pf sch now email pk region lat lng db)) = t_runner_nodes db
    \<and> \<not> arbiter_owner_pubkey schema_sql \<and> \<not> node_pubkey_nullable schema_sql"
  using assms by (auto simp: service_Register_def runner_Register_def schema_sql_def Let_def)

theorem registration_needs_another_schema_witness:
  "\<exists>e. snd (service_Register (\<lambda>_. 0) schema_sql 0 ''w'' ''k'' ''eu'' ''1'' ''2'' (demo_db 3 20 0)) = Inl e"
  using registration_needs_another_schema [of schema_sql] by (simp add: schema_sql_def)

text \<open>
  Registration is an upsert: under a schema that admits it, a successful registration keeps the
  tables well formed, leaves exactly one node of that owner, keeps the balances and the stake of a node that was
  there, and touches no node of another owner.
\<close>
theorem register_upserts:
  assumes "wf_db db" "service_Register pf sch now email pk region lat lng db = (db', Inr resp)"
  shows "wf_db db' \<and> rr_OwnerPubkey resp = pk
    \<and> length (filter (\<lambda>n. r_OwnerPubkey n = pk) (t_runner_nodes db')) = 1
    \<and> filter (\<lambda>n. r_OwnerPubkey n \<noteq> pk) (t_runner_nodes db')
        = filter (\<lambda>n. r_OwnerPubkey n \<noteq> pk) (t_runner_nodes db)
    \<and> (\<forall>b. lg_balance (ledger_of db) pk = Some b \<longrightarrow>
        lg_balance (ledger_of db') pk = Some b \<and> lg_earned (ledger_of db') pk = lg_earned (ledger_of db) pk
        \<and> lg_stake (ledger_of db') pk = lg_stake (ledger_of db) pk)"
proof -
  from assms(2) obtain node where node: "runner_Register sch now email pk region (pf lat) (pf lng) db = (db', Inr node)"
    "resp = toRunnerResponse node"
    by (auto simp: service_Register_def split: if_splits prod.splits sum.splits)
  have d: "distinct (map r_OwnerPubkey (t_runner_nodes db))" using assms(1) by (simp add: wf_db_def)
  let ?refresh = "\<lambda>n :: runner_row. n\<lparr>r_LastSeenTimestamp := now, r_Region := region,
     r_Latitude := the (numeric_9_6 (pf lat)), r_Longitude := the (numeric_9_6 (pf lng)), r_UpdatedAt := now\<rparr>"
  show ?thesis
  proof (cases "filter (\<lambda>n. r_OwnerPubkey n = pk) (t_runner_nodes db)")
    case (Cons n ns)
    then have n: "n \<in> set (t_runner_nodes db)" "r_OwnerPubkey n = pk" by (auto simp: filter_eq_Cons_iff)
    let ?rows = "update_where (\<lambda>n. r_OwnerPubkey n = pk) ?refresh (t_runner_nodes db)"
    from node Cons have rows: "t_runner_nodes db' = ?rows" "t_users db' = t_users db"
      "t_monitors db' = t_monitors db" "t_sync_events db' = t_sync_events db" "r_OwnerPubkey node = pk"
      using n by (auto simp: runner_Register_def Let_def RunnerNode.truncate_def split: if_splits)
    from update_where_split [OF d n(1), of ?refresh] n(2) obtain a b where
      ab: "t_runner_nodes db = a @ n # b" "?rows = a @ ?refresh n # b" by auto
    have "distinct (map r_OwnerPubkey (a @ n # b))" using d by (simp only: ab(1))
    with n(2) have "pk \<notin> r_OwnerPubkey ` (set a \<union> set b)" by auto
    then have others: "\<forall>x \<in> set a \<union> set b. r_OwnerPubkey x \<noteq> pk" by blast
    have wf: "wf_db db'" using assms(1) unfolding wf_db_def rows by (auto simp: map_update_where set_update_where)
    have one: "filter (\<lambda>n. r_OwnerPubkey n = pk) ?rows = [?refresh n]"
      using others n(2) by (simp add: ab(2) filter_empty_conv)
    have rest: "filter (\<lambda>n. r_OwnerPubkey n \<noteq> pk) ?rows = filter (\<lambda>n. r_OwnerPubkey n \<noteq> pk) (t_runner_nodes db)"
      unfolding ab(2) unfolding ab(1) using n(2) by simp
    have "lg_balance (ledger_of db') = lg_balance (ledger_of db)"
      "lg_earned (ledger_of db') = lg_earned (ledger_of db)" "lg_stake (ledger_of db') = lg_stake (ledger_of db)"
      unfolding ledger_of_def rows by (simp_all add: column_same)
    with wf one rest rows(1,5) node(2) show ?thesis by (simp add: toRunnerResponse_def)
  next
    case Nil
    with node obtain row where rows: "t_runner_nodes db' = t_runner_nodes db @ [row]" "t_users db' = t_users db"
      "t_monitors db' = t_monitors db" "r_OwnerPubkey row = pk" "r_OffchainAccumulatedTokens row = 0"
      "r_TotalEarnedTokensAllTime row = 0" "r_OwnerPubkey node = pk"
      by (auto simp: runner_Register_def Let_def RunnerNode.truncate_def split: if_splits)
    from Nil have no: "\<forall>x \<in> set (t_runner_nodes db). r_OwnerPubkey x \<noteq> pk" by (simp add: filter_empty_conv)
    have "wf_db db'" using assms(1) no unfolding wf_db_def rows(1-3) by (auto simp: rows)
    moreover have "lg_balance (ledger_of db) pk = None"
      unfolding ledger_of_def using Nil by (simp add: column_None)
    ultimately show ?thesis using rows no Nil node(2) by (simp add: toRunnerResponse_def filter_empty_conv)
  qed
qed

theorem register_upserts_witness:
  "\<exists>db' resp. service_Register (\<lambda>_. 0) \<lparr>arbiter_owner_pubkey = True, node_pubkey_nullable = True\<rparr> 5 ''w'' ''r'' ''us''
       ''1'' ''2'' (demo_db 3 20 0) = (db', Inr resp)
     \<and> length (filter (\<lambda>n. r_OwnerPubkey n = ''r'') (t_runner_nodes db')) = 1"
proof -
  have "\<exists>resp db'. service_Register (\<lambda>_. 0) \<lparr>arbiter_owner_pubkey = True, node_pubkey_nullable = True\<rparr> 5 ''w'' ''r''
      ''us'' ''1'' ''2'' (demo_db 3 20 0) = (db', Inr resp)"
    by (simp add: service_Register_def runner_Register_def numeric_9_6_def demo_db_def demo_runner_def Let_def)
  then obtain db' resp where r: "service_Register (\<lambda>_. 0) \<lparr>arbiter_owner_pubkey = True, node_pubkey_nullable = True\<rparr>
      5 ''w'' ''r'' ''us'' ''1'' ''2'' (demo_db 3 20 0) = (db', Inr resp)" by blast
  have "wf_db (demo_db 3 20 0)" by (simp add: wf_demo_db)
  from register_upserts [OF this r] r show ?thesis by blast
qed

text \<open>
  What the lookups cannot answer: a lookup by program address never succeeds, since its query selects fewer columns than
  it scans, and no lookup of the service ever returns the node's key.
\<close>
theorem lookups_lack_node_key:
  "(\<exists>e. GetByNodePDA up pda db = Inl e)
   \<and> (\<forall>resp. GetByPubkey up pk db = Inr resp \<or> GetByNodePubKey up pk db = Inr resp \<longrightarrow> rr_NodePubkey resp = [])"
proof -
  have "\<exists>e. GetByNodePDA up pda db = Inl e"
    by (auto simp: GetByNodePDA_def FindByNodePDA_def query_def scan_into_def split: sum.splits)
  moreover have "map_sum id toRunnerResponse s = Inr resp \<Longrightarrow> rr_NodePubkey resp = []"
    for resp and s :: "db_error + RunnerNode"
    by (cases s) (auto simp: toRunnerResponse_def)
  ultimately show ?thesis by (auto simp: GetByPubkey_def GetByNodePubKey_def)
qed

end
