(* ===== verification/Solana.thy ===== *)
theory Solana
  imports Binary64 Store
begin

unbundle bit_operations_syntax

text \<open>
  The Solana side: the reward transaction that \<^verbatim>\<open>executeRewardTx\<close> of \<^verbatim>\<open>workers/solana_sync.go\<close> builds and sends,
  the key check \<^verbatim>\<open>GetBackendPrivateKey\<close> of \<^verbatim>\<open>config/env/env.go\<close> and the client of \<^verbatim>\<open>solana/solana_client.go\<close> that
  reads a transaction back. The library \<^verbatim>\<open>solana-go\<close> (base58, program addresses, signing, the RPC), SHA-256 and the chain
  are parameters; the chain is the list of transactions it took.
\<close>

subsection \<open>Little-endian numbers\<close>

text \<open>\<^verbatim>\<open>binary.LittleEndian.PutUint64\<close> and \<^verbatim>\<open>Uint64\<close>.\<close>

definition put_uint64 :: "u64 \<Rightarrow> byte list" where
  "put_uint64 w = map (\<lambda>i. ucast (drop_bit (8 * i) w)) [0..<8]"

definition get_uint64 :: "byte list \<Rightarrow> u64" where
  "get_uint64 bs = foldr (\<lambda>b w. ucast b OR push_bit 8 w) (take 8 bs) 0"

lemma length_put_uint64 [simp]: "length (put_uint64 w) = 8"
  by (simp add: put_uint64_def)

lemma get_put_bytes:
  "foldr (\<lambda>b v. ucast b OR push_bit 8 v) (map (\<lambda>i. ucast (drop_bit (8 * i) w) :: byte) [k..<k + n]) 0
     = take_bit (8 * n) (drop_bit (8 * k) (w :: u64))"
proof (induction n arbitrary: k)
  case (Suc n)
  have "[k..<k + Suc n] = k # [Suc k..<Suc k + n]" by (simp add: upt_conv_Cons)
  moreover have "ucast (ucast (drop_bit (8 * k) w) :: byte) OR push_bit 8 (take_bit (8 * n) (drop_bit (8 * Suc k) w))
      = take_bit (8 * Suc n) (drop_bit (8 * k) w)"
    by (rule bit_word_eqI) (auto simp: bit_simps)
  ultimately show ?case using Suc.IH [of "Suc k"] by simp
qed simp

lemma get_put_uint64 [simp]: "get_uint64 (put_uint64 w @ rest) = w"
  using get_put_bytes [of w 0 8] by (simp add: get_uint64_def put_uint64_def take_bit_word_eq_self)

subsection \<open>Decimal numbers\<close>

text \<open>\<^verbatim>\<open>strconv.ParseUint(s, 10, 64)\<close>.\<close>

definition is_digit :: "char \<Rightarrow> bool" where
  "is_digit c \<longleftrightarrow> 48 \<le> (of_char c :: nat) \<and> of_char c \<le> (57 :: nat)"

definition parse_uint64 :: "string \<Rightarrow> u64 option" where
  "parse_uint64 s =
     (if s = [] \<or> \<not> list_all is_digit s \<or> 2 ^ 64 \<le> value_of 0 s then None
      else Some (of_nat (value_of 0 s)))"

lemma digits_of_nonempty [simp]: "digits_of n \<noteq> []"
  by (subst digits_of.simps) simp

lemma parse_digits: "parse_uint64 (digits_of n) = (if n < 2 ^ 64 then Some (of_nat n) else None)"
  using digits_of_chars by (auto simp: parse_uint64_def list_all_iff is_digit_def)

subsection \<open>Transactions\<close>

record account_meta =
  am_key :: "byte list"
  am_signer :: bool
  am_writable :: bool

record instruction =
  in_program :: "byte list"
  in_accounts :: "account_meta list"
  in_data :: "byte list"

record transaction =
  tx_instructions :: "instruction list"
  tx_blockhash :: "byte list"
  tx_payer :: "byte list"

text \<open>What the code takes from its libraries.\<close>

record solana_lib =
  sl_base58 :: "string \<Rightarrow> byte list option"
  sl_pubkey :: "string \<Rightarrow> byte list option"
  sl_public :: "byte list \<Rightarrow> byte list"
  sl_address :: "byte list list \<Rightarrow> byte list \<Rightarrow> byte list option"
  sl_sha256 :: "byte list \<Rightarrow> byte list"

definition bytes :: "string \<Rightarrow> byte list" where
  "bytes s = map of_char s"

definition GetBackendPrivateKey :: "solana_lib \<Rightarrow> string \<Rightarrow> byte list option" where
  "GetBackendPrivateKey L hex =
     (case sl_base58 L hex of
        None \<Rightarrow> None
      | Some raw \<Rightarrow> if length raw \<noteq> 64 then None else Some raw)"

subsection \<open>executeRewardTx\<close>

definition programID :: string where
  "programID = ''DVicVozhh4y38dA6iCzfPp2c4xj5Q29mJq6HgF5Eufiz''"

text \<open>
  The amount in raw units: a multiplication of floats, then Go's conversion to \<^verbatim>\<open>uint64\<close>, which drops
  the fraction of a number in range.
\<close>

definition amount_raw :: "float64 \<Rightarrow> u64" where
  "amount_raw amount = word_of_int \<lfloor>fl (amount * 1000000000)\<rfloor>"

definition reward_data :: "solana_lib \<Rightarrow> float64 \<Rightarrow> byte list" where
  "reward_data L amount =
     take 8 (sl_sha256 L (bytes ''global:add_reward'')) @ put_uint64 (amount_raw amount)"

record rpc_env =
  xe_blockhash :: "byte list option"
  xe_build :: bool
  xe_sign :: bool
  xe_send :: fate
  xe_sig :: string

datatype tx_result = Panicked | Rejected | Accepted string

text \<open>\<^verbatim>\<open>MustPublicKeyFromBase58\<close> panics on a string that is not a key.\<close>

definition executeRewardTx ::
  "solana_lib \<Rightarrow> string \<Rightarrow> rpc_env \<Rightarrow> string \<Rightarrow> float64 \<Rightarrow> transaction list \<Rightarrow>
   transaction list \<times> tx_result" where
  "executeRewardTx L keyHex xe ownerPubkey amount chain =
     (case GetBackendPrivateKey L keyHex of
        None \<Rightarrow> (chain, Rejected)
      | Some backendSigner \<Rightarrow>
     (case (sl_pubkey L programID, sl_pubkey L ownerPubkey) of
        (Some program, Some nodePubkey) \<Rightarrow>
          (case sl_address L [bytes ''node'', nodePubkey, sl_sha256 L (bytes ''test1@gmail.com'')] program of
             None \<Rightarrow> (chain, Rejected)
           | Some nodePDA \<Rightarrow>
               (let instr = \<lparr>in_program = program,
                      in_accounts =
                        [\<lparr>am_key = nodePDA, am_signer = False, am_writable = True\<rparr>,
                         \<lparr>am_key = sl_public L backendSigner, am_signer = True, am_writable = False\<rparr>],
                      in_data = reward_data L amount\<rparr>
                in (case xe_blockhash xe of
                      None \<Rightarrow> (chain, Rejected)
                    | Some recent \<Rightarrow>
                        if \<not> xe_build xe \<or> \<not> xe_sign xe then (chain, Rejected)
                        else
                          (case remote (xe_send xe)
                                 (\<lambda>ch. (ch @ [\<lparr>tx_instructions = [instr], tx_blockhash = recent,
                                               tx_payer = sl_public L backendSigner\<rparr>], xe_sig xe))
                                 chain of
                             (chain', None) \<Rightarrow> (chain', Rejected)
                           | (chain', Some sig) \<Rightarrow> (chain', Accepted sig)))))
      | _ \<Rightarrow> (chain, Panicked)))"

subsection \<open>The client\<close>

datatype client_error =
    InvalidPubkey
  | InvalidSignature
  | RpcFailed
  | EmptyResult
  | BadNumber
  | BadTransaction
  | NoInstructions
  | DataTooShort
  | AmountMismatch u64 u64

text \<open>The RPC is a parameter: no answer, an empty one, or a string.\<close>

definition GetTokenAccountBalance ::
  "solana_lib \<Rightarrow> (byte list \<Rightarrow> string option option) \<Rightarrow> string \<Rightarrow> client_error + u64" where
  "GetTokenAccountBalance L rpc account =
     (case sl_pubkey L account of
        None \<Rightarrow> Inl InvalidPubkey
      | Some key \<Rightarrow>
          (case rpc key of
             None \<Rightarrow> Inl RpcFailed
           | Some None \<Rightarrow> Inl EmptyResult
           | Some (Some s) \<Rightarrow>
               (case parse_uint64 s of None \<Rightarrow> Inl BadNumber | Some b \<Rightarrow> Inr b)))"

definition GetSOLBalance ::
  "solana_lib \<Rightarrow> (byte list \<Rightarrow> u64 option option) \<Rightarrow> string \<Rightarrow> client_error + u64" where
  "GetSOLBalance L rpc wallet =
     (case sl_pubkey L wallet of
        None \<Rightarrow> Inl InvalidPubkey
      | Some key \<Rightarrow>
          (case rpc key of
             None \<Rightarrow> Inl RpcFailed
           | Some None \<Rightarrow> Inl EmptyResult
           | Some (Some v) \<Rightarrow> Inr v))"

definition ValidateOnChainAmount ::
  "(string \<Rightarrow> 'sig option) \<Rightarrow> ('sig \<Rightarrow> transaction option option) \<Rightarrow> string \<Rightarrow> u64 \<Rightarrow> client_error + bool"
where
  "ValidateOnChainAmount parse_sig rpc txSignature expectedAmount =
     (case parse_sig txSignature of
        None \<Rightarrow> Inl InvalidSignature
      | Some sig \<Rightarrow>
     (case rpc sig of
        None \<Rightarrow> Inl RpcFailed
      | Some None \<Rightarrow> Inl BadTransaction
      | Some (Some tx) \<Rightarrow>
     (case tx_instructions tx of
        [] \<Rightarrow> Inl NoInstructions
      | instr # _ \<Rightarrow>
          (let data = in_data instr
           in if length data < 16 then Inl DataTooShort
              else
                (let onChainAmount = get_uint64 (drop 8 data)
                 in if onChainAmount \<noteq> expectedAmount
                    then Inl (AmountMismatch expectedAmount onChainAmount)
                    else Inr True)))))"

lemma executeRewardTx_cases:
  assumes "executeRewardTx L keyHex xe owner amount chain = (chain', r)"
  obtains (none) "chain' = chain" "r = Panicked \<or> r = Rejected"
  | (sent) tx where "chain' = chain @ [tx]" "in_data (hd (tx_instructions tx)) = reward_data L amount"
      "tx_instructions tx \<noteq> []" "xe_send xe \<noteq> RequestLost"
      "r = (if xe_send xe = Delivered then Accepted (xe_sig xe) else Rejected)"
  using assms
  by (cases "xe_send xe")
     (auto simp: executeRewardTx_def Let_def split: option.splits if_splits prod.splits)

text \<open>The address a reward is for: that of the node of an owner, under the one e-mail address the code has.\<close>

definition node_address :: "solana_lib \<Rightarrow> string \<Rightarrow> byte list option" where
  "node_address L owner =
     (case (sl_pubkey L programID, sl_pubkey L owner) of
        (Some program, Some key) \<Rightarrow>
          sl_address L [bytes ''node'', key, sl_sha256 L (bytes ''test1@gmail.com'')] program
      | _ \<Rightarrow> None)"

definition recipient :: "transaction \<Rightarrow> byte list" where
  "recipient tx = am_key (hd (in_accounts (hd (tx_instructions tx))))"

lemma executeRewardTx_recipient:
  "executeRewardTx L keyHex xe owner amount chain = (chain @ [tx], r) \<Longrightarrow> node_address L owner = Some (recipient tx)"
  by (cases "xe_send xe")
     (auto simp: executeRewardTx_def node_address_def recipient_def Let_def split: option.splits if_splits prod.splits)

lemma executeRewardTx_invalid_owner:
  "GetBackendPrivateKey L keyHex \<noteq> None \<Longrightarrow> sl_pubkey L owner = None \<Longrightarrow>
     executeRewardTx L keyHex xe owner amount chain = (chain, Panicked)"
  by (auto simp: executeRewardTx_def split: option.splits)

subsection \<open>Properties\<close>

lemma floor_near_int:
  assumes "\<bar>x - of_int n\<bar> < (1 :: rat)"
  shows "\<lfloor>x\<rfloor> = n \<or> \<lfloor>x\<rfloor> = n - 1"
  using assms by linarith

lemma loses_a_unit: "amount_raw (fl (16.0005)) = 16000499999"
proof -
  have "fl 16.0005 = of_int 4503740364858851 * 2 powi (4 - 52)"
    by (rule fl_near) (simp_all add: power_int_def power_divide abs_if)
  then have a: "fl 16.0005 * 1000000000 = 4503740364858851 * 1000000000 / 2 ^ 48"
    by (simp add: power_int_def power_divide)
  have "fl (4503740364858851 * 1000000000 / 2 ^ 48) = of_int 8388870143999999 * 2 powi (33 - 52)"
    by (rule fl_near) (simp_all add: power_int_def power_divide abs_if)
  then have "fl (fl 16.0005 * 1000000000) = 8388870143999999 / 2 ^ 19"
    unfolding a by (simp add: power_int_def power_divide)
  then have "\<lfloor>fl (fl 16.0005 * 1000000000)\<rfloor> = \<lfloor>8388870143999999 / 2 ^ 19 :: rat\<rfloor>" by (simp only:)
  also have "\<dots> = 16000499999" by (rule floor_unique) simp_all
  finally show ?thesis unfolding amount_raw_def by (simp only:) simp
qed

text \<open>Up to a million tokens, the conversion is off by less than a raw unit, downwards.\<close>

lemma amount_raw_near:
  assumes "decimal4 a" "0 \<le> a" "a \<le> 1000000"
  shows "of_nat (unat (amount_raw (fl a))) = a * 1000000000 \<or> of_nat (unat (amount_raw (fl a))) = a * 1000000000 - 1"
proof -
  obtain m :: int where m: "a = of_int m / 10000" using assms(1) by (auto simp: decimal4_iff)
  define n where "n = m * 100000"
  have n: "a * 1000000000 = of_int n" by (simp add: m n_def)
  define x where "x = fl a * 1000000000"
  have 1: "\<bar>x - of_int n\<bar> \<le> of_int n / 2 ^ 53"
  proof -
    have "\<bar>x - of_int n\<bar> = \<bar>fl a - a\<bar> * 1000000000"
      using abs_mult [of "fl a - a" "1000000000 :: rat"] by (simp add: x_def n [symmetric] left_diff_distrib)
    also have "\<dots> \<le> \<bar>a\<bar> / 2 ^ 53 * 1000000000" by (intro mult_right_mono fl_error) simp
    also have "\<dots> = of_int n / 2 ^ 53" using assms(2) n by simp
    finally show ?thesis .
  qed
  have nb: "0 \<le> (of_int n :: rat)" "(of_int n :: rat) \<le> 1000000000000000"
    using assms(2,3) n by simp_all
  have x: "0 \<le> x" using assms(2) by (simp add: x_def fl_nonneg)
  have "of_int n / 2 ^ 53 \<le> (1 / 2 :: rat)" using nb by simp
  with 1 have d: "\<bar>x - of_int n\<bar> \<le> 1 / 2" by linarith
  with nb have "x \<le> 2 * 1000000000000000" by linarith
  then have "x / 2 ^ 53 < 1 / 2" by simp
  moreover have "\<bar>fl x - x\<bar> \<le> x / 2 ^ 53" using fl_error [of x] x by simp
  ultimately have "\<bar>fl x - of_int n\<bar> < 1" using d by linarith
  from floor_near_int [OF this] have f: "\<lfloor>fl x\<rfloor> = n \<or> \<lfloor>fl x\<rfloor> = n - 1" .
  have "0 \<le> \<lfloor>fl x\<rfloor>" using fl_nonneg [OF x] by simp
  moreover have "\<lfloor>fl x\<rfloor> < 2 ^ 64"
  proof -
    have "n \<le> 1000000000000000" using nb(2) by simp
    then have "n < 2 ^ 64" by simp
    with f show ?thesis by linarith
  qed
  ultimately have "unat (amount_raw (fl a)) = nat \<lfloor>fl x\<rfloor>"
    by (simp add: amount_raw_def x_def unat_eq_nat_uint uint_word_of_int_eq take_bit_int_eq_self)
  then show ?thesis
    using f n \<open>0 \<le> \<lfloor>fl x\<rfloor>\<close> by auto
qed

text \<open>
  A payout loses at most one raw unit: for an amount with four decimals of up to a million tokens, the number put on
  the chain is the exact number of raw units or one less; the loss does occur.
\<close>
theorem amount_conversion:
  assumes "decimal4 a" "0 \<le> a" "a \<le> 1000000"
  shows "(of_nat (unat (amount_raw (fl a))) = a * 1000000000 \<or> of_nat (unat (amount_raw (fl a))) = a * 1000000000 - 1)
    \<and> of_nat (unat (amount_raw (fl (16.0005)))) = 16.0005 * 1000000000 - (1 :: rat)"
  using amount_raw_near [OF assms] unfolding loses_a_unit by simp

text \<open>
  C25. A reward transaction validates for its own amount: whatever was sent for a payout, the client reads back
  the raw amount of that payout, and no other expected amount is accepted.
\<close>
theorem reward_tx_validates:
  assumes "length (sl_sha256 L (bytes ''global:add_reward'')) = 32"
    and "executeRewardTx L keyHex xe owner amount chain = (chain @ [tx], r)"
    and "parse_sig s = Some sig" "rpc sig = Some (Some tx)"
  shows "ValidateOnChainAmount parse_sig rpc s expected =
    (if expected = amount_raw amount then Inr True else Inl (AmountMismatch expected (amount_raw amount)))"
  using assms(2)
proof (cases rule: executeRewardTx_cases)
  case (sent tx')
  obtain i rest where i: "tx_instructions tx = i # rest" "in_data i = reward_data L amount"
    using sent(1-3) by (cases "tx_instructions tx") auto
  have "drop 8 (in_data i) = put_uint64 (amount_raw amount)" "length (in_data i) = 16"
    using assms(1) by (simp_all add: i reward_data_def)
  then show ?thesis
    using get_put_uint64 [of "amount_raw amount" "[]"] by (auto simp: ValidateOnChainAmount_def assms(3,4) i(1))
qed simp

theorem amount_conversion_witness:
  "of_nat (unat (amount_raw (fl (16.0005 :: rat)))) \<in> {16000500000, 16000499999 :: rat}"
proof -
  have "decimal4 (16.0005 :: rat)" by (simp add: decimal4_def)
  from amount_conversion [OF this] show ?thesis by simp
qed

definition demo_lib :: solana_lib where
  "demo_lib = \<lparr>sl_base58 = (\<lambda>_. Some (replicate 64 0)), sl_pubkey = (\<lambda>s. if s = [] then None else Some (bytes s)),
     sl_public = drop 32, sl_address = (\<lambda>seeds p. Some (concat seeds)), sl_sha256 = (\<lambda>_. replicate 32 7)\<rparr>"

definition demo_rpc :: "fate \<Rightarrow> rpc_env" where
  "demo_rpc f = \<lparr>xe_blockhash = Some [], xe_build = True, xe_sign = True, xe_send = f, xe_sig = ''sig''\<rparr>"

theorem reward_tx_validates_witness:
  "\<exists>tx. executeRewardTx demo_lib ''key'' (demo_rpc ReplyLost) ''r'' 10 [] = ([tx], Rejected)
     \<and> ValidateOnChainAmount Some (\<lambda>_. Some (Some tx)) ''s'' (amount_raw 10) = Inr True"
proof -
  have "\<exists>tx. executeRewardTx demo_lib ''key'' (demo_rpc ReplyLost) ''r'' 10 [] = ([] @ [tx], Rejected)"
    by (simp add: executeRewardTx_def GetBackendPrivateKey_def demo_lib_def demo_rpc_def programID_def Let_def)
  then obtain tx where tx: "executeRewardTx demo_lib ''key'' (demo_rpc ReplyLost) ''r'' 10 [] = ([] @ [tx], Rejected)"
    by blast
  have "length (sl_sha256 demo_lib (bytes ''global:add_reward'')) = 32" by (simp add: demo_lib_def)
  from reward_tx_validates [where parse_sig = Some and rpc = "\<lambda>_. Some (Some tx)", OF this tx] tx
  show ?thesis by (intro exI [of _ tx]) simp
qed

end
