(* ===== verification/Grpc.thy ===== *)
theory Grpc
  imports RunnerService Validator PingLogs Broker
begin

text \<open>
  The gRPC server of \<^verbatim>\<open>grpc/server.go\<close>: the handshake and the message loop of \<^verbatim>\<open>JobStream\<close>, the handling of
  probe results, and the bridge from \<^verbatim>\<open>job_queue\<close> to the connected miners. Sessions run
  concurrently, so a stream is a state machine that advances by one received message, and the server is the
  step relation \<open>grpc_step\<close> over all of them. The messages are those of \<^verbatim>\<open>proto/monitor.proto\<close>.
\<close>

subsection \<open>Messages\<close>

record MinerRegister =
  mr_NodeId :: string
  mr_Version :: string
  mr_TimestampMs :: u64

record Ping =
  pi_TimestampMs :: u64
  pi_NodeId :: string

record ProbeResult =
  pb_JobId :: string
  pb_BatchId :: string
  pb_NodeId :: string
  pb_TargetUrl :: string
  pb_Success :: bool
  pb_StatusCode :: u32
  pb_DnsUs :: u64
  pb_TcpUs :: u64
  pb_TlsUs :: u64
  pb_TtfbUs :: u64
  pb_TotalUs :: u64
  pb_ErrorKind :: string
  pb_ErrorMsg :: string
  pb_TimestampMs :: u64
  pb_TaskNonce :: string
  pb_Signature :: string

datatype MinerMessage =
    MinerMessage_Register MinerRegister
  | MinerMessage_Ping Ping
  | MinerMessage_Result ProbeResult
  | MinerMessage_AuthResponse string
  | MinerMessage_Empty

record Job =
  job_JobId :: string
  job_TargetUrl :: string
  job_TimeoutMs :: u32
  job_TaskNonce :: string

record JobBatch =
  jb_BatchId :: string
  jb_Jobs :: "Job list"

datatype ServerMessage =
    ServerMessage_Pong u64 u64
  | ServerMessage_JobBatch JobBatch
  | ServerMessage_AuthChallenge string

subsection \<open>State\<close>

text \<open>
  A channel \<^verbatim>\<open>sendCh\<close> is a reference: it is named by the number of the session that made it, and
  \<open>g_chans\<close> holds what is buffered in each.
\<close>

record connectedMiner =
  cm_nodeID :: string
  cm_latitude :: float64
  cm_longitude :: float64
  cm_region :: string
  cm_sendCh :: nat

record 's grpc_state =
  g_rdb :: 's
  g_miners :: "pubkey \<Rightarrow> connectedMiner option"
  g_chans :: "nat \<Rightarrow> ServerMessage list"
  g_rabbitCh :: shared_channel
  g_conn :: connection
  g_db :: db
  g_reg :: MemoryRegistry

definition sendCh_capacity :: nat where
  "sendCh_capacity = 64"

subsection \<open>Probe results\<close>

record result_env =
  re_time :: instant
  re_nonce :: fate
  re_rate :: "fate \<times> fate"
  re_latency :: "fate \<times> fate"
  re_open :: bool
  re_publish :: fate

definition result_item ::
  "string \<Rightarrow> connectedMiner option \<Rightarrow> ProbeResult \<Rightarrow> PingResultItem" where
  "result_item nodeID miner r =
     (let (region, lat, lng) = (case miner of
            None \<Rightarrow> (''Unknown'', 0, 0)
          | Some m \<Rightarrow> (cm_region m, cm_latitude m, cm_longitude m));
          parts = split_on (CHR '':'') (pb_JobId r);
          monitorID = (if 1 \<le> length parts then parts ! 0 else [])
      in \<lparr>pr_JobID = pb_JobId r, pr_BatchID = pb_BatchId r, pr_NodeID = nodeID,
          pr_TargetURL = pb_TargetUrl r, pr_Success = pb_Success r,
          pr_StatusCode = uint (pb_StatusCode r), pr_DnsUs = pb_DnsUs r, pr_TcpUs = pb_TcpUs r,
          pr_TlsUs = pb_TlsUs r, pr_TtfbUs = pb_TtfbUs r, pr_TotalUs = pb_TotalUs r,
          pr_LatencyMs = uint (pb_TotalUs r div 1000), pr_TaskNonce = [],
          pr_ErrorKind = pb_ErrorKind r, pr_ErrorMsg = pb_ErrorMsg r, pr_MonitorID = monitorID,
          pr_GeoRegion = region, pr_TimestampMs = pb_TimestampMs r, pr_Latitude = lat,
          pr_Longitude = lng\<rparr>)"

definition result_message :: "string \<Rightarrow> pubkey \<Rightarrow> PingResultItem \<Rightarrow> message" where
  "result_message nodeID runnerPubkey item =
     \<lparr>msg_exchange = ''monitor_updates'', msg_key = [],
      msg_body = encode_packet \<lparr>rp_NodeId = nodeID, rp_RunnerPubkey = runnerPubkey,
        rp_Signature = [], rp_Results = [item]\<rparr>\<rparr>"

text \<open>The end of the handler: a healthy channel, the publish, and the channel closed when it fails.\<close>

definition publish_result ::
  "result_env \<Rightarrow> message \<Rightarrow> 's grpc_state \<Rightarrow> 's grpc_state" where
  "publish_result re m g =
     (case GetHealthyChannel (re_open re) (g_rabbitCh g) (g_conn g) of
        ((rch, c), None) \<Rightarrow> g\<lparr>g_rabbitCh := rch, g_conn := c\<rparr>
      | ((rch, c), Some ch) \<Rightarrow>
          (case amqp_publish (re_publish re) m c of
             (c', Some _) \<Rightarrow> g\<lparr>g_rabbitCh := rch, g_conn := c'\<rparr>
           | (c', None) \<Rightarrow> g\<lparr>g_rabbitCh := Some (ch, True), g_conn := c'\<rparr>))"

definition handleProbeResult ::
  "'s redis \<Rightarrow> (string \<Rightarrow> string \<Rightarrow> string \<Rightarrow> bool) \<Rightarrow> result_env \<Rightarrow> string \<Rightarrow> pubkey \<Rightarrow> ProbeResult \<Rightarrow>
   's grpc_state \<Rightarrow> 's grpc_state" where
  "handleProbeResult R verify re nodeID runnerPubkey r g =
     (case ValidateTaskNonce R (re_nonce re) (re_time re) (pb_TaskNonce r) (g_rdb g) of
        (s1, Some _) \<Rightarrow> g\<lparr>g_rdb := s1\<rparr>
      | (s1, None) \<Rightarrow>
          (if VerifySignature verify nodeID (pb_JobId r @ pb_TaskNonce r) (pb_Signature r) \<noteq> None
           then g\<lparr>g_rdb := s1\<rparr>
           else
             (case CheckRateLimit R (fst (re_rate re)) (snd (re_rate re)) (re_time re) nodeID 600 s1 of
                (s2, Some _) \<Rightarrow> g\<lparr>g_rdb := s2\<rparr>
              | (s2, None) \<Rightarrow>
                  (case DetectFakeLatency R (fst (re_latency re)) (snd (re_latency re)) (re_time re)
                          nodeID (uint (pb_TotalUs r div 1000)) s2 of
                     (s3, Some _) \<Rightarrow> g\<lparr>g_rdb := s3\<rparr>
                   | (s3, None) \<Rightarrow>
                       publish_result re
                         (result_message nodeID runnerPubkey
                           (result_item nodeID (g_miners g runnerPubkey) r))
                         (g\<lparr>g_rdb := s3\<rparr>)))))"

subsection \<open>Miner messages\<close>

record message_env =
  me_result :: result_env
  me_now :: instant
  me_heartbeat :: fate
  me_lookup :: bool

definition handleMinerMessage ::
  "'s redis \<Rightarrow> (string \<Rightarrow> string \<Rightarrow> string \<Rightarrow> bool) \<Rightarrow> message_env \<Rightarrow> string \<Rightarrow> pubkey \<Rightarrow> MinerMessage \<Rightarrow>
   's grpc_state \<Rightarrow> 's grpc_state \<times> ServerMessage list" where
  "handleMinerMessage R verify me nodeID runnerPubkey msg g =
     (case msg of
        MinerMessage_Ping p \<Rightarrow>
          (case service_Heartbeat (me_now me) (me_heartbeat me) (me_lookup me) nodeID (g_db g, g_reg g) of
             ((db', reg'), _) \<Rightarrow>
               (g\<lparr>g_db := db', g_reg := reg'\<rparr>,
                [ServerMessage_Pong (pi_TimestampMs p) (word_of_int (me_now me div 1000000))]))
      | MinerMessage_Result r \<Rightarrow>
          (handleProbeResult R verify (me_result me) nodeID runnerPubkey r g, [])
      | MinerMessage_AuthResponse _ \<Rightarrow> (g, [])
      | MinerMessage_Register _ \<Rightarrow> (g, [])
      | MinerMessage_Empty \<Rightarrow> (g, []))"

subsection \<open>JobStream\<close>

datatype grpc_code = EndOfStream | InvalidArgument | Unauthenticated | Internal | NotFound | Transport

datatype phase =
    AwaitRegister
  | AwaitAuth string string
  | Active string pubkey
  | Closed grpc_code

record stream_env =
  se_nonce :: string
  se_send :: bool
  se_lookup :: bool
  se_message :: message_env

text \<open>
  One received message of session \<open>i\<close>. The runner service never answers without an error
  and without a runner, so the source's \<^verbatim>\<open>NotFound\<close> branch is not reached.
\<close>

definition JobStream_recv ::
  "'s redis \<Rightarrow> (string \<Rightarrow> string \<Rightarrow> string \<Rightarrow> bool) \<Rightarrow> stream_env \<Rightarrow> nat \<Rightarrow> phase \<Rightarrow> MinerMessage \<Rightarrow>
   's grpc_state \<Rightarrow> phase \<times> 's grpc_state \<times> ServerMessage list" where
  "JobStream_recv R verify se i ph msg g =
     (case ph of
        AwaitRegister \<Rightarrow>
          (case msg of
             MinerMessage_Register reg \<Rightarrow>
               (let nonceHex = hex_encode (se_nonce se)
                in if se_send se
                   then (AwaitAuth (mr_NodeId reg) nonceHex, g, [ServerMessage_AuthChallenge nonceHex])
                   else (Closed Transport, g, []))
           | _ \<Rightarrow> (Closed InvalidArgument, g, []))
      | AwaitAuth nodeId nonceHex \<Rightarrow>
          (case msg of
             MinerMessage_AuthResponse sig \<Rightarrow>
               (if VerifyIdentity verify nodeId nonceHex (hex_encode sig) \<noteq> None
                then (Closed Unauthenticated, g, [])
                else
                  (case GetByNodePubKey (se_lookup se) nodeId (g_db g) of
                     Inl _ \<Rightarrow> (Closed Internal, g, [])
                   | Inr dbRunner \<Rightarrow>
                       (Active nodeId (rr_OwnerPubkey dbRunner),
                        g\<lparr>g_miners := (g_miners g)(rr_OwnerPubkey dbRunner \<mapsto>
                              \<lparr>cm_nodeID = nodeId, cm_latitude = rr_Latitude dbRunner,
                               cm_longitude = rr_Longitude dbRunner, cm_region = rr_Region dbRunner,
                               cm_sendCh = i\<rparr>),
                          g_chans := (g_chans g)(i := [])\<rparr>, [])))
           | _ \<Rightarrow> (Closed Unauthenticated, g, []))
      | Active nodeId owner \<Rightarrow>
          (case handleMinerMessage R verify (se_message se) nodeId owner msg g of
             (g', out) \<Rightarrow> (Active nodeId owner, g', out))
      | Closed c \<Rightarrow> (Closed c, g, []))"

text \<open>The stream ends: the deferred cleanup runs in every session that was established.\<close>

definition JobStream_end :: "grpc_code \<Rightarrow> phase \<Rightarrow> 's grpc_state \<Rightarrow> phase \<times> 's grpc_state" where
  "JobStream_end c ph g =
     (case ph of
        Active nodeId owner \<Rightarrow> (Closed c, g\<lparr>g_miners := (g_miners g)(owner := None)\<rparr>)
      | Closed c' \<Rightarrow> (Closed c', g)
      | _ \<Rightarrow> (Closed c, g))"

text \<open>The bridge goroutine sends the oldest buffered message.\<close>

definition bridge_send :: "nat \<Rightarrow> 's grpc_state \<Rightarrow> 's grpc_state \<times> ServerMessage list" where
  "bridge_send i g =
     (case g_chans g i of
        [] \<Rightarrow> (g, [])
      | m # ms \<Rightarrow> (g\<lparr>g_chans := (g_chans g)(i := ms)\<rparr>, [m]))"

subsection \<open>Dispatching jobs\<close>

definition offer :: "nat \<Rightarrow> ServerMessage \<Rightarrow> 's grpc_state \<Rightarrow> ('s grpc_state) option" where
  "offer c m g =
     (if length (g_chans g c) < sendCh_capacity
      then Some (g\<lparr>g_chans := (g_chans g)(c := g_chans g c @ [m])\<rparr>) else None)"

definition PushJobBatch :: "pubkey \<Rightarrow> JobBatch \<Rightarrow> 's grpc_state \<Rightarrow> 's grpc_state" where
  "PushJobBatch nodeID batch g =
     (case g_miners g nodeID of
        None \<Rightarrow> g
      | Some m \<Rightarrow>
          (case offer (cm_sendCh m) (ServerMessage_JobBatch batch) g of None \<Rightarrow> g | Some g' \<Rightarrow> g'))"

definition job_batch :: "jobPayloadRaw \<Rightarrow> JobBatch" where
  "job_batch raw = \<lparr>jb_BatchId = jr_JobID raw,
     jb_Jobs = [\<lparr>job_JobId = jr_JobID raw, job_TargetUrl = jr_TargetURL raw, job_TimeoutMs = 10000,
                 job_TaskNonce = jr_TaskNonce raw\<rparr>]\<rparr>"

text \<open>One delivery of \<^verbatim>\<open>job_queue\<close> in \<^verbatim>\<open>ConsumeJobQueue\<close>.\<close>

definition ConsumeJob :: "bool \<Rightarrow> json \<Rightarrow> 's grpc_state \<Rightarrow> 's grpc_state \<times> ack" where
  "ConsumeJob up body g =
     (case decode_jobPayloadRaw body of
        None \<Rightarrow> (g, Ack)
      | Some raw \<Rightarrow>
          (if jr_RunnerPubkey raw = [] \<and> isl (GetByPubkey up (jr_RunnerPubkey raw) (g_db g))
           then (g, NackDrop)
           else
             (case g_miners g (jr_RunnerPubkey raw) of
                None \<Rightarrow> (g, NackDrop)
              | Some m \<Rightarrow>
                  (case offer (cm_sendCh m) (ServerMessage_JobBatch (job_batch raw)) g of
                     Some g' \<Rightarrow> (g', Ack)
                   | None \<Rightarrow> (g, NackDrop)))))"

subsection \<open>The server as a step relation\<close>

text \<open>
  The sessions by number, and a record of the handshakes that succeeded: session, node, challenge, signature,
  owner. Steps of the environment change Redis, the database and the registry at will, since
  other parts of the program use them.
\<close>

record 's world =
  w_grpc :: "'s grpc_state"
  w_sessions :: "phase list"
  w_log :: "(nat \<times> string \<times> string \<times> string \<times> pubkey) list"

definition handshake :: "nat \<Rightarrow> phase \<Rightarrow> MinerMessage \<Rightarrow> phase \<Rightarrow> (nat \<times> string \<times> string \<times> string \<times> pubkey) list"
where
  "handshake i ph msg ph' =
     (case (ph, msg, ph') of
        (AwaitAuth node nonceHex, MinerMessage_AuthResponse sig, Active _ owner) \<Rightarrow>
          [(i, node, nonceHex, sig, owner)]
      | _ \<Rightarrow> [])"

inductive grpc_step ::
  "'s redis \<Rightarrow> (string \<Rightarrow> string \<Rightarrow> string \<Rightarrow> bool) \<Rightarrow> 's world \<Rightarrow> 's world \<Rightarrow> bool"
  for R verify
where
  connect: "grpc_step R verify w (w\<lparr>w_sessions := w_sessions w @ [AwaitRegister]\<rparr>)"
| receive: "i < length (w_sessions w) \<Longrightarrow>
    JobStream_recv R verify se i (w_sessions w ! i) msg (w_grpc w) = (ph', g', out) \<Longrightarrow>
    grpc_step R verify w
      \<lparr>w_grpc = g', w_sessions = (w_sessions w)[i := ph'],
       w_log = w_log w @ handshake i (w_sessions w ! i) msg ph'\<rparr>"
| finish: "i < length (w_sessions w) \<Longrightarrow>
    JobStream_end c (w_sessions w ! i) (w_grpc w) = (ph', g') \<Longrightarrow>
    grpc_step R verify w (w\<lparr>w_grpc := g', w_sessions := (w_sessions w)[i := ph']\<rparr>)"
| bridge: "bridge_send i (w_grpc w) = (g', out) \<Longrightarrow> grpc_step R verify w (w\<lparr>w_grpc := g'\<rparr>)"
| job: "ConsumeJob up body (w_grpc w) = (g', a) \<Longrightarrow> grpc_step R verify w (w\<lparr>w_grpc := g'\<rparr>)"
| push: "grpc_step R verify w (w\<lparr>w_grpc := PushJobBatch k batch (w_grpc w)\<rparr>)"
| outside: "grpc_step R verify w (w\<lparr>w_grpc := (w_grpc w)\<lparr>g_rdb := s, g_db := d, g_reg := r\<rparr>\<rparr>)"

inductive grpc_reach ::
  "'s redis \<Rightarrow> (string \<Rightarrow> string \<Rightarrow> string \<Rightarrow> bool) \<Rightarrow> 's world \<Rightarrow> bool"
  for R verify
where
  start: "g_miners g = Map.empty \<Longrightarrow> g_chans g = (\<lambda>_. []) \<Longrightarrow>
    grpc_reach R verify \<lparr>w_grpc = g, w_sessions = [], w_log = []\<rparr>"
| step: "grpc_reach R verify w \<Longrightarrow> grpc_step R verify w w' \<Longrightarrow> grpc_reach R verify w'"

text \<open>Every entry belongs to the live, authenticated session that owns its channel.\<close>

definition grpc_inv :: "(string \<Rightarrow> string \<Rightarrow> string \<Rightarrow> bool) \<Rightarrow> 's world \<Rightarrow> bool" where
  "grpc_inv verify w \<longleftrightarrow>
     (\<forall>owner m. g_miners (w_grpc w) owner = Some m \<longrightarrow>
        cm_sendCh m < length (w_sessions w) \<and> w_sessions w ! cm_sendCh m = Active (cm_nodeID m) owner)
     \<and> (\<forall>i. length (g_chans (w_grpc w) i) \<le> sendCh_capacity)
     \<and> (\<forall>i node owner. i < length (w_sessions w) \<and> w_sessions w ! i = Active node owner \<longrightarrow>
          (\<exists>nonceHex sig. (i, node, nonceHex, sig, owner) \<in> set (w_log w)))
     \<and> (\<forall>i node nonceHex sig owner. (i, node, nonceHex, sig, owner) \<in> set (w_log w) \<longrightarrow>
          VerifyIdentity verify node nonceHex (hex_encode sig) = None)"

lemma publish_result_frame [simp]:
  "g_miners (publish_result re m g) = g_miners g" "g_chans (publish_result re m g) = g_chans g"
  "g_rdb (publish_result re m g) = g_rdb g" "g_db (publish_result re m g) = g_db g"
  by (auto simp: publish_result_def split: prod.splits option.splits)

lemma handleProbeResult_frame [simp]:
  "g_miners (handleProbeResult R verify re nodeID pk r g) = g_miners g"
  "g_chans (handleProbeResult R verify re nodeID pk r g) = g_chans g"
  by (auto simp: handleProbeResult_def split: prod.splits option.splits)

lemma handleMinerMessage_frame:
  "handleMinerMessage R verify me nodeID pk msg g = (g', out) \<Longrightarrow>
     g_miners g' = g_miners g \<and> g_chans g' = g_chans g"
  by (auto simp: handleMinerMessage_def split: MinerMessage.splits prod.splits)

lemma offer_Some:
  "offer c m g = Some g' \<Longrightarrow> g_miners g' = g_miners g
     \<and> (\<forall>i. length (g_chans g' i) \<le> max sendCh_capacity (length (g_chans g i)))"
  by (auto simp: offer_def split: if_splits)

lemma ConsumeJob_frame:
  "ConsumeJob up body g = (g', a) \<Longrightarrow> g_miners g' = g_miners g
     \<and> (\<forall>i. length (g_chans g' i) \<le> max sendCh_capacity (length (g_chans g i)))"
  by (auto simp: ConsumeJob_def split: option.splits if_splits dest: offer_Some)

lemma PushJobBatch_frame:
  "g_miners (PushJobBatch k batch g) = g_miners g
     \<and> (\<forall>i. length (g_chans (PushJobBatch k batch g) i) \<le> max sendCh_capacity (length (g_chans g i)))"
  by (auto simp: PushJobBatch_def split: option.splits dest: offer_Some)

text \<open>What one received message can do to a session and to the map of miners.\<close>

lemma JobStream_recv_cases:
  assumes "JobStream_recv R verify se i ph msg g = (ph', g', out)"
  obtains (same) "g_miners g' = g_miners g" "g_chans g' = g_chans g" "handshake i ph msg ph' = []"
      "\<And>node owner. ph' = Active node owner \<longleftrightarrow> ph = Active node owner"
  | (auth) node nonceHex sig resp where "ph = AwaitAuth node nonceHex" "msg = MinerMessage_AuthResponse sig"
      "VerifyIdentity verify node nonceHex (hex_encode sig) = None"
      "GetByNodePubKey (se_lookup se) node (g_db g) = Inr resp" "ph' = Active node (rr_OwnerPubkey resp)"
      "g_miners g' = (g_miners g)(rr_OwnerPubkey resp \<mapsto>
         \<lparr>cm_nodeID = node, cm_latitude = rr_Latitude resp, cm_longitude = rr_Longitude resp,
          cm_region = rr_Region resp, cm_sendCh = i\<rparr>)"
      "g_chans g' = (g_chans g)(i := [])"
proof (cases ph)
  case AwaitRegister
  with assms show ?thesis
    by (intro same) (auto simp: JobStream_recv_def handshake_def Let_def split: MinerMessage.splits if_splits)
next
  case (AwaitAuth node nonceHex)
  show ?thesis
  proof (cases "\<exists>sig resp. msg = MinerMessage_AuthResponse sig
      \<and> VerifyIdentity verify node nonceHex (hex_encode sig) = None
      \<and> GetByNodePubKey (se_lookup se) node (g_db g) = Inr resp")
    case True
    then obtain sig resp where h: "msg = MinerMessage_AuthResponse sig"
      "VerifyIdentity verify node nonceHex (hex_encode sig) = None"
      "GetByNodePubKey (se_lookup se) node (g_db g) = Inr resp" by blast
    from assms h AwaitAuth show ?thesis by (intro auth) (auto simp: JobStream_recv_def)
  next
    case False
    with assms AwaitAuth have "ph' \<in> range Closed \<and> g' = g"
      by (auto simp: JobStream_recv_def split: MinerMessage.splits if_splits sum.splits)
    with AwaitAuth show ?thesis by (intro same) (auto simp: handshake_def split: MinerMessage.splits)
  qed
next
  case (Active node owner)
  with assms handleMinerMessage_frame show ?thesis
    by (intro same) (fastforce simp: JobStream_recv_def handshake_def split: prod.splits)+
next
  case (Closed c)
  with assms show ?thesis by (intro same) (auto simp: JobStream_recv_def handshake_def)
qed

lemma grpc_inv_frame:
  assumes "grpc_inv verify w" "g_miners (w_grpc w') = g_miners (w_grpc w)"
    and "\<forall>i. length (g_chans (w_grpc w') i) \<le> max sendCh_capacity (length (g_chans (w_grpc w) i))"
    and "w_sessions w' = w_sessions w" "w_log w' = w_log w"
  shows "grpc_inv verify w'"
proof -
  have "length (g_chans (w_grpc w') i) \<le> sendCh_capacity" for i
  proof -
    have "length (g_chans (w_grpc w) i) \<le> sendCh_capacity"
      using assms(1) unfolding grpc_inv_def by blast
    with assms(3) [rule_format, of i] show ?thesis by simp
  qed
  with assms(1) show ?thesis unfolding grpc_inv_def assms(2,4,5) by blast
qed

lemma grpc_inv_receive:
  assumes "grpc_inv verify w" "i < length (w_sessions w)"
    and "JobStream_recv R verify se i (w_sessions w ! i) msg (w_grpc w) = (ph', g', out)"
  shows "grpc_inv verify \<lparr>w_grpc = g', w_sessions = (w_sessions w)[i := ph'],
       w_log = w_log w @ handshake i (w_sessions w ! i) msg ph'\<rparr>"
  using assms(3)
proof (cases rule: JobStream_recv_cases)
  case same
  have s: "(w_sessions w)[i := ph'] ! j = Active node owner \<longleftrightarrow> w_sessions w ! j = Active node owner"
    if "j < length (w_sessions w)" for j node owner
    using that same(4) by (cases "j = i") auto
  have owned: "cm_sendCh m < length (w_sessions w)
      \<and> (w_sessions w)[i := ph'] ! cm_sendCh m = Active (cm_nodeID m) owner"
    if "g_miners (w_grpc w) owner = Some m" for owner m
  proof -
    from assms(1) that have "cm_sendCh m < length (w_sessions w)"
      "w_sessions w ! cm_sendCh m = Active (cm_nodeID m) owner" unfolding grpc_inv_def by blast+
    with s show ?thesis by blast
  qed
  have logged: "\<exists>nonceHex sig. (j, node, nonceHex, sig, owner) \<in> set (w_log w)"
    if "j < length (w_sessions w)" "(w_sessions w)[i := ph'] ! j = Active node owner" for j node owner
    using assms(1) that s [OF that(1)] unfolding grpc_inv_def by blast
  show ?thesis
    using assms(1) owned logged unfolding grpc_inv_def by (auto simp: same(1-3))
next
  case (auth node nonceHex sig resp)
  have log: "handshake i (w_sessions w ! i) msg ph' = [(i, node, nonceHex, sig, rr_OwnerPubkey resp)]"
    using auth by (simp add: handshake_def)
  have old: "cm_sendCh m \<noteq> i" if "g_miners (w_grpc w) k = Some m" for k m
    using assms(1) that auth(1) unfolding grpc_inv_def by (metis phase.distinct(7))
  let ?w = "\<lparr>w_grpc = g', w_sessions = (w_sessions w)[i := ph'],
       w_log = w_log w @ [(i, node, nonceHex, sig, rr_OwnerPubkey resp)]\<rparr>"
  have owned: "cm_sendCh m < length (w_sessions w)
      \<and> (w_sessions w)[i := ph'] ! cm_sendCh m = Active (cm_nodeID m) owner"
    if m: "g_miners g' owner = Some m" for owner m
  proof (cases "owner = rr_OwnerPubkey resp")
    case True
    with m assms(2) show ?thesis by (auto simp: auth(5,6))
  next
    case False
    with m have m': "g_miners (w_grpc w) owner = Some m" by (simp add: auth(6))
    with assms(1) have "cm_sendCh m < length (w_sessions w)"
      "w_sessions w ! cm_sendCh m = Active (cm_nodeID m) owner" unfolding grpc_inv_def by blast+
    with old [OF m'] show ?thesis by simp
  qed
  have logged: "\<exists>nonceHex sig. (j, nd, nonceHex, sig, owner) \<in> set (w_log ?w)"
    if "j < length (w_sessions w)" "(w_sessions w)[i := ph'] ! j = Active nd owner" for j nd owner
  proof (cases "j = i")
    case True
    with that show ?thesis by (auto simp: auth(5))
  next
    case False
    with that assms(1) have "\<exists>nonceHex sig. (j, nd, nonceHex, sig, owner) \<in> set (w_log w)"
      unfolding grpc_inv_def by simp
    then show ?thesis by auto
  qed
  have verified: "VerifyIdentity verify nd nh (hex_encode sg) = None"
    if entry: "(j, nd, nh, sg, owner) \<in> set (w_log ?w)" for j nd nh sg owner
  proof -
    consider "(j, nd, nh, sg, owner) \<in> set (w_log w)" | "nd = node" "nh = nonceHex" "sg = sig"
      using entry by auto
    then show ?thesis
    proof cases
      case 1
      with assms(1) show ?thesis unfolding grpc_inv_def by blast
    next
      case 2
      with auth(3) show ?thesis by (simp only:)
    qed
  qed
  have "length (g_chans g' j) \<le> sendCh_capacity" for j
    using assms(1) unfolding grpc_inv_def by (simp add: auth(7))
  with owned logged verified show ?thesis unfolding log grpc_inv_def by simp
qed

lemma grpc_inv_finish:
  assumes "grpc_inv verify w" "i < length (w_sessions w)"
    and "JobStream_end c (w_sessions w ! i) (w_grpc w) = (ph', g')"
  shows "grpc_inv verify (w\<lparr>w_grpc := g', w_sessions := (w_sessions w)[i := ph']\<rparr>)"
proof -
  have ph: "\<exists>c. ph' = Closed c" and ch: "g_chans g' = g_chans (w_grpc w)"
    using assms(3) by (cases "w_sessions w ! i"; auto simp: JobStream_end_def)+
  have mi: "g_miners g' = (case w_sessions w ! i of
      Active node owner \<Rightarrow> (g_miners (w_grpc w))(owner := None) | _ \<Rightarrow> g_miners (w_grpc w))"
    using assms(3) by (auto simp: JobStream_end_def split: phase.splits)
  have 1: "cm_sendCh m < length (w_sessions w)
      \<and> (w_sessions w)[i := ph'] ! cm_sendCh m = Active (cm_nodeID m) owner"
    if m: "g_miners g' owner = Some m" for owner m
  proof -
    from m have m': "g_miners (w_grpc w) owner = Some m"
      by (auto simp: mi split: phase.splits if_splits)
    then have a: "cm_sendCh m < length (w_sessions w)" "w_sessions w ! cm_sendCh m = Active (cm_nodeID m) owner"
      using assms(1) unfolding grpc_inv_def by blast+
    moreover have "cm_sendCh m \<noteq> i"
      using a(2) m by (auto simp: mi)
    ultimately show ?thesis by simp
  qed
  have 2: "\<exists>nonceHex sig. (j, node, nonceHex, sig, owner) \<in> set (w_log w)"
    if "j < length (w_sessions w)" "(w_sessions w)[i := ph'] ! j = Active node owner" for j node owner
  proof -
    from that ph have "w_sessions w ! j = Active node owner" by (cases "j = i") auto
    with that(1) assms(1) show ?thesis unfolding grpc_inv_def by blast
  qed
  have 3: "VerifyIdentity verify nd nh (hex_encode sg) = None"
    if "(j, nd, nh, sg, owner) \<in> set (w_log w)" for j nd nh sg owner
    using assms(1) that unfolding grpc_inv_def by blast
  have "length (g_chans g' j) \<le> sendCh_capacity" for j
    using assms(1) unfolding grpc_inv_def by (simp add: ch)
  with 1 2 3 show ?thesis unfolding grpc_inv_def by simp
qed

lemma grpc_inv_connect:
  assumes "grpc_inv verify w"
  shows "grpc_inv verify (w\<lparr>w_sessions := w_sessions w @ [AwaitRegister]\<rparr>)"
proof -
  have "(w_sessions w @ [AwaitRegister]) ! j = Active node owner \<longleftrightarrow> w_sessions w ! j = Active node owner"
    if "j < length (w_sessions w)" for j node owner
    using that by (simp add: nth_append)
  with assms show ?thesis unfolding grpc_inv_def by (auto simp: less_Suc_eq nth_append)
qed

lemma grpc_inv_bridge:
  "grpc_inv verify w \<Longrightarrow> bridge_send i (w_grpc w) = (g', out) \<Longrightarrow> grpc_inv verify (w\<lparr>w_grpc := g'\<rparr>)"
  by (rule grpc_inv_frame) (auto simp: bridge_send_def max_def split: list.splits)

lemma grpc_inv_job:
  "grpc_inv verify w \<Longrightarrow> ConsumeJob up body (w_grpc w) = (g', a) \<Longrightarrow> grpc_inv verify (w\<lparr>w_grpc := g'\<rparr>)"
  by (rule grpc_inv_frame) (auto dest: ConsumeJob_frame)

lemma grpc_inv_reach: "grpc_reach R verify w \<Longrightarrow> grpc_inv verify w"
proof (induction rule: grpc_reach.induct)
  case (start g)
  then show ?case by (simp add: grpc_inv_def)
next
  case (step w w')
  from step.hyps(2) step.IH show ?case
  proof (cases rule: grpc_step.cases)
    case connect
    with grpc_inv_connect [OF step.IH] show ?thesis by simp
  next
    case (receive i se msg ph' g' out)
    then show ?thesis using grpc_inv_receive [OF step.IH] by blast
  next
    case (finish i c ph' g')
    then show ?thesis using grpc_inv_finish [OF step.IH] by blast
  next
    case (bridge i g' out)
    then show ?thesis using grpc_inv_bridge [OF step.IH] by blast
  next
    case (job up body g' a)
    then show ?thesis using grpc_inv_job [OF step.IH] by blast
  next
    case (push k batch)
    show ?thesis using PushJobBatch_frame [of k batch "w_grpc w"] push
      by (intro grpc_inv_frame [OF step.IH]) auto
  next
    case (outside s d r)
    then show ?thesis by (intro grpc_inv_frame [OF step.IH]) auto
  qed
qed

inductive_cases grpc_stepE: "grpc_step R verify w w'"

subsection \<open>Probe results: one nonce, one result\<close>

text \<open>
  What any handler behind the nonce gate promises: a submission that goes through found its nonce and
  spent it, and no submission brings a nonce back.
\<close>

locale gated_handler = nonce_gate present issue consume
  for present :: "'s \<Rightarrow> string \<Rightarrow> instant \<Rightarrow> bool"
    and issue :: "instant \<Rightarrow> string \<Rightarrow> duration \<Rightarrow> 's \<Rightarrow> 's"
    and consume :: "fate \<Rightarrow> instant \<Rightarrow> string \<Rightarrow> 's \<Rightarrow> 's \<times> ac_error option" +
  fixes store :: "'w \<Rightarrow> 's"
    and nonce_of :: "'x \<Rightarrow> string"
    and submit :: "'x \<Rightarrow> 'w \<Rightarrow> 'w \<times> bool"
  assumes pass_present: "snd (submit x w) \<Longrightarrow> \<exists>t. present (store w) (nonce_of x) t"
    and pass_spends: "snd (submit x w) \<Longrightarrow> \<not> present (store (fst (submit x w))) (nonce_of x) t"
    and submit_keeps: "present (store (fst (submit x w))) n t \<Longrightarrow> present (store w) n t"

text \<open>The submissions that went through, in order.\<close>

fun passed :: "('x \<Rightarrow> 'w \<Rightarrow> 'w \<times> bool) \<Rightarrow> 'x list \<Rightarrow> 'w \<Rightarrow> 'x list" where
  "passed submit [] w = []"
| "passed submit (x # xs) w =
     (if snd (submit x w) then x # passed submit xs (fst (submit x w))
      else passed submit xs (fst (submit x w)))"

context gated_handler begin

lemma passed_were_present:
  "n \<in> set (map nonce_of (passed submit xs w)) \<Longrightarrow> \<exists>t. present (store w) n t"
proof (induction xs arbitrary: w)
  case Nil
  then show ?case by simp
next
  case (Cons x xs)
  show ?case
  proof (cases "snd (submit x w) \<and> n = nonce_of x")
    case True
    then show ?thesis using pass_present by blast
  next
    case False
    with Cons.prems have "n \<in> set (map nonce_of (passed submit xs (fst (submit x w))))"
      by (auto split: if_splits)
    from Cons.IH [OF this] show ?thesis using submit_keeps by blast
  qed
qed

lemma passed_distinct: "distinct (map nonce_of (passed submit xs w))"
proof (induction xs arbitrary: w)
  case Nil
  then show ?case by simp
next
  case (Cons x xs)
  have "nonce_of x \<notin> set (map nonce_of (passed submit xs (fst (submit x w))))" if "snd (submit x w)"
    using passed_were_present pass_spends [OF that] by blast
  with Cons show ?case by simp
qed

text \<open>A nonce that is issued once more is the only way to use it again.\<close>

lemma passed_after_issue:
  assumes "m \<noteq> n" "n \<in> set (map nonce_of (passed submit xs w))" "store w = issue t m d s"
  shows "\<exists>t. present s n t"
  using passed_were_present [OF assms(2)] assms(1,3) issue_other by auto

end

text \<open>One result submitted to the handler, and whether it was published.\<close>

type_synonym submission = "result_env \<times> string \<times> pubkey \<times> ProbeResult"

definition submit_result ::
  "'s redis \<Rightarrow> (string \<Rightarrow> string \<Rightarrow> string \<Rightarrow> bool) \<Rightarrow> submission \<Rightarrow> 's grpc_state \<Rightarrow> 's grpc_state \<times> bool"
where
  "submit_result R verify x g =
     (case x of (re, node, pk, r) \<Rightarrow>
        let g' = handleProbeResult R verify re node pk r g
        in (g', length (sent (g_conn g)) < length (sent (g_conn g'))))"

definition submission_nonce :: "submission \<Rightarrow> string" where
  "submission_nonce x = (case x of (re, node, pk, r) \<Rightarrow> pb_TaskNonce r)"

lemma publish_result_conn:
  "sent (g_conn (publish_result re m g)) =
     sent (g_conn g) @ (if (re_open re \<or> (\<exists>c. g_rabbitCh g = Some (c, False))) \<and> re_publish re \<noteq> RequestLost
                        then [m] else [])"
  by (cases "re_publish re")
     (auto simp: publish_result_def GetHealthyChannel_def amqp_open_def amqp_publish_def
       split: option.splits prod.splits bool.splits if_splits)

text \<open>The checks of the handler, in its order; the state after each is the state the next one meets.\<close>

definition result_accepted ::
  "'s redis \<Rightarrow> (string \<Rightarrow> string \<Rightarrow> string \<Rightarrow> bool) \<Rightarrow> result_env \<Rightarrow> string \<Rightarrow> ProbeResult \<Rightarrow> 's \<Rightarrow> bool" where
  "result_accepted R verify re node r s =
     (let (s1, e1) = ValidateTaskNonce R (re_nonce re) (re_time re) (pb_TaskNonce r) s;
          (s2, e2) = CheckRateLimit R (fst (re_rate re)) (snd (re_rate re)) (re_time re) node 600 s1;
          (s3, e3) = DetectFakeLatency R (fst (re_latency re)) (snd (re_latency re)) (re_time re) node
                       (uint (pb_TotalUs r div 1000)) s2
      in e1 = None \<and> VerifySignature verify node (pb_JobId r @ pb_TaskNonce r) (pb_Signature r) = None
         \<and> e2 = None \<and> e3 = None)"

lemma handleProbeResult_sent:
  "sent (g_conn (handleProbeResult R verify re node pk r g)) =
     sent (g_conn g) @
       (if result_accepted R verify re node r (g_rdb g)
           \<and> (re_open re \<or> (\<exists>c. g_rabbitCh g = Some (c, False))) \<and> re_publish re \<noteq> RequestLost
        then [result_message node pk (result_item node (g_miners g pk) r)] else [])"
  by (auto simp: handleProbeResult_def result_accepted_def publish_result_conn Let_def
      split: prod.splits option.splits)

context redis_server begin

lemma handler_nonces:
  "rGET R t (nonce_key n) (g_rdb (handleProbeResult R verify re node pk r g)) =
     rGET R t (nonce_key n) (fst (ValidateTaskNonce R (re_nonce re) (re_time re) (pb_TaskNonce r) (g_rdb g)))"
proof -
  obtain s1 e1 where v: "ValidateTaskNonce R (re_nonce re) (re_time re) (pb_TaskNonce r) (g_rdb g) = (s1, e1)"
    by fastforce
  obtain s2 e2 where c: "CheckRateLimit R (fst (re_rate re)) (snd (re_rate re)) (re_time re) node 600 s1 = (s2, e2)"
    by fastforce
  obtain s3 e3 where l: "DetectFakeLatency R (fst (re_latency re)) (snd (re_latency re)) (re_time re) node
      (uint (pb_TotalUs r div 1000)) s2 = (s3, e3)" by fastforce
  have 2: "str s2 (nonce_key n) = str s1 (nonce_key n)"
    using rate_frame [of "nonce_key n" node "fst (re_rate re)" "snd (re_rate re)" "re_time re" 600 s1] c by simp
  have 3: "str s3 (nonce_key n) = str s2 (nonce_key n)"
    using latency_frame [of "nonce_key n" node "uint (pb_TotalUs r div 1000)" "fst (re_latency re)"
        "snd (re_latency re)" "re_time re" s2] l by simp
  from 2 3 show ?thesis
    by (auto simp: handleProbeResult_def v c l get split: option.splits)
qed

lemma submit_result_pass:
  assumes "snd (submit_result R verify x g)"
  shows "snd (ValidateTaskNonce R (re_nonce (fst x)) (re_time (fst x)) (submission_nonce x) (g_rdb g)) = None"
  using assms by (auto simp: submit_result_def submission_nonce_def handleProbeResult_sent Let_def
      result_accepted_def split: prod.splits if_splits)

lemma submit_result_nonces:
  "rGET R t (nonce_key n) (g_rdb (fst (submit_result R verify x g))) =
     rGET R t (nonce_key n)
       (fst (ValidateTaskNonce R (re_nonce (fst x)) (re_time (fst x)) (submission_nonce x) (g_rdb g)))"
  by (auto simp: submit_result_def submission_nonce_def handler_nonces Let_def split: prod.splits)

end

sublocale redis_server \<subseteq> probe: gated_handler
  "\<lambda>s n t. n \<noteq> '''' \<and> rGET R t (nonce_key n) s \<noteq> None"
  "\<lambda>t n d. rSET R t (nonce_key n) (Str ''1'') d"
  "ValidateTaskNonce R" g_rdb submission_nonce "submit_result R verify" for verify
proof unfold_locales
  fix x :: submission and w :: "'s grpc_state"
  assume "snd (submit_result R verify x w)"
  from submit_result_pass [OF this]
  show "\<exists>t. submission_nonce x \<noteq> '''' \<and> rGET R t (nonce_key (submission_nonce x)) (g_rdb w) \<noteq> None"
    using validate_iff by blast
next
  fix x :: submission and w :: "'s grpc_state" and t
  assume p: "snd (submit_result R verify x w)"
  from submit_result_pass [OF p] show "\<not> (submission_nonce x \<noteq> '''' \<and>
      rGET R t (nonce_key (submission_nonce x)) (g_rdb (fst (submit_result R verify x w))) \<noteq> None)"
    by (auto simp: submit_result_nonces validate_iff validate_state get_after_del)
next
  fix x :: submission and w :: "'s grpc_state" and n t
  assume "n \<noteq> '''' \<and> rGET R t (nonce_key n) (g_rdb (fst (submit_result R verify x w))) \<noteq> None"
  then show "n \<noteq> '''' \<and> rGET R t (nonce_key n) (g_rdb w) \<noteq> None"
    using gate.consume_keeps by (simp add: submit_result_nonces) blast
qed

context redis_server begin

lemmas published_nonces_distinct = probe.passed_distinct

end

subsection \<open>Properties\<close>

text \<open>What the processor reads of a published result.\<close>

lemma result_item_monitor: "pr_MonitorID (result_item node miner r) = hd (split_on (CHR '':'') (pb_JobId r))"
  by (auto simp: result_item_def Let_def hd_conv_nth Suc_le_eq split: option.splits prod.splits)

lemma result_item_ok: "item_ok (result_item node miner r)"
proof -
  have nonneg: "int64 i" if "0 \<le> i" "i < 2 ^ 63" for i
    using that by (simp add: int64_def)
  have "int64 (uint (pb_StatusCode r))"
    using uint_lt2p [of "pb_StatusCode r"] by (intro nonneg) simp_all
  moreover have "int64 (uint (pb_TotalUs r div 1000))"
    using uint_lt2p [of "pb_TotalUs r"] by (intro nonneg uint_ge_0) (simp add: uint_div)
  moreover have "pr_StatusCode (result_item node miner r) = uint (pb_StatusCode r)"
    "pr_LatencyMs (result_item node miner r) = uint (pb_TotalUs r div 1000)"
    by (simp_all add: result_item_def Let_def split: option.splits)
  ultimately show ?thesis by (simp add: item_ok_def)
qed

lemma decode_result_message:
  "decode_packet (msg_body (result_message node pk (result_item node miner r))) =
     Some \<lparr>rp_NodeId = node, rp_RunnerPubkey = pk, rp_Signature = [], rp_Results = [result_item node miner r]\<rparr>"
  by (simp add: result_message_def decode_encode_packet result_item_ok)

context redis_server begin

lemma rejected_spends:
  assumes "re_nonce re = Delivered" "re_time re \<le> re_time re'" "pb_TaskNonce r' = pb_TaskNonce r"
  shows "\<not> result_accepted R verify re' node' r' (g_rdb (handleProbeResult R verify re node pk r g))"
proof -
  let ?g = "handleProbeResult R verify re node pk r g"
  have "rGET R (re_time re') (nonce_key (pb_TaskNonce r)) (g_rdb ?g) = None" if "pb_TaskNonce r \<noteq> ''''"
  proof (cases "rGET R (re_time re) (nonce_key (pb_TaskNonce r)) (g_rdb g)")
    case None
    then have "live (re_time re') (str (g_rdb g) (nonce_key (pb_TaskNonce r))) = None"
      using live_mono [OF _ assms(2), of "str (g_rdb g) (nonce_key (pb_TaskNonce r))"]
      by (cases "live (re_time re') (str (g_rdb g) (nonce_key (pb_TaskNonce r)))") (auto simp: get)
    with None show ?thesis unfolding handler_nonces validate_state by (simp add: get)
  next
    case (Some v)
    with that assms(1) show ?thesis by (simp add: handler_nonces validate_state get_after_del)
  qed
  then have "snd (ValidateTaskNonce R (re_nonce re') (re_time re') (pb_TaskNonce r') (g_rdb ?g)) \<noteq> None"
    using assms(3) by (cases "pb_TaskNonce r = ''''") (auto simp: validate_iff)
  then show ?thesis by (auto simp: result_accepted_def split: prod.splits)
qed

end

text \<open>A node whose signatures all verify, and any number of sessions of it, one after the other.\<close>

definition demo_key :: string where
  "demo_key = hex_encode (replicate 32 (CHR ''a''))"

definition demo_sig :: string where
  "demo_sig = replicate 64 (CHR ''s'')"

definition demo_node_db :: db where
  "demo_node_db = (demo_db 3 20 0)\<lparr>t_runner_nodes := [(demo_runner ''r'' 20 0)\<lparr>r_NodePubkey := Some demo_key\<rparr>]\<rparr>"

definition demo_grpc :: "db \<Rightarrow> ref_state grpc_state" where
  "demo_grpc db = \<lparr>g_rdb = ref_empty, g_miners = Map.empty, g_chans = (\<lambda>_. []), g_rabbitCh = None,
     g_conn = \<lparr>opened = 0, sent = []\<rparr>, g_db = db, g_reg = NewMemoryRegistry\<rparr>"

definition demo_miner :: "nat \<Rightarrow> connectedMiner" where
  "demo_miner i = \<lparr>cm_nodeID = demo_key, cm_latitude = 0, cm_longitude = 0, cm_region = ''eu'', cm_sendCh = i\<rparr>"

definition demo_session :: "nat \<Rightarrow> ref_state world \<Rightarrow> ref_state world" where
  "demo_session i w =
     \<lparr>w_grpc = (w_grpc w)\<lparr>g_miners := (g_miners (w_grpc w))(''r'' \<mapsto> demo_miner i),
                          g_chans := (g_chans (w_grpc w))(i := [])\<rparr>,
      w_sessions = w_sessions w @ [Active demo_key ''r''],
      w_log = w_log w @ [(i, demo_key, [], demo_sig, ''r'')]\<rparr>"

definition demo_world :: "nat \<Rightarrow> ref_state world" where
  "demo_world n = fold demo_session [0..<n] \<lparr>w_grpc = demo_grpc demo_node_db, w_sessions = [], w_log = []\<rparr>"

lemma demo_world_shape:
  "w_sessions (demo_world n) = replicate n (Active demo_key ''r'')" (is ?S)
  "g_db (w_grpc (demo_world n)) = demo_node_db" (is ?D)
proof (induction n)
  case (Suc n)
  case 1
  with Suc show ?case by (simp add: demo_world_def demo_session_def replicate_append_same)
  case 2
  with Suc show ?case by (simp add: demo_world_def demo_session_def)
qed (simp_all add: demo_world_def demo_grpc_def)

lemma demo_key_verifies: "VerifyIdentity (\<lambda>_ _ _. True) demo_key n (hex_encode demo_sig) = None"
  by (simp add: VerifyIdentity_def demo_key_def demo_sig_def hex_decode_encode PublicKeySize_def SignatureSize_def)

definition demo_probe_result :: ProbeResult where
  "demo_probe_result = \<lparr>pb_JobId = ''m:r:1'', pb_BatchId = ''m:r:1'', pb_NodeId = demo_key, pb_TargetUrl = ''u'',
     pb_Success = True, pb_StatusCode = 200, pb_DnsUs = 1, pb_TcpUs = 1, pb_TlsUs = 1, pb_TtfbUs = 1,
     pb_TotalUs = 42000, pb_ErrorKind = [], pb_ErrorMsg = [], pb_TimestampMs = 0, pb_TaskNonce = ''n1'',
     pb_Signature = demo_sig\<rparr>"

definition demo_result_env :: "instant \<Rightarrow> result_env" where
  "demo_result_env t = \<lparr>re_time = t, re_nonce = Delivered, re_rate = (Delivered, Delivered),
     re_latency = (Delivered, Delivered), re_open = True, re_publish = Delivered\<rparr>"

definition demo_submission :: "instant \<Rightarrow> submission" where
  "demo_submission t = (demo_result_env t, demo_key, ''r'', demo_probe_result)"

definition demo_probe :: "ref_state grpc_state" where
  "demo_probe = (demo_grpc demo_node_db)\<lparr>g_rdb := demo_nonce_state\<rparr>"

lemma demo_signature: "VerifySignature (\<lambda>_ _ _. True) demo_key m demo_sig = None"
  by (simp add: VerifySignature_def demo_key_def demo_sig_def hex_decode_encode PublicKeySize_def SignatureSize_def)

lemma demo_accepted:
  "result_accepted ref_redis (\<lambda>_ _ _. True) (demo_result_env 2) demo_key demo_probe_result demo_nonce_state"
  "result_accepted ref_redis (\<lambda>_ _ _. True) (demo_result_env 3) demo_key demo_probe_result demo_nonce_state"
  by (simp_all add: result_accepted_def demo_result_env_def demo_probe_result_def demo_signature
      demo_nonce_state_def ValidateTaskNonce_def validateAndConsumeNonce_def CheckRateLimit_def
      DetectFakeLatency_def ref_redis_def ref_empty_def nonce_key_def rate_key_def latency_key_def Let_def)

lemma demo_submissions:
  "passed (submit_result ref_redis (\<lambda>_ _ _. True)) [demo_submission 2, demo_submission 3] demo_probe
     = [demo_submission 2]"
proof -
  have 1: "result_accepted ref_redis (\<lambda>_ _ _. True) (demo_result_env 2) demo_key demo_probe_result (g_rdb demo_probe)"
    using demo_accepted(1) by (simp add: demo_probe_def)
  have 2: "\<not> result_accepted ref_redis (\<lambda>_ _ _. True) (demo_result_env 3) demo_key demo_probe_result
      (g_rdb (handleProbeResult ref_redis (\<lambda>_ _ _. True) (demo_result_env 2) demo_key ''r'' demo_probe_result demo_probe))"
    by (rule ref.rejected_spends) (simp_all add: demo_result_env_def)
  show ?thesis
    using 1 2 by (simp add: submit_result_def demo_submission_def handleProbeResult_sent Let_def)
      (simp add: demo_result_env_def)
qed

lemma demo_lookup:
  "\<exists>resp. GetByNodePubKey True demo_key demo_node_db = Inr resp \<and> rr_OwnerPubkey resp = ''r''
     \<and> rr_Latitude resp = 0 \<and> rr_Longitude resp = 0 \<and> rr_Region resp = ''eu''"
  by (simp add: GetByNodePubKey_def FindByNodePubKey_def runner_by_def query_row_def toRunnerResponse_def
      demo_node_db_def demo_db_def demo_runner_def)

lemma demo_session_reach:
  assumes "grpc_reach ref_redis (\<lambda>_ _ _. True) w" "length (w_sessions w) = i" "g_db (w_grpc w) = demo_node_db"
  shows "grpc_reach ref_redis (\<lambda>_ _ _. True) (demo_session i w)"
proof -
  let ?se = "\<lparr>se_nonce = [], se_send = True, se_lookup = True, se_message = undefined\<rparr>"
  let ?w1 = "w\<lparr>w_sessions := w_sessions w @ [AwaitRegister]\<rparr>"
  let ?w2 = "\<lparr>w_grpc = w_grpc w, w_sessions = w_sessions w @ [AwaitAuth demo_key []], w_log = w_log w\<rparr>"
  have 1: "grpc_reach ref_redis (\<lambda>_ _ _. True) ?w1" by (rule grpc_reach.step [OF assms(1) connect])
  have "JobStream_recv ref_redis (\<lambda>_ _ _. True) ?se i AwaitRegister
      (MinerMessage_Register \<lparr>mr_NodeId = demo_key, mr_Version = [], mr_TimestampMs = 0\<rparr>) (w_grpc w)
    = (AwaitAuth demo_key [], w_grpc w, [ServerMessage_AuthChallenge []])"
    by (simp add: JobStream_recv_def)
  with receive [of i ?w1 ref_redis "\<lambda>_ _ _. True" ?se
      "MinerMessage_Register \<lparr>mr_NodeId = demo_key, mr_Version = [], mr_TimestampMs = 0\<rparr>"] assms(2)
  have "grpc_step ref_redis (\<lambda>_ _ _. True) ?w1 ?w2"
    by (simp add: nth_append list_update_append handshake_def)
  then have 2: "grpc_reach ref_redis (\<lambda>_ _ _. True) ?w2" by (rule grpc_reach.step [OF 1])
  obtain resp where resp: "GetByNodePubKey True demo_key demo_node_db = Inr resp" "rr_OwnerPubkey resp = ''r''"
    "rr_Latitude resp = 0" "rr_Longitude resp = 0" "rr_Region resp = ''eu''" using demo_lookup by blast
  have "JobStream_recv ref_redis (\<lambda>_ _ _. True) ?se i (AwaitAuth demo_key []) (MinerMessage_AuthResponse demo_sig)
      (w_grpc w) = (Active demo_key ''r'', w_grpc (demo_session i w), [])"
    by (simp add: JobStream_recv_def demo_key_verifies resp assms(3) demo_session_def demo_miner_def)
  with receive [of i ?w2 ref_redis "\<lambda>_ _ _. True" ?se "MinerMessage_AuthResponse demo_sig"] assms(2)
  have "grpc_step ref_redis (\<lambda>_ _ _. True) ?w2 (demo_session i w)"
    by (simp add: nth_append list_update_append handshake_def demo_session_def)
  then show ?thesis by (rule grpc_reach.step [OF 2])
qed

lemma demo_world_reach: "grpc_reach ref_redis (\<lambda>_ _ _. True) (demo_world n)"
proof (induction n)
  case 0
  then show ?case by (simp add: demo_world_def grpc_reach.start demo_grpc_def)
next
  case (Suc n)
  from demo_session_reach [OF this] demo_world_shape [of n]
  have "grpc_reach ref_redis (\<lambda>_ _ _. True) (demo_session n (demo_world n))" by simp
  then show ?case by (simp add: demo_world_def)
qed

text \<open>
  C11. Only authenticated miners receive jobs: in every reachable state, an entry in the map of miners belongs to
  a live session whose node answered that session's challenge with a verified signature, and no
  send buffer ever holds more than 64 messages.
\<close>
theorem miners_authenticated:
  assumes "grpc_reach R verify w"
  shows "(\<forall>owner m. g_miners (w_grpc w) owner = Some m \<longrightarrow>
      w_sessions w ! cm_sendCh m = Active (cm_nodeID m) owner
      \<and> (\<exists>nonceHex sig. (cm_sendCh m, cm_nodeID m, nonceHex, sig, owner) \<in> set (w_log w)
           \<and> VerifyIdentity verify (cm_nodeID m) nonceHex (hex_encode sig) = None))
    \<and> (\<forall>i. length (g_chans (w_grpc w) i) \<le> 64)"
  using grpc_inv_reach [OF assms] unfolding grpc_inv_def sendCh_capacity_def by metis

theorem miners_authenticated_witness:
  "g_miners (w_grpc (demo_world 1)) ''r'' = Some (demo_miner 0)
   \<and> (\<exists>nonceHex sig. (0, demo_key, nonceHex, sig, ''r'') \<in> set (w_log (demo_world 1))
        \<and> VerifyIdentity (\<lambda>_ _ _. True) demo_key nonceHex (hex_encode sig) = None)"
proof -
  have "g_miners (w_grpc (demo_world 1)) ''r'' = Some (demo_miner 0)"
    by (simp add: demo_world_def demo_session_def demo_miner_def)
  moreover have "cm_sendCh (demo_miner 0) = 0" "cm_nodeID (demo_miner 0) = demo_key"
    by (simp_all add: demo_miner_def)
  ultimately show ?thesis using miners_authenticated [OF demo_world_reach [of 1]] by metis
qed

text \<open>
  C32. Exactly one message per accepted result: a result is published once when its nonce, signature, rate and latency
  all pass and the broker takes it, and not at all otherwise. The result processor decodes the message to one result
  of that node for that owner, which carries what was reported: the outcome, every duration, the errors and the time of the
  report, the latency in milliseconds, the place of the miner that the server knows, and as monitor the part of the job id
  before the first colon.
\<close>
theorem result_published:
  "\<exists>item.
     sent (g_conn (handleProbeResult R verify re node pk r g)) =
       sent (g_conn g) @
         (if result_accepted R verify re node r (g_rdb g)
             \<and> (re_open re \<or> (\<exists>c. g_rabbitCh g = Some (c, False))) \<and> re_publish re \<noteq> RequestLost
          then [result_message node pk item] else [])
     \<and> decode_packet (msg_body (result_message node pk item)) =
         Some \<lparr>rp_NodeId = node, rp_RunnerPubkey = pk, rp_Signature = [], rp_Results = [item]\<rparr>
     \<and> pr_MonitorID item = hd (split_on (CHR '':'') (pb_JobId r))
     \<and> pr_JobID item = pb_JobId r \<and> pr_BatchID item = pb_BatchId r \<and> pr_NodeID item = node
     \<and> pr_TargetURL item = pb_TargetUrl r \<and> pr_Success item = pb_Success r \<and> pr_StatusCode item = uint (pb_StatusCode r)
     \<and> pr_DnsUs item = pb_DnsUs r \<and> pr_TcpUs item = pb_TcpUs r \<and> pr_TlsUs item = pb_TlsUs r
     \<and> pr_TtfbUs item = pb_TtfbUs r \<and> pr_TotalUs item = pb_TotalUs r
     \<and> pr_LatencyMs item = uint (pb_TotalUs r) div 1000
     \<and> pr_ErrorKind item = pb_ErrorKind r \<and> pr_ErrorMsg item = pb_ErrorMsg r \<and> pr_TimestampMs item = pb_TimestampMs r
     \<and> (pr_GeoRegion item, pr_Latitude item, pr_Longitude item)
         = (case g_miners g pk of None \<Rightarrow> (''Unknown'', 0, 0) | Some m \<Rightarrow> (cm_region m, cm_latitude m, cm_longitude m))"
proof -
  have "uint (w div 1000) = uint w div 1000" for w :: u64 by (simp add: uint_div)
  then show ?thesis
    by (intro exI [of _ "result_item node (g_miners g pk) r"])
       (auto simp: handleProbeResult_sent decode_result_message result_item_monitor, auto simp: result_item_def Let_def split: option.splits)
qed

text \<open>
  C12. Replay protection end to end: whatever is submitted, by any nodes over any sessions, in any order and with
  any requests lost, no two published results carry the same nonce.
\<close>
theorem results_single_use:
  assumes "redis_server R str zset"
  shows "distinct (map submission_nonce (passed (submit_result R verify) xs g))"
  by (rule redis_server.published_nonces_distinct [OF assms])

theorem results_single_use_witness:
  "passed (submit_result ref_redis (\<lambda>_ _ _. True)) [demo_submission 2, demo_submission 3] demo_probe
     = [demo_submission 2]
   \<and> distinct (map submission_nonce
       (passed (submit_result ref_redis (\<lambda>_ _ _. True)) [demo_submission 2, demo_submission 3] demo_probe))"
  using results_single_use [OF ref_server] demo_submissions by metis

text \<open>
  A nonce is not bound to its job: an accepted result is accepted just as well under any other job id that the node
  signs, so that a node can report for any monitor with a nonce that was issued to it for another one.
\<close>
theorem nonce_not_bound_to_job:
  assumes "result_accepted R verify re node r s"
    and "VerifySignature verify node (job @ pb_TaskNonce r) sig = None"
  shows "result_accepted R verify re node (r\<lparr>pb_JobId := job, pb_Signature := sig\<rparr>) s
    \<and> pr_MonitorID (result_item node miner (r\<lparr>pb_JobId := job, pb_Signature := sig\<rparr>))
        = hd (split_on (CHR '':'') job)"
  using assms by (auto simp: result_accepted_def result_item_monitor Let_def split: prod.splits)

theorem nonce_not_bound_to_job_witness:
  "result_accepted ref_redis (\<lambda>_ _ _. True) (demo_result_env 2) demo_key
     (demo_probe_result\<lparr>pb_JobId := ''m2:r:9'', pb_Signature := demo_sig\<rparr>) demo_nonce_state"
  using nonce_not_bound_to_job [OF demo_accepted(1) demo_signature] by blast

text \<open>
  A rejected result costs its nonce: when the signature is wrong nothing is published and the nonce is spent, so the
  honest answer to the same job is rejected afterwards.
\<close>
theorem rejected_result_spends_nonce:
  assumes "redis_server R str zset"
    and "re_nonce re = Delivered" "VerifySignature verify node (pb_JobId r @ pb_TaskNonce r) (pb_Signature r) \<noteq> None"
    and "pb_TaskNonce r' = pb_TaskNonce r" "re_time re \<le> re_time re'"
  shows "sent (g_conn (handleProbeResult R verify re node pk r g)) = sent (g_conn g)
    \<and> \<not> result_accepted R verify re' node' r' (g_rdb (handleProbeResult R verify re node pk r g))"
proof -
  have "\<not> result_accepted R verify re node r (g_rdb g)"
    using assms(3) by (simp add: result_accepted_def split: prod.splits)
  moreover have "\<not> result_accepted R verify re' node' r' (g_rdb (handleProbeResult R verify re node pk r g))"
    using redis_server.rejected_spends [OF assms(1,2) assms(5)] assms(4) by metis
  ultimately show ?thesis by (simp add: handleProbeResult_sent)
qed

theorem rejected_result_spends_nonce_witness:
  "\<not> result_accepted ref_redis (\<lambda>_ _ _. True) (demo_result_env 3) demo_key demo_probe_result
     (g_rdb (handleProbeResult ref_redis (\<lambda>_ _ _. True) (demo_result_env 2) demo_key ''r''
               (demo_probe_result\<lparr>pb_Signature := ''forged''\<rparr>) demo_probe))
   \<and> result_accepted ref_redis (\<lambda>_ _ _. True) (demo_result_env 3) demo_key demo_probe_result demo_nonce_state"
proof -
  have "VerifySignature (\<lambda>_ _ _. True) demo_key (pb_JobId r @ pb_TaskNonce r) (pb_Signature r) \<noteq> None"
    if "r = demo_probe_result\<lparr>pb_Signature := ''forged''\<rparr>" for r
    using that by (simp add: VerifySignature_def demo_key_def hex_decode_encode SignatureSize_def PublicKeySize_def)
  from rejected_result_spends_nonce [OF ref_server _ this [OF refl], of "demo_result_env 2" demo_probe_result "demo_result_env 3"]
  show ?thesis using demo_accepted by (simp add: demo_result_env_def)
qed

text \<open>
  What becomes of a job: a delivery is never requeued. It is acknowledged if it cannot be decoded, or when its batch
  has become the last message in the buffer of the miner connected under the owner's key; otherwise it is
  dropped and nothing changes.
\<close>
theorem job_outcomes:
  "case ConsumeJob up body g of (g', a) \<Rightarrow>
     a = Ack \<and> g' = g \<and> decode_jobPayloadRaw body = None
     \<or> a = NackDrop \<and> g' = g \<and> (\<exists>raw. decode_jobPayloadRaw body = Some raw
         \<and> (jr_RunnerPubkey raw = [] \<or> g_miners g (jr_RunnerPubkey raw) = None
            \<or> (\<exists>m. g_miners g (jr_RunnerPubkey raw) = Some m \<and> 64 \<le> length (g_chans g (cm_sendCh m)))))
     \<or> a = Ack \<and> (\<exists>raw m. decode_jobPayloadRaw body = Some raw
         \<and> g_miners g (jr_RunnerPubkey raw) = Some m \<and> length (g_chans g (cm_sendCh m)) < 64
         \<and> g' = g\<lparr>g_chans := (g_chans g)(cm_sendCh m :=
               g_chans g (cm_sendCh m) @ [ServerMessage_JobBatch (job_batch raw)])\<rparr>)"
  by (auto simp: ConsumeJob_def offer_def sendCh_capacity_def split: option.splits)

text \<open>
  The end of a superseded session disconnects its successor: the cleanup removes whatever entry the
  owner has, so that when a node has connected again, the end of the old stream leaves the new session active and
  unreachable, and jobs for its owner are dropped.
\<close>
theorem stale_session_evicts:
  assumes "i \<noteq> j" "i < length (w_sessions w)" "j < length (w_sessions w)"
    and "w_sessions w ! i = Active node owner" "w_sessions w ! j = Active node' owner"
    and "JobStream_end c (w_sessions w ! i) (w_grpc w) = (ph', g')"
  shows "g_miners g' owner = None \<and> (w_sessions w)[i := ph'] ! j = Active node' owner
    \<and> (jp_RunnerPubkey p = owner \<and> int64 (jp_IssuedAt p) \<and> int64 (jp_ExpiresAt p)
        \<longrightarrow> ConsumeJob up (encode_JobPayload p) g' = (g', NackDrop))"
  using assms by (auto simp: JobStream_end_def ConsumeJob_def decode_encode_job split: option.splits)

theorem stale_session_evicts_witness:
  "grpc_reach ref_redis (\<lambda>_ _ _. True) (demo_world 2)
   \<and> g_miners (w_grpc (demo_world 2)) ''r'' = Some (demo_miner 1)
   \<and> (case JobStream_end EndOfStream (w_sessions (demo_world 2) ! 0) (w_grpc (demo_world 2)) of (ph', g') \<Rightarrow>
        g_miners g' ''r'' = None \<and> (w_sessions (demo_world 2))[0 := ph'] ! 1 = Active demo_key ''r'')"
proof -
  obtain ph' g' where e: "JobStream_end EndOfStream (w_sessions (demo_world 2) ! 0) (w_grpc (demo_world 2)) = (ph', g')"
    by fastforce
  have "g_miners g' ''r'' = None \<and> (w_sessions (demo_world 2))[0 := ph'] ! 1 = Active demo_key ''r''"
    using stale_session_evicts [of 0 1 "demo_world 2", OF _ _ _ _ _ e] by (simp add: demo_world_shape)
  moreover have "g_miners (w_grpc (demo_world 2)) ''r'' = Some (demo_miner 1)"
    by (simp add: demo_world_def numeral_2_eq_2 demo_session_def)
  ultimately show ?thesis using demo_world_reach e by simp
qed

end
