(* ===== verification/Rest.thy ===== *)
theory Rest
  imports Grpc Scheduler
begin

text \<open>
  The submission of results over HTTP, \<^verbatim>\<open>PingController.SubmitResults\<close> of \<^verbatim>\<open>controllers/ping.go\<close>, with the responses that all
  controllers give. A response carries the value that is handed to the JSON encoder, or the error whose text it shows.
\<close>

subsection \<open>Responses\<close>

datatype 'e body = Value 'e | ErrorText string | RateText ac_error

record 'v response =
  rsp_status :: nat
  rsp_body :: 'v

definition respond :: "nat \<Rightarrow> 'v \<Rightarrow> 'v response" where
  "respond status v = \<lparr>rsp_status = status, rsp_body = v\<rparr>"

lemma respond_simps [simp]: "rsp_status (respond st v) = st" "rsp_body (respond st v) = v"
  by (simp_all add: respond_def)

subsection \<open>Requests\<close>

record SubmitResultsRequest =
  sr_RunnerPubkey :: pubkey
  sr_Signature :: string
  sr_Results :: "PingResultItem list"

definition zero_submit :: SubmitResultsRequest where
  "zero_submit = \<lparr>sr_RunnerPubkey = [], sr_Signature = [], sr_Results = []\<rparr>"

definition submit_fields :: "SubmitResultsRequest fields" where
  "submit_fields =
     [(''runner_pubkey'', set_string (\<lambda>x s. s\<lparr>sr_RunnerPubkey := x\<rparr>)),
      (''signature'', set_string (\<lambda>x s. s\<lparr>sr_Signature := x\<rparr>)),
      (''results'', \<lambda>v s. case v of
          JArr vs \<Rightarrow> map_option (\<lambda>rs. s\<lparr>sr_Results := rs\<rparr>) (decode_all decode_item vs) | _ \<Rightarrow> None)]"

text \<open>A body is the first JSON value of the request, or \<open>None\<close> when there is none.\<close>

definition decode_body :: "'r fields \<Rightarrow> 'r \<Rightarrow> json option \<Rightarrow> 'r option" where
  "decode_body fs zero b = (case b of None \<Rightarrow> None | Some v \<Rightarrow> decode_struct fs zero v)"

subsection \<open>SubmitResults\<close>

text \<open>
  The loop over the results: each is kept if its job id passes as a nonce. \<open>env i\<close> is the fate of the \<open>i\<close>-th request to
  Redis and the time of the server.
\<close>

fun keep_valid ::
  "'s redis \<Rightarrow> ((fate \<times> instant) \<times> PingResultItem) list \<Rightarrow> 's \<Rightarrow> 's \<times> PingResultItem list" where
  "keep_valid R [] s = (s, [])"
| "keep_valid R (((f, t), res) # rest) s =
     (case ValidateTaskNonce R f t (pr_JobID res) s of
        (s', Some _) \<Rightarrow> keep_valid R rest s'
      | (s', None) \<Rightarrow> (let (s'', valid) = keep_valid R rest s' in (s'', res # valid)))"

record submit_env =
  sb_rate :: "fate \<times> fate \<times> instant"
  sb_nonce :: "nat \<Rightarrow> fate \<times> instant"
  sb_publish :: fate

definition with_env :: "(nat \<Rightarrow> 'e) \<Rightarrow> 'x list \<Rightarrow> ('e \<times> 'x) list" where
  "with_env env xs = map (\<lambda>(i, x). (env i, x)) (enumerate 0 xs)"

lemma map_snd_with_env [simp]: "map snd (with_env env xs) = xs"
  by (simp add: with_env_def case_prod_beta o_def)

definition results_message :: "pubkey \<Rightarrow> string \<Rightarrow> PingResultItem list \<Rightarrow> message" where
  "results_message runner signature results =
     \<lparr>msg_exchange = ''monitor_updates'', msg_key = [],
      msg_body = encode_packet (MarshalResultPacket runner signature results)\<rparr>"

definition SubmitResults ::
  "'s redis \<Rightarrow> submit_env \<Rightarrow> json option \<Rightarrow> 's \<times> connection \<Rightarrow> ('s \<times> connection) \<times> string body response" where
  "SubmitResults R se b s =
     (case decode_body submit_fields zero_submit b of
        None \<Rightarrow> (s, respond 400 (ErrorText ''invalid request body''))
      | Some req \<Rightarrow>
          if sr_RunnerPubkey req = [] \<or> sr_Results req = []
          then (s, respond 400 (ErrorText ''runner_pubkey and results are required''))
          else
            (case sb_rate se of (f1, f2, t) \<Rightarrow>
               (case CheckRateLimit R f1 f2 t (sr_RunnerPubkey req) 600 (fst s) of
                  (rdb1, Some e) \<Rightarrow> ((rdb1, snd s), respond 429 (RateText e))
                | (rdb1, None) \<Rightarrow>
                    (case keep_valid R (with_env (sb_nonce se) (sr_Results req)) rdb1 of
                       (rdb2, validResults) \<Rightarrow>
                         if validResults = []
                         then ((rdb2, snd s), respond 422 (ErrorText ''all job_ids were invalid or expired''))
                         else
                           (case amqp_publish (sb_publish se)
                                   (results_message (sr_RunnerPubkey req) (sr_Signature req) validResults) (snd s) of
                              (c', None) \<Rightarrow>
                                ((rdb2, c'), respond 503 (ErrorText ''failed to publish notification''))
                            | (c', Some _) \<Rightarrow> ((rdb2, c'), respond 202 (Value ''results queued'')))))))"

subsection \<open>The loop as a gated handler\<close>

text \<open>One result of a request: the store is Redis, the nonce its job id.\<close>

definition validate_item ::
  "'s redis \<Rightarrow> (fate \<times> instant) \<times> PingResultItem \<Rightarrow> 's \<Rightarrow> 's \<times> bool" where
  "validate_item R x s =
     (let (s', e) = ValidateTaskNonce R (fst (fst x)) (snd (fst x)) (pr_JobID (snd x)) s in (s', e = None))"

lemma validate_item_proj:
  "snd (validate_item R x s) \<longleftrightarrow> snd (ValidateTaskNonce R (fst (fst x)) (snd (fst x)) (pr_JobID (snd x)) s) = None"
  "fst (validate_item R x s) = fst (ValidateTaskNonce R (fst (fst x)) (snd (fst x)) (pr_JobID (snd x)) s)"
  by (simp_all add: validate_item_def case_prod_beta Let_def)

lemma keep_valid_passed: "snd (keep_valid R xs s) = map snd (passed (validate_item R) xs s)"
  by (induction R xs s rule: keep_valid.induct)
     (auto simp: validate_item_def split: prod.splits option.splits)

lemma keep_valid_subset: "set (snd (keep_valid R xs s)) \<subseteq> snd ` set xs"
proof (induction R xs s rule: keep_valid.induct)
  case (2 R f t res rest s)
  then show ?case by (auto split: prod.splits option.splits) blast+
qed simp

lemma keep_valid_items: "set (snd (keep_valid R (with_env env xs) s)) \<subseteq> set xs"
proof -
  have "snd ` set (with_env env xs) = set xs" by (metis map_snd_with_env set_map)
  with keep_valid_subset [of R "with_env env xs" s] show ?thesis by simp
qed

sublocale redis_server \<subseteq> rest: gated_handler
  "\<lambda>s n t. n \<noteq> '''' \<and> rGET R t (nonce_key n) s \<noteq> None"
  "\<lambda>t n d. rSET R t (nonce_key n) (Str ''1'') d"
  "ValidateTaskNonce R" "\<lambda>s. s" "\<lambda>x. pr_JobID (snd x)" "validate_item R"
proof unfold_locales
  fix x :: "(fate \<times> instant) \<times> PingResultItem" and w :: 's
  assume "snd (validate_item R x w)"
  then show "\<exists>t. pr_JobID (snd x) \<noteq> '''' \<and> rGET R t (nonce_key (pr_JobID (snd x))) w \<noteq> None"
    unfolding validate_item_proj validate_iff by blast
next
  fix x :: "(fate \<times> instant) \<times> PingResultItem" and w :: 's and t
  assume "snd (validate_item R x w)"
  then show "\<not> (pr_JobID (snd x) \<noteq> '''' \<and> rGET R t (nonce_key (pr_JobID (snd x))) (fst (validate_item R x w)) \<noteq> None)"
    unfolding validate_item_proj by (simp only: gate.consume_iff) (use gate.consume_spends in blast)
next
  fix x :: "(fate \<times> instant) \<times> PingResultItem" and w :: 's and n t
  assume "n \<noteq> '''' \<and> rGET R t (nonce_key n) (fst (validate_item R x w)) \<noteq> None"
  then show "n \<noteq> '''' \<and> rGET R t (nonce_key n) w \<noteq> None"
    unfolding validate_item_proj by (rule gate.consume_keeps)
qed

subsection \<open>What is published\<close>

context redis_server begin

lemma rate_keeps_nonces:
  "rGET R t' (nonce_key n) (fst (CheckRateLimit R f1 f2 t node m s)) = rGET R t' (nonce_key n) s"
  by (simp add: get rate_frame)

lemma keep_valid_present:
  "r \<in> set (snd (keep_valid R xs s)) \<Longrightarrow> pr_JobID r \<noteq> '''' \<and> (\<exists>t. rGET R t (nonce_key (pr_JobID r)) s \<noteq> None)"
  using rest.passed_were_present [of "pr_JobID r" xs s] unfolding keep_valid_passed by auto

lemma keep_valid_distinct: "distinct (map pr_JobID (snd (keep_valid R xs s)))"
  using rest.passed_distinct [of xs s] by (simp add: keep_valid_passed o_def)

lemma keep_valid_state:
  "rGET R t (nonce_key n) (fst (keep_valid R xs s)) \<noteq> None \<Longrightarrow> n \<noteq> '''' \<Longrightarrow> rGET R t (nonce_key n) s \<noteq> None"
proof (induction xs arbitrary: s)
  case (Cons x rest)
  obtain f t' res where x: "x = ((f, t'), res)" by (metis prod.exhaust)
  obtain s' e where v: "ValidateTaskNonce R f t' (pr_JobID res) s = (s', e)" by fastforce
  have "fst (keep_valid R (((f, t'), res) # rest) s) = fst (keep_valid R rest s')"
    using v by (simp split: option.splits prod.splits)
  then have "rGET R t (nonce_key n) s' \<noteq> None" using Cons.IH [of s'] Cons.prems by (simp add: x)
  moreover have "rGET R t (nonce_key n) s' \<noteq> None \<Longrightarrow> rGET R t (nonce_key n) s \<noteq> None"
    using gate.consume_keeps [of n t f t' "pr_JobID res" s] Cons.prems(2) v by simp
  ultimately show ?case by blast
qed simp

lemma keep_valid_spends:
  "r \<in> set (snd (keep_valid R xs s)) \<Longrightarrow> rGET R t (nonce_key (pr_JobID r)) (fst (keep_valid R xs s)) = None"
proof (induction xs arbitrary: s)
  case Nil
  then show ?case by simp
next
  case (Cons x rest)
  obtain f u res where x: "x = ((f, u), res)" by (metis prod.exhaust)
  obtain s' e where v: "ValidateTaskNonce R f u (pr_JobID res) s = (s', e)" by fastforce
  have st: "fst (keep_valid R (x # rest) s) = fst (keep_valid R rest s')"
    using v by (simp add: x split: option.splits prod.splits)
  show ?case
  proof (cases "e = None \<and> r = res")
    case True
    then have n: "pr_JobID res \<noteq> ''''" "\<not> (pr_JobID res \<noteq> '''' \<and> rGET R t (nonce_key (pr_JobID res)) s' \<noteq> None)"
      using gate.consume_iff [of f u "pr_JobID res" s] gate.consume_spends [of "pr_JobID res" u s f t] v by auto
    with True keep_valid_state [of t "pr_JobID res" rest s'] show ?thesis unfolding st by blast
  next
    case False
    with Cons.prems v have "r \<in> set (snd (keep_valid R rest s'))"
      by (auto simp: x split: option.splits prod.splits)
    from Cons.IH [OF this] show ?thesis unfolding st .
  qed
qed

end

lemma SubmitResults_cases:
  assumes "SubmitResults R se b (rdb, c) = ((rdb', c'), resp)"
  obtains (refused) "c' = c" "rsp_status resp \<in> {400, 429, 422}"
  | (published) req rdb1 valid f1 f2 t where "decode_body submit_fields zero_submit b = Some req" "sb_rate se = (f1, f2, t)"
      "CheckRateLimit R f1 f2 t (sr_RunnerPubkey req) 600 rdb = (rdb1, None)"
      "keep_valid R (with_env (sb_nonce se) (sr_Results req)) rdb1 = (rdb', valid)" "valid \<noteq> []"
      "sent c' = sent c @ (if sb_publish se = RequestLost then []
         else [results_message (sr_RunnerPubkey req) (sr_Signature req) valid])"
      "rsp_status resp = (if sb_publish se = Delivered then 202 else 503)"
proof (cases "decode_body submit_fields zero_submit b")
  case None
  with assms show ?thesis by (intro refused) (auto simp: SubmitResults_def)
next
  case (Some req)
  obtain f1 f2 t where r: "sb_rate se = (f1, f2, t)" by (rule prod_cases3)
  obtain rdb1 e where ch: "CheckRateLimit R f1 f2 t (sr_RunnerPubkey req) 600 rdb = (rdb1, e)" by fastforce
  obtain rdb2 valid where k: "keep_valid R (with_env (sb_nonce se) (sr_Results req)) rdb1 = (rdb2, valid)" by fastforce
  show ?thesis
  proof (cases "sr_RunnerPubkey req = [] \<or> sr_Results req = [] \<or> e \<noteq> None \<or> valid = []")
    case True
    with assms Some r ch k show ?thesis
      by (intro refused; cases e) (auto simp: SubmitResults_def split: if_splits)
  next
    case False
    with assms Some r ch k show ?thesis
      by (intro published [OF Some r, of rdb1 valid]; cases "sb_publish se")
         (auto simp: SubmitResults_def amqp_publish_def)
  qed
qed

subsection \<open>Properties\<close>

text \<open>
  C30. A job is submitted over HTTP at most once: the results of a published packet are results of the request with
  pairwise different job ids, each of them was a live nonce before the request, and none is afterwards.
\<close>
theorem rest_results_spend_nonces:
  assumes "redis_server R str zset" "SubmitResults R se b (rdb, c) = ((rdb', c'), resp)" "sent c' \<noteq> sent c"
  shows "\<exists>req valid. decode_body submit_fields zero_submit b = Some req
    \<and> sent c' = sent c @ [results_message (sr_RunnerPubkey req) (sr_Signature req) valid]
    \<and> set valid \<subseteq> set (sr_Results req) \<and> distinct (map pr_JobID valid)
    \<and> (\<forall>r \<in> set valid. (\<exists>t. rGET R t (nonce_key (pr_JobID r)) rdb \<noteq> None)
          \<and> (\<forall>t. rGET R t (nonce_key (pr_JobID r)) rdb' = None))"
  using assms(2)
proof (cases rule: SubmitResults_cases)
  case refused
  with assms(3) show ?thesis by simp
next
  case (published req rdb1 valid f1 f2 t)
  have v: "valid = snd (keep_valid R (with_env (sb_nonce se) (sr_Results req)) rdb1)" "rdb' = fst (keep_valid R (with_env (sb_nonce se) (sr_Results req)) rdb1)"
    and r1: "rdb1 = fst (CheckRateLimit R f1 f2 t (sr_RunnerPubkey req) 600 rdb)"
    using published(3,4) by simp_all
  have "set valid \<subseteq> set (sr_Results req)"
    unfolding v(1) by (rule keep_valid_items)
  moreover have "\<exists>t. rGET R t (nonce_key (pr_JobID r)) rdb \<noteq> None" if "r \<in> set valid" for r
    using redis_server.keep_valid_present [OF assms(1) that [unfolded v(1)]]
    unfolding r1 redis_server.rate_keeps_nonces [OF assms(1)] by blast
  moreover have "rGET R t (nonce_key (pr_JobID r)) rdb' = None" if "r \<in> set valid" for r t
    unfolding v(2) by (rule redis_server.keep_valid_spends [OF assms(1) that [unfolded v(1)]])
  moreover have "distinct (map pr_JobID valid)"
    unfolding v(1) by (rule redis_server.keep_valid_distinct [OF assms(1)])
  moreover have "sb_publish se \<noteq> RequestLost" using published(6) assms(3) by auto
  ultimately show ?thesis using published(1,6) by auto
qed

text \<open>
  Honest reports cannot be submitted over HTTP: nonces contain no colon, while every job id of the scheduler does; a
  request that reports scheduled jobs is refused and nothing is published.
\<close>
theorem rest_refuses_scheduled_jobs:
  assumes "redis_server R str zset" "SubmitResults R se b (rdb, c) = ((rdb', c'), resp)"
    and "\<forall>n t. rGET R t (nonce_key n) rdb \<noteq> None \<longrightarrow> CHR '':'' \<notin> set n"
    and "\<forall>req. decode_body submit_fields zero_submit b = Some req \<longrightarrow>
           (\<forall>r \<in> set (sr_Results req). \<exists>i pk now. pr_JobID r = job_id i pk now)"
  shows "rsp_status resp \<in> {400, 429, 422} \<and> sent c' = sent c"
  using assms(2)
proof (cases rule: SubmitResults_cases)
  case refused
  then show ?thesis by simp
next
  case (published req rdb1 valid f1 f2 t)
  then obtain r where r: "r \<in> set (snd (keep_valid R (with_env (sb_nonce se) (sr_Results req)) rdb1))"
    by (cases valid) auto
  have "r \<in> set (sr_Results req)" using keep_valid_items r by (rule subsetD)
  with assms(4) published(1) have "CHR '':'' \<in> set (pr_JobID r)" by (fastforce simp: job_id_def)
  moreover have "rdb1 = fst (CheckRateLimit R f1 f2 t (sr_RunnerPubkey req) 600 rdb)"
    using published(3) by simp
  then have "CHR '':'' \<notin> set (pr_JobID r)"
    using redis_server.keep_valid_present [OF assms(1) r] assms(3)
    by (auto simp: redis_server.rate_keeps_nonces [OF assms(1)])
  ultimately show ?thesis by simp
qed

text \<open>A request with one result whose job id is a live nonce.\<close>

lemma submit_one:
  assumes "redis_server R str zset" "sb_rate se = (f1, f2, t)" "snd (CheckRateLimit R f1 f2 t runner 600 rdb) = None"
    and "pr_JobID r \<noteq> []" "rGET R (snd (sb_nonce se 0)) (nonce_key (pr_JobID r)) rdb \<noteq> None" "fst (sb_nonce se 0) = Delivered"
    and "sb_publish se = Delivered"
    and "decode_body submit_fields zero_submit b = Some \<lparr>sr_RunnerPubkey = runner, sr_Signature = signature, sr_Results = [r]\<rparr>"
    and "runner \<noteq> []"
  shows "\<exists>rdb'. SubmitResults R se b (rdb, c) =
    ((rdb', c\<lparr>sent := sent c @ [results_message runner signature [r]]\<rparr>), respond 202 (Value ''results queued''))"
proof -
  obtain rdb1 where ch: "CheckRateLimit R f1 f2 t runner 600 rdb = (rdb1, None)" using assms(3) by (metis prod.collapse)
  have "rGET R (snd (sb_nonce se 0)) (nonce_key (pr_JobID r)) rdb1 \<noteq> None"
    using assms(5) redis_server.rate_keeps_nonces [OF assms(1), of "snd (sb_nonce se 0)" "pr_JobID r" f1 f2 t runner 600 rdb] ch by simp
  then have "snd (ValidateTaskNonce R Delivered (snd (sb_nonce se 0)) (pr_JobID r) rdb1) = None"
    using redis_server.validate_iff [OF assms(1)] assms(4) by simp
  then obtain rdb2 where v: "ValidateTaskNonce R Delivered (snd (sb_nonce se 0)) (pr_JobID r) rdb1 = (rdb2, None)"
    by (metis prod.collapse)
  obtain t0 where env0: "sb_nonce se 0 = (Delivered, t0)" using assms(6) by (metis prod.collapse)
  have k: "keep_valid R (with_env (sb_nonce se) [r]) rdb1 = (rdb2, [r])"
    using v by (simp add: with_env_def env0)
  have p: "amqp_publish Delivered m c = (c\<lparr>sent := sent c @ [m]\<rparr>, Some ())" for m
    by (simp add: amqp_publish_def)
  show ?thesis
    by (rule exI [of _ rdb2])
      (simp add: SubmitResults_def assms(2,7,8) ch k p assms(9))
qed

text \<open>Requests for the witnesses, on a server that holds one nonce.\<close>

definition demo_body :: "string \<Rightarrow> json" where
  "demo_body job = JObj
     [(''runner_pubkey'', JStr ''eve''), (''signature'', JStr []),
      (''results'', JArr [encode_item (demo_result ''m'' 1\<lparr>pr_JobID := job\<rparr>)])]"

definition demo_submit :: submit_env where
  "demo_submit = \<lparr>sb_rate = (Delivered, Delivered, 0), sb_nonce = (\<lambda>_. (Delivered, 1)), sb_publish = Delivered\<rparr>"

definition demo_nonces :: ref_state where
  "demo_nonces = rSET ref_redis 0 (nonce_key ''n'') (Str ''1'') minute ref_empty"

lemma demo_decode:
  "decode_body submit_fields zero_submit (Some (demo_body job)) =
     Some \<lparr>sr_RunnerPubkey = ''eve'', sr_Signature = [], sr_Results = [demo_result ''m'' 1\<lparr>pr_JobID := job\<rparr>]\<rparr>"
proof -
  have ok: "item_ok (demo_result ''m'' 1\<lparr>pr_JobID := job\<rparr>)" by (simp add: item_ok_def demo_result_def int64_def)
  show ?thesis
    unfolding decode_body_def demo_body_def option.case decode_struct_def json.case
    by (simp add: decode_fields_known submit_fields_def lower_tag_def zero_submit_def decode_encode_item [OF ok]
        del: decode_fields.simps(2))
qed

lemma demo_rate: "snd (CheckRateLimit ref_redis Delivered Delivered 0 ''eve'' 600 demo_nonces) = None"
  by (rule redis_server.rate_first(1) [OF ref_server, THEN iffD2])
     (simp_all add: demo_nonces_def ref_redis_def ref_empty_def rate_key_def nonce_key_def)

lemma demo_live: "rGET ref_redis t (nonce_key n) demo_nonces = (if n = ''n'' \<and> t < minute then Some (Str ''1'') else None)"
  by (simp add: demo_nonces_def ref_redis_def ref_empty_def)

theorem rest_results_spend_nonces_witness:
  "\<exists>rdb' c' resp. SubmitResults ref_redis demo_submit (Some (demo_body ''n'')) (demo_nonces, \<lparr>opened = 0, sent = []\<rparr>) = ((rdb', c'), resp)
     \<and> sent c' \<noteq> [] \<and> (\<exists>valid. sent c' = [results_message ''eve'' [] valid] \<and> distinct (map pr_JobID valid))"
proof -
  have "pr_JobID (demo_result ''m'' 1\<lparr>pr_JobID := ''n''\<rparr>) = ''n''" by simp
  moreover have "sb_rate demo_submit = (Delivered, Delivered, 0)" "sb_publish demo_submit = Delivered" "sb_nonce demo_submit 0 = (Delivered, 1)"
    by (simp_all add: demo_submit_def)
  ultimately obtain rdb2 where r: "SubmitResults ref_redis demo_submit (Some (demo_body ''n'')) (demo_nonces, \<lparr>opened = 0, sent = []\<rparr>) =
      ((rdb2, \<lparr>opened = 0, sent = [results_message ''eve'' [] [demo_result ''m'' 1\<lparr>pr_JobID := ''n''\<rparr>]]\<rparr>), respond 202 (Value ''results queued''))"
    using submit_one [OF ref_server _ demo_rate _ _ _ _ demo_decode, of demo_submit "''n''" "\<lparr>opened = 0, sent = []\<rparr>"]
    by (auto simp: demo_live)
  from rest_results_spend_nonces [OF ref_server r] obtain req valid where
    "decode_body submit_fields zero_submit (Some (demo_body ''n'')) = Some req" "distinct (map pr_JobID valid)"
    "[results_message ''eve'' [] [demo_result ''m'' 1\<lparr>pr_JobID := ''n''\<rparr>]] =
       [] @ [results_message (sr_RunnerPubkey req) (sr_Signature req) valid]"
    by (simp only: connection.select_convs) blast
  then have "sr_RunnerPubkey req = ''eve''" "sr_Signature req = []" "distinct (map pr_JobID valid)"
    "[results_message ''eve'' [] [demo_result ''m'' 1\<lparr>pr_JobID := ''n''\<rparr>]] =
       [results_message (sr_RunnerPubkey req) (sr_Signature req) valid]"
    by (auto simp: demo_decode)
  with r show ?thesis by (intro exI conjI) (assumption | simp)+
qed

theorem rest_refuses_scheduled_jobs_witness:
  "\<exists>rdb' c' resp. SubmitResults ref_redis demo_submit (Some (demo_body (job_id ''m'' ''eve'' 0))) (demo_nonces, \<lparr>opened = 0, sent = []\<rparr>) =
       ((rdb', c'), resp) \<and> rsp_status resp \<in> {400, 429, 422} \<and> sent c' = []"
proof -
  obtain rdb' c' resp where r: "SubmitResults ref_redis demo_submit (Some (demo_body (job_id ''m'' ''eve'' 0)))
      (demo_nonces, \<lparr>opened = 0, sent = []\<rparr>) = ((rdb', c'), resp)" by (metis prod.exhaust)
  have "\<forall>n t. rGET ref_redis t (nonce_key n) demo_nonces \<noteq> None \<longrightarrow> CHR '':'' \<notin> set n"
    by (simp add: demo_live)
  moreover have "\<exists>i pk now. pr_JobID (demo_result ''m'' 1\<lparr>pr_JobID := job_id ''m'' ''eve'' 0\<rparr>) = job_id i pk now"
    by (intro exI) simp
  then have "\<forall>req. decode_body submit_fields zero_submit (Some (demo_body (job_id ''m'' ''eve'' 0))) = Some req \<longrightarrow>
      (\<forall>r \<in> set (sr_Results req). \<exists>i pk now. pr_JobID r = job_id i pk now)"
    by (simp only: demo_decode) simp
  ultimately have "rsp_status resp \<in> {400, 429, 422} \<and> sent c' = sent \<lparr>opened = 0, sent = []\<rparr>"
    by (rule rest_refuses_scheduled_jobs [OF ref_server r])
  with r show ?thesis by (intro exI conjI) (assumption | simp)+
qed

end
