(* ===== verification/Http.thy ===== *)
theory Http
  imports Auth MonitorService RewardService RunnerService Solana Rest
begin

text \<open>
  The HTTP interface: the routes of \<^verbatim>\<open>router/router.go\<close>, the middleware in front of the protected ones, and the controllers
  of \<^verbatim>\<open>controllers/\<close>, composed into one function from a request and the state of the server to the new state and the
  response. Requests are parsed: a path is the list of its segments, a body its first JSON value. The CORS, logging,
  request-id and timeout middleware are left out; the recoverer turns a panic into 500.
\<close>

subsection \<open>Requests and responses\<close>

datatype http_method = GET | POST | PUT | DELETE | OtherMethod

record http_request =
  hq_method :: http_method
  hq_path :: "string list"
  hq_authorization :: string
  hq_pubkey :: string
  hq_body :: "json option"

datatype response_value =
    VAuth AuthResponse
  | VMonitor MonitorResponse
  | VMonitors "MonitorResponse list"
  | VStats MonitorStatsResponse
  | VRunner RunnerResponse
  | VReward RewardStatusResponse
  | VMessage string
  | VValid bool string

text \<open>The error whose text a response shows.\<close>

datatype error_text =
    EMsg string
  | EAuth auth_error
  | EMonitor monitor_error
  | EService service_error
  | EReward reward_error
  | EDb db_error
  | ERate ac_error
  | EClient client_error

datatype http_body = JsonValue response_value | JsonError error_text | PlainError error_text | PlainText string | NoBody

type_synonym http_response = "http_body response"

definition respondJSON :: "nat \<Rightarrow> response_value \<Rightarrow> http_response" where
  "respondJSON status v = respond status (JsonValue v)"

definition respondError :: "nat \<Rightarrow> error_text \<Rightarrow> http_response" where
  "respondError status e = respond status (JsonError e)"

definition http_Error :: "error_text \<Rightarrow> nat \<Rightarrow> http_response" where
  "http_Error e status = respond status (PlainError e)"

lemmas response_simps [simp] = respondJSON_def respondError_def http_Error_def

subsection \<open>The server\<close>

text \<open>What the deployment fixes: the libraries, the schema, and functions of the standard library.\<close>

record 's deployment =
  dp_redis :: "'s redis"
  dp_auth :: auth_lib
  dp_secret :: string
  dp_credits :: int
  dp_schema :: schema
  dp_parse_float :: "string \<Rightarrow> rat"
  dp_uuid_in :: "string \<Rightarrow> string option"
  dp_parse_sig :: "string \<Rightarrow> string option"

text \<open>What one request meets.\<close>

record http_env =
  he_now :: instant
  he_db_now :: instant
  he_up :: "nat \<Rightarrow> bool"
  he_exec :: fate
  he_del :: fate
  he_zadd :: fate
  he_uuid :: string
  he_auth :: auth_env
  he_submit :: submit_env
  he_rpc :: "string \<Rightarrow> transaction option option"

record 's http_state =
  hs_db :: db
  hs_rdb :: 's
  hs_registry :: MemoryRegistry
  hs_conn :: connection

subsection \<open>user.go\<close>

definition register_fields :: "RegisterRequest fields" where
  "register_fields =
     [(''email'', set_string (\<lambda>x s. s\<lparr>rq_Email := x\<rparr>)), (''password'', set_string (\<lambda>x s. s\<lparr>rq_Password := x\<rparr>)),
      (''wallet_pubkey'', set_string (\<lambda>x s. s\<lparr>rq_WalletPubkey := x\<rparr>))]"

definition login_fields :: "LoginRequest fields" where
  "login_fields =
     [(''email'', set_string (\<lambda>x s. s\<lparr>lq_Email := x\<rparr>)), (''password'', set_string (\<lambda>x s. s\<lparr>lq_Password := x\<rparr>))]"

definition ctrl_Register ::
  "'s deployment \<Rightarrow> http_env \<Rightarrow> http_request \<Rightarrow> 's http_state \<Rightarrow> 's http_state \<times> http_response" where
  "ctrl_Register D he q s =
     (case decode_body register_fields \<lparr>rq_Email = [], rq_Password = [], rq_WalletPubkey = []\<rparr> (hq_body q) of
        None \<Rightarrow> (s, respondError 400 (EMsg ''invalid request body''))
      | Some req \<Rightarrow>
          (case user_Register (dp_auth D) (dp_secret D) (dp_credits D) (he_auth he) req (hs_db s) of
             (db', Inl e) \<Rightarrow> (s\<lparr>hs_db := db'\<rparr>, respondError 400 (EAuth e))
           | (db', Inr resp) \<Rightarrow> (s\<lparr>hs_db := db'\<rparr>, respondJSON 201 (VAuth resp))))"

definition ctrl_Login ::
  "'s deployment \<Rightarrow> http_env \<Rightarrow> http_request \<Rightarrow> 's http_state \<Rightarrow> 's http_state \<times> http_response" where
  "ctrl_Login D he q s =
     (case decode_body login_fields \<lparr>lq_Email = [], lq_Password = []\<rparr> (hq_body q) of
        None \<Rightarrow> (s, respondError 400 (EMsg ''invalid request body''))
      | Some req \<Rightarrow>
          (case user_Login (dp_auth D) (dp_secret D) (he_up he 0) (he_auth he) req (hs_db s) of
             Inl e \<Rightarrow> (s, respondError 401 (EAuth e))
           | Inr resp \<Rightarrow> (s, respondJSON 200 (VAuth resp))))"

subsection \<open>monitor.go\<close>

definition create_fields :: "CreateMonitorRequest fields" where
  "create_fields =
     [(''target_url'', set_string (\<lambda>x s. s\<lparr>cq_TargetURL := x\<rparr>)),
      (''interval_seconds'', set_int (\<lambda>x s. s\<lparr>cq_IntervalSeconds := x\<rparr>))]"

text \<open>An operation on the tables and Redis, run on the state of the server.\<close>

definition on_tables ::
  "(db \<times> 's \<Rightarrow> (db \<times> 's) \<times> 'r) \<Rightarrow> 's http_state \<Rightarrow> 's http_state \<times> 'r" where
  "on_tables f s = (case f (hs_db s, hs_rdb s) of ((db', rdb'), r) \<Rightarrow> (s\<lparr>hs_db := db', hs_rdb := rdb'\<rparr>, r))"

definition ctrl_Create ::
  "'s deployment \<Rightarrow> http_env \<Rightarrow> identity \<Rightarrow> http_request \<Rightarrow> 's http_state \<Rightarrow> 's http_state \<times> http_response" where
  "ctrl_Create D he who q s =
     (case decode_body create_fields \<lparr>cq_TargetURL = [], cq_IntervalSeconds = 0\<rparr> (hq_body q) of
        None \<Rightarrow> (s, respondError 400 (EMsg ''invalid request body''))
      | Some req \<Rightarrow>
          (case on_tables (service_Create (dp_redis D) (he_uuid he) (he_db_now he) (he_del he) (he_zadd he)
                   (GetUserID who) req) s of
             (s', Inl e) \<Rightarrow> (s', respondError 400 (EMonitor e))
           | (s', Inr resp) \<Rightarrow> (s', respondJSON 201 (VMonitor resp))))"

definition ctrl_List ::
  "http_env \<Rightarrow> identity \<Rightarrow> 's http_state \<Rightarrow> 's http_state \<times> http_response" where
  "ctrl_List he who s =
     (case ListByOwner (he_up he 0) (GetUserID who) (hs_db s) of
        Inl e \<Rightarrow> (s, respondError 500 (EDb e))
      | Inr resp \<Rightarrow> (s, respondJSON 200 (VMonitors resp)))"

definition ctrl_Stats ::
  "'s deployment \<Rightarrow> http_env \<Rightarrow> identity \<Rightarrow> string \<Rightarrow> 's http_state \<Rightarrow> 's http_state \<times> http_response" where
  "ctrl_Stats D he who monitorID s =
     (case Stats (dp_uuid_in D) (he_up he) (he_now he) monitorID (GetUserID who) (hs_db s) of
        Inl e \<Rightarrow> (s, respondError 500 (EDb e))
      | Inr resp \<Rightarrow> (s, respondJSON 200 (VStats resp)))"

definition ctrl_Pause ::
  "'s deployment \<Rightarrow> http_env \<Rightarrow> identity \<Rightarrow> string \<Rightarrow> 's http_state \<Rightarrow> 's http_state \<times> http_response" where
  "ctrl_Pause D he who monitorID s =
     (case on_tables (Pause (dp_redis D) (dp_uuid_in D) (he_exec he) (he_del he) monitorID (GetUserID who)) s of
        (s', Inl e) \<Rightarrow> (s', respondError 500 (EDb e))
      | (s', Inr _) \<Rightarrow> (s', respondJSON 200 (VMessage ''monitor paused'')))"

definition ctrl_Resume ::
  "'s deployment \<Rightarrow> http_env \<Rightarrow> identity \<Rightarrow> string \<Rightarrow> 's http_state \<Rightarrow> 's http_state \<times> http_response" where
  "ctrl_Resume D he who monitorID s =
     (case on_tables (Resume (dp_redis D) (dp_uuid_in D) (he_exec he) (he_del he) monitorID (GetUserID who)) s of
        (s', Inl e) \<Rightarrow> (s', respondError 500 (EDb e))
      | (s', Inr _) \<Rightarrow> (s', respondJSON 200 (VMessage ''monitor resumed'')))"

definition ctrl_Delete ::
  "'s deployment \<Rightarrow> http_env \<Rightarrow> identity \<Rightarrow> string \<Rightarrow> 's http_state \<Rightarrow> 's http_state \<times> http_response" where
  "ctrl_Delete D he who monitorID s =
     (case on_tables (service_Delete (dp_redis D) (dp_uuid_in D) (he_db_now he) (he_exec he) (he_del he) monitorID
             (GetUserID who)) s of
        (s', Inl e) \<Rightarrow> (s', respondError 500 (EDb e))
      | (s', Inr _) \<Rightarrow> (s', respondJSON 200 (VMessage ''monitor deleted'')))"

subsection \<open>ping.go\<close>

record RegisterRunnerRequest =
  nq_OwnerPubkey :: string
  nq_Region :: string
  nq_Latitude :: string
  nq_Longitude :: string

definition runner_fields :: "RegisterRunnerRequest fields" where
  "runner_fields =
     [(''owner_pubkey'', set_string (\<lambda>x s. s\<lparr>nq_OwnerPubkey := x\<rparr>)), (''region'', set_string (\<lambda>x s. s\<lparr>nq_Region := x\<rparr>)),
      (''latitude'', set_string (\<lambda>x s. s\<lparr>nq_Latitude := x\<rparr>)), (''longitude'', set_string (\<lambda>x s. s\<lparr>nq_Longitude := x\<rparr>))]"

definition ctrl_RunnerRegister ::
  "'s deployment \<Rightarrow> http_env \<Rightarrow> identity \<Rightarrow> http_request \<Rightarrow> 's http_state \<Rightarrow> 's http_state \<times> http_response" where
  "ctrl_RunnerRegister D he who q s =
     (case decode_body runner_fields \<lparr>nq_OwnerPubkey = [], nq_Region = [], nq_Latitude = [], nq_Longitude = []\<rparr> (hq_body q) of
        None \<Rightarrow> (s, respondError 400 (EMsg ''invalid request body''))
      | Some req \<Rightarrow>
          (case service_Register (dp_parse_float D) (dp_schema D) (he_db_now he) (GetUserEmail who) (nq_OwnerPubkey req)
                  (nq_Region req) (nq_Latitude req) (nq_Longitude req) (hs_db s) of
             (db', Inl e) \<Rightarrow> (s\<lparr>hs_db := db'\<rparr>, respondError 400 (EService e))
           | (db', Inr resp) \<Rightarrow> (s\<lparr>hs_db := db'\<rparr>, respondJSON 201 (VRunner resp))))"

definition ctrl_Me :: "http_env \<Rightarrow> http_request \<Rightarrow> 's http_state \<Rightarrow> 's http_state \<times> http_response" where
  "ctrl_Me he q s =
     (if hq_pubkey q = [] then (s, respondError 400 (EMsg ''pubkey query param required''))
      else
        (case GetByPubkey (he_up he 0) (hq_pubkey q) (hs_db s) of
           Inl e \<Rightarrow> (s, respondError 404 (EDb e))
         | Inr resp \<Rightarrow> (s, respondJSON 200 (VRunner resp))))"

definition ctrl_Heartbeat :: "http_env \<Rightarrow> http_request \<Rightarrow> 's http_state \<Rightarrow> 's http_state \<times> http_response" where
  "ctrl_Heartbeat he q s =
     (if hq_pubkey q = [] then (s, respondError 400 (EMsg ''pubkey query param required''))
      else
        (case service_Heartbeat (he_now he) (he_exec he) (he_up he 0) (hq_pubkey q) (hs_db s, hs_registry s) of
           ((db', reg'), Inl e) \<Rightarrow> (s\<lparr>hs_db := db', hs_registry := reg'\<rparr>, respondError 500 (EDb e))
         | ((db', reg'), Inr _) \<Rightarrow>
             (s\<lparr>hs_db := db', hs_registry := reg'\<rparr>, respondJSON 200 (VMessage ''heartbeat recorded''))))"

definition ctrl_RewardStatus :: "http_env \<Rightarrow> http_request \<Rightarrow> 's http_state \<Rightarrow> 's http_state \<times> http_response" where
  "ctrl_RewardStatus he q s =
     (if hq_pubkey q = [] then (s, respondError 400 (EMsg ''pubkey query param required''))
      else
        (case GetStatus (he_up he 0) (hq_pubkey q) (hs_db s) of
           Inl e \<Rightarrow> (s, respondError 404 (EReward e))
         | Inr resp \<Rightarrow> (s, respondJSON 200 (VReward resp))))"

text \<open>The response of \<^const>\<open>SubmitResults\<close> among those of the server.\<close>

fun submit_body :: "string body \<Rightarrow> http_body" where
  "submit_body (Value m) = JsonValue (VMessage m)"
| "submit_body (ErrorText m) = JsonError (EMsg m)"
| "submit_body (RateText e) = JsonError (ERate e)"

definition ctrl_SubmitResults ::
  "'s deployment \<Rightarrow> http_env \<Rightarrow> http_request \<Rightarrow> 's http_state \<Rightarrow> 's http_state \<times> http_response" where
  "ctrl_SubmitResults D he q s =
     (case SubmitResults (dp_redis D) (he_submit he) (hq_body q) (hs_rdb s, hs_conn s) of
        ((rdb', c'), r) \<Rightarrow> (s\<lparr>hs_rdb := rdb', hs_conn := c'\<rparr>, respond (rsp_status r) (submit_body (rsp_body r))))"

subsection \<open>transaction.go\<close>

record ValidateRequest =
  vq_Signature :: string
  vq_ExpectedAmount :: u64

definition set_uint :: "(u64 \<Rightarrow> 'r \<Rightarrow> 'r) \<Rightarrow> 'r setter" where
  "set_uint upd v s =
     (case v of JInt i \<Rightarrow> if 0 \<le> i \<and> i < 2 ^ 64 then Some (upd (word_of_int i) s) else None | _ \<Rightarrow> None)"

definition validate_fields :: "ValidateRequest fields" where
  "validate_fields =
     [(''signature'', set_string (\<lambda>x s. s\<lparr>vq_Signature := x\<rparr>)),
      (''expected_amount'', set_uint (\<lambda>x s. s\<lparr>vq_ExpectedAmount := x\<rparr>))]"

definition ctrl_ValidateTransaction ::
  "'s deployment \<Rightarrow> http_env \<Rightarrow> http_request \<Rightarrow> 's http_state \<Rightarrow> 's http_state \<times> http_response" where
  "ctrl_ValidateTransaction D he q s =
     (case decode_body validate_fields \<lparr>vq_Signature = [], vq_ExpectedAmount = 0\<rparr> (hq_body q) of
        None \<Rightarrow> (s, http_Error (EMsg ''Invalid input'') 400)
      | Some req \<Rightarrow>
          (case ValidateOnChainAmount (dp_parse_sig D) (he_rpc he) (vq_Signature req) (vq_ExpectedAmount req) of
             Inl e \<Rightarrow> (s, http_Error (EClient e) 500)
           | Inr isValid \<Rightarrow> (s, respondJSON 200 (VValid isValid (vq_Signature req)))))"

subsection \<open>router.go\<close>

datatype endpoint =
    Health
  | PostRegister | PostLogin
  | PostMonitor | GetMonitors | GetStats string | PutPause string | PutResume string | DeleteMonitor string
  | PostRunner | GetMe | PostHeartbeat
  | PostResults
  | PostTransaction
  | GetRewardStatus

text \<open>The sub-routers; the root of one matches with and without its slash, and a parameter matches any segment.\<close>

definition auth_routes :: "http_method \<Rightarrow> string list \<Rightarrow> endpoint option" where
  "auth_routes m rest =
     (if m = POST \<and> rest = [''register''] then Some PostRegister
      else if m = POST \<and> rest = [''login''] then Some PostLogin else None)"

definition monitor_routes :: "http_method \<Rightarrow> string list \<Rightarrow> endpoint option" where
  "monitor_routes m rest =
     (if rest = [] \<or> rest = [[]] then (case m of POST \<Rightarrow> Some PostMonitor | GET \<Rightarrow> Some GetMonitors | _ \<Rightarrow> None)
      else
        (case rest of
           [i] \<Rightarrow> if m = DELETE then Some (DeleteMonitor i) else None
         | [i, x] \<Rightarrow>
             if m = GET \<and> x = ''stats'' then Some (GetStats i)
             else if m = PUT \<and> x = ''pause'' then Some (PutPause i)
             else if m = PUT \<and> x = ''resume'' then Some (PutResume i) else None
         | _ \<Rightarrow> None))"

definition runner_routes :: "http_method \<Rightarrow> string list \<Rightarrow> endpoint option" where
  "runner_routes m rest =
     (if m = POST \<and> rest = [''register''] then Some PostRunner
      else if m = GET \<and> rest = [''me''] then Some GetMe
      else if m = POST \<and> rest = [''heartbeat''] then Some PostHeartbeat else None)"

definition mount :: "string \<Rightarrow> (http_method \<Rightarrow> string list \<Rightarrow> endpoint option) option" where
  "mount x =
     (if x = ''auth'' then Some auth_routes
      else if x = ''monitors'' then Some monitor_routes
      else if x = ''runner'' then Some runner_routes
      else if x = ''results'' then Some (\<lambda>m rest. if m = POST \<and> (rest = [] \<or> rest = [[]]) then Some PostResults else None)
      else if x = ''validate'' then Some (\<lambda>m rest. if m = POST \<and> rest = [''transaction''] then Some PostTransaction else None)
      else if x = ''rewards'' then Some (\<lambda>m rest. if m = GET \<and> rest = [''status''] then Some GetRewardStatus else None)
      else None)"

definition route :: "http_method \<Rightarrow> string list \<Rightarrow> endpoint option" where
  "route m path =
     (case path of
        [x] \<Rightarrow> if m = GET \<and> x = ''health'' then Some Health else None
      | a # b # x # rest \<Rightarrow>
          if a = ''api'' \<and> b = ''v1'' then (case mount x of None \<Rightarrow> None | Some r \<Rightarrow> r m rest) else None
      | _ \<Rightarrow> None)"

text \<open>The group behind the token: all the sub-routers but one, whether or not a route of theirs matches.\<close>

definition is_protected :: "string list \<Rightarrow> bool" where
  "is_protected path =
     (case path of
        a # b # x # _ \<Rightarrow>
          a = ''api'' \<and> b = ''v1'' \<and> x \<in> set [''monitors'', ''runner'', ''results'', ''validate'', ''rewards'']
      | _ \<Rightarrow> False)"

definition no_route :: "http_request \<Rightarrow> http_response" where
  "no_route q =
     (if list_ex (\<lambda>m. route m (hq_path q) \<noteq> None) [GET, POST, PUT, DELETE]
      then respond 405 NoBody else respond 404 (PlainError (EMsg ''404 page not found'')))"

fun handle_endpoint ::
  "'s deployment \<Rightarrow> http_env \<Rightarrow> identity \<Rightarrow> http_request \<Rightarrow> endpoint \<Rightarrow> 's http_state \<Rightarrow> 's http_state \<times> http_response"
where
  "handle_endpoint D he who q Health s = (s, respond 200 (PlainText ''{\"status\":\"ok\"}''))"
| "handle_endpoint D he who q PostRegister s = ctrl_Register D he q s"
| "handle_endpoint D he who q PostLogin s = ctrl_Login D he q s"
| "handle_endpoint D he who q PostMonitor s = ctrl_Create D he who q s"
| "handle_endpoint D he who q GetMonitors s = ctrl_List he who s"
| "handle_endpoint D he who q (GetStats i) s = ctrl_Stats D he who i s"
| "handle_endpoint D he who q (PutPause i) s = ctrl_Pause D he who i s"
| "handle_endpoint D he who q (PutResume i) s = ctrl_Resume D he who i s"
| "handle_endpoint D he who q (DeleteMonitor i) s = ctrl_Delete D he who i s"
| "handle_endpoint D he who q PostRunner s = ctrl_RunnerRegister D he who q s"
| "handle_endpoint D he who q GetMe s = ctrl_Me he q s"
| "handle_endpoint D he who q PostHeartbeat s = ctrl_Heartbeat he q s"
| "handle_endpoint D he who q PostResults s = ctrl_SubmitResults D he q s"
| "handle_endpoint D he who q PostTransaction s = ctrl_ValidateTransaction D he q s"
| "handle_endpoint D he who q GetRewardStatus s = ctrl_RewardStatus he q s"

definition dispatch_request ::
  "'s deployment \<Rightarrow> http_env \<Rightarrow> identity \<Rightarrow> http_request \<Rightarrow> 's http_state \<Rightarrow> 's http_state \<times> http_response" where
  "dispatch_request D he who q s =
     (case route (hq_method q) (hq_path q) of
        None \<Rightarrow> (s, no_route q)
      | Some e \<Rightarrow> handle_endpoint D he who q e s)"

definition serve ::
  "'s deployment \<Rightarrow> http_env \<Rightarrow> http_request \<Rightarrow> 's http_state \<Rightarrow> 's http_state \<times> http_response" where
  "serve D he q s =
     (if is_protected (hq_path q) then
        (case JWTMiddleware (dp_auth D) (dp_secret D) (he_now he) (hq_authorization q) of
           Unauthorized msg \<Rightarrow> (s, http_Error (EMsg msg) 401)
         | AuthPanic \<Rightarrow> (s, respond 500 NoBody)
         | Caller u e \<Rightarrow> dispatch_request D he (Caller u e) q s)
      else dispatch_request D he (Unauthorized []) q s)"

subsection \<open>Routing facts\<close>

definition open_endpoint :: "endpoint \<Rightarrow> bool" where
  "open_endpoint e \<longleftrightarrow> e \<in> {Health, PostRegister, PostLogin}"

lemma open_endpoint_simps [simp]:
  "open_endpoint Health" "open_endpoint PostRegister" "open_endpoint PostLogin"
  "\<not> open_endpoint PostMonitor" "\<not> open_endpoint GetMonitors" "\<not> open_endpoint (GetStats i)"
  "\<not> open_endpoint (PutPause i)" "\<not> open_endpoint (PutResume i)" "\<not> open_endpoint (DeleteMonitor i)"
  "\<not> open_endpoint PostRunner" "\<not> open_endpoint GetMe" "\<not> open_endpoint PostHeartbeat"
  "\<not> open_endpoint PostResults" "\<not> open_endpoint PostTransaction" "\<not> open_endpoint GetRewardStatus"
  by (simp_all add: open_endpoint_def)

lemma sub_routes:
  "auth_routes m rest = Some e \<Longrightarrow> open_endpoint e"
  "monitor_routes m rest = Some e \<Longrightarrow> \<not> open_endpoint e"
  "runner_routes m rest = Some e \<Longrightarrow> \<not> open_endpoint e"
  by (auto simp: auth_routes_def monitor_routes_def runner_routes_def split: if_splits list.splits http_method.splits)

lemma mount_protected:
  assumes "mount x = Some r" "r m rest = Some e"
  shows "open_endpoint e \<longleftrightarrow> x \<notin> set [''monitors'', ''runner'', ''results'', ''validate'', ''rewards'']"
proof -
  consider "x = ''auth''" "r = auth_routes" | "x = ''monitors''" "r = monitor_routes" | "x = ''runner''" "r = runner_routes"
    | "x = ''results''" "e = PostResults" | "x = ''validate''" "e = PostTransaction" | "x = ''rewards''" "e = GetRewardStatus"
    using assms unfolding mount_def by (auto split: if_splits)
  then show ?thesis using assms(2) sub_routes by cases auto
qed

lemma route_protected:
  assumes "route m path = Some e"
  shows "is_protected path \<longleftrightarrow> \<not> open_endpoint e"
proof -
  from assms consider "path = [''health'']" "e = Health"
    | x rest r where "path = ''api'' # ''v1'' # x # rest" "mount x = Some r" "r m rest = Some e"
    by (auto simp: route_def split: list.splits if_splits option.splits)
  then show ?thesis
  proof cases
    case 1
    then show ?thesis by (simp add: is_protected_def)
  next
    case (2 x rest r)
    have "is_protected path \<longleftrightarrow> x \<in> set [''monitors'', ''runner'', ''results'', ''validate'', ''rewards'']"
      by (simp only: 2(1) is_protected_def list.case simp_thms)
    with mount_protected [OF 2(2,3)] show ?thesis by (simp only: simp_thms)
  qed
qed

lemma JWT_Caller:
  assumes "JWTMiddleware L secret now h = Caller u e"
  obtains tok c x where "h = ''Bearer '' @ tok" "jwt_parse L now (keyfunc secret) tok = Some c"
    "float_claim ''sub'' c = Some x" "u = int_of_float x" "string_claim ''email'' c = Some e"
proof -
  from assms have "has_prefix ''Bearer '' h" by (auto simp: JWTMiddleware_def split: if_splits)
  then have "take (length ''Bearer '') h = ''Bearer ''" by (simp only: has_prefix_def)
  then obtain tok where h: "h = ''Bearer '' @ tok" by (metis append_take_drop_id)
  from assms obtain c x where "jwt_parse L now (keyfunc secret) tok = Some c" "float_claim ''sub'' c = Some x"
    "u = int_of_float x" "string_claim ''email'' c = Some e"
    unfolding JWTMiddleware_def h trim_prefix_append by (auto split: if_splits option.splits)
  with h that show ?thesis by blast
qed

subsection \<open>Properties\<close>

text \<open>What an endpoint may answer with, and the statuses of each kind of body.\<close>

fun answers :: "endpoint \<Rightarrow> response_value \<Rightarrow> bool" where
  "answers e (VAuth _) \<longleftrightarrow> e = PostRegister \<or> e = PostLogin"
| "answers e (VMonitor _) \<longleftrightarrow> e = PostMonitor"
| "answers e (VMonitors _) \<longleftrightarrow> e = GetMonitors"
| "answers e (VStats st) \<longleftrightarrow> e = GetStats (st_MonitorID st)"
| "answers e (VRunner _) \<longleftrightarrow> e = PostRunner \<or> e = GetMe"
| "answers e (VReward _) \<longleftrightarrow> e = GetRewardStatus"
| "answers e (VMessage m) \<longleftrightarrow>
     (case e of PutPause _ \<Rightarrow> m = ''monitor paused'' | PutResume _ \<Rightarrow> m = ''monitor resumed''
      | DeleteMonitor _ \<Rightarrow> m = ''monitor deleted'' | PostHeartbeat \<Rightarrow> m = ''heartbeat recorded''
      | PostResults \<Rightarrow> m = ''results queued'' | _ \<Rightarrow> False)"
| "answers e (VValid b _) \<longleftrightarrow> e = PostTransaction \<and> b"

definition typed_response :: "endpoint option \<Rightarrow> http_response \<Rightarrow> bool" where
  "typed_response e r \<longleftrightarrow>
     (case rsp_body r of
        JsonValue v \<Rightarrow> rsp_status r \<in> {200, 201, 202} \<and> (\<exists>x. e = Some x \<and> answers x v)
      | JsonError _ \<Rightarrow> rsp_status r \<in> {400, 401, 404, 422, 429, 500, 503} \<and> e \<noteq> None
      | PlainError _ \<Rightarrow> rsp_status r \<in> {400, 401, 404, 500}
      | PlainText _ \<Rightarrow> rsp_status r = 200 \<and> e = Some Health
      | NoBody \<Rightarrow> rsp_status r \<in> {405, 500})"


lemma typed_simps [simp]:
  "typed_response e (respond st (JsonValue v)) \<longleftrightarrow> st \<in> {200, 201, 202} \<and> (\<exists>x. e = Some x \<and> answers x v)"
  "typed_response e (respond st (JsonError x)) \<longleftrightarrow> st \<in> {400, 401, 404, 422, 429, 500, 503} \<and> e \<noteq> None"
  "typed_response e (respond st (PlainError x)) \<longleftrightarrow> st \<in> {400, 401, 404, 500}"
  "typed_response e (respond st (PlainText t)) \<longleftrightarrow> st = 200 \<and> e = Some Health"
  "typed_response e (respond st NoBody) \<longleftrightarrow> st \<in> {405, 500}"
  by (auto simp: typed_response_def)












text \<open>The tables, apart from the sequences that a refused \<^verbatim>\<open>INSERT\<close> advances.\<close>

definition same_rows :: "db \<Rightarrow> db \<Rightarrow> bool" where
  "same_rows db db' \<longleftrightarrow> db'\<lparr>t_user_seq := t_user_seq db, t_runner_seq := t_runner_seq db\<rparr> = db"


lemma same_rows_refl [simp]: "same_rows db db"
  by (simp add: same_rows_def)













text \<open>
  C27. Nothing behind the token happens without one: a request to an endpoint other than health, registration and login that
  changes the server's state or succeeds carries a bearer token that the library accepts under the server's
  secret, with a numeric subject and an email.
\<close>
theorem protected_requests_need_token:
  assumes "serve D he q s = (s', r)" "route (hq_method q) (hq_path q) = Some e" "\<not> open_endpoint e"
    and "s' \<noteq> s \<or> rsp_status r < 400"
  shows "\<exists>tok c u m. hq_authorization q = ''Bearer '' @ tok
    \<and> jwt_parse (dp_auth D) (he_now he) (keyfunc (dp_secret D)) tok = Some c
    \<and> string_claim ''email'' c = Some m \<and> map_option int_of_float (float_claim ''sub'' c) = Some u
    \<and> (s', r) = handle_endpoint D he (Caller u m) q e s"
proof -
  have p: "is_protected (hq_path q)" using route_protected [OF assms(2)] assms(3) by simp
  from assms(1,4) obtain u m where c: "JWTMiddleware (dp_auth D) (dp_secret D) (he_now he) (hq_authorization q) = Caller u m"
    "dispatch_request D he (Caller u m) q s = (s', r)"
    by (auto simp: serve_def p split: identity.splits)
  from c(2) have "(s', r) = handle_endpoint D he (Caller u m) q e s" by (simp add: dispatch_request_def assms(2))
  with c(1) show ?thesis by (auto elim!: JWT_Caller)
qed

text \<open>A sample deployment.\<close>

definition demo_deployment :: "ref_state deployment" where
  "demo_deployment = \<lparr>dp_redis = ref_redis, dp_auth = demo_auth_lib, dp_secret = ''key'', dp_credits = 5, dp_schema = schema_sql,
     dp_parse_float = (\<lambda>_. 0), dp_uuid_in = Some, dp_parse_sig = Some\<rparr>"

definition demo_http_env :: http_env where
  "demo_http_env = \<lparr>he_now = 0, he_db_now = 0, he_up = (\<lambda>_. True), he_exec = Delivered, he_del = Delivered, he_zadd = Delivered,
     he_uuid = ''n'', he_auth = demo_auth_env, he_submit = demo_submit, he_rpc = (\<lambda>_. None)\<rparr>"

definition demo_http_state :: "ref_state http_state" where
  "demo_http_state = \<lparr>hs_db = demo_db 3 20 0, hs_rdb = ref_empty, hs_registry = NewMemoryRegistry, hs_conn = \<lparr>opened = 0, sent = []\<rparr>\<rparr>"

definition demo_request :: "http_method \<Rightarrow> string list \<Rightarrow> string \<Rightarrow> json option \<Rightarrow> http_request" where
  "demo_request m p h b = \<lparr>hq_method = m, hq_path = p, hq_authorization = h, hq_pubkey = [], hq_body = b\<rparr>"

lemma demo_caller: "JWTMiddleware demo_auth_lib ''key'' 0 (''Bearer '' @ ''.key'') = Caller 2 ''ann''"
proof -
  have "0 < expiry 0" by (simp add: expiry_def Unix_def)
  with token_accepted [OF demo_auth_laws(1) demo_token [of "''key''"], of 0] show ?thesis by simp
qed

lemma route_monitors [simp]:
  "route POST [''api'', ''v1'', ''monitors''] = Some PostMonitor"
  "route GET [''api'', ''v1'', ''monitors''] = Some GetMonitors"
  "route POST [''api'', ''v1'', ''auth'', ''register''] = Some PostRegister"
  "is_protected [''api'', ''v1'', ''monitors'']" "\<not> is_protected [''api'', ''v1'', ''auth'', ''register'']"
  by (simp_all add: route_def mount_def monitor_routes_def auth_routes_def is_protected_def)

theorem protected_requests_need_token_witness:
  "\<exists>s' r. serve demo_deployment demo_http_env (demo_request GET [''api'', ''v1'', ''monitors''] (''Bearer '' @ ''.key'') None) demo_http_state = (s', r)
     \<and> rsp_status r = 200 \<and> (\<exists>tok. hq_authorization (demo_request GET [''api'', ''v1'', ''monitors''] (''Bearer '' @ ''.key'') None) = ''Bearer '' @ tok)"
proof -
  let ?q = "demo_request GET [''api'', ''v1'', ''monitors''] (''Bearer '' @ ''.key'') None"
  have q: "hq_method ?q = GET" "hq_path ?q = [''api'', ''v1'', ''monitors'']" "hq_authorization ?q = ''Bearer '' @ ''.key''"
    by (simp_all add: demo_request_def)
  have d: "dp_auth demo_deployment = demo_auth_lib" "dp_secret demo_deployment = ''key''" "he_now demo_http_env = 0" "he_up demo_http_env 0"
    by (simp_all add: demo_deployment_def demo_http_env_def)
  have "dispatch_request demo_deployment demo_http_env (Caller 2 ''ann'') ?q demo_http_state =
      (demo_http_state, respondJSON 200 (VMonitors []))"
    unfolding dispatch_request_def q route_monitors option.case handle_endpoint.simps
    by (simp add: ctrl_List_def ListByOwner_def FindByOwner_def d GetUserID_def demo_http_state_def demo_db_def demo_monitor_row_def)
  then have r: "serve demo_deployment demo_http_env ?q demo_http_state = (demo_http_state, respondJSON 200 (VMonitors []))"
    unfolding serve_def q d demo_caller by simp
  have "route (hq_method ?q) (hq_path ?q) = Some GetMonitors" unfolding q by simp
  from protected_requests_need_token [OF r this] r show ?thesis by auto
qed


lemma serve_register:
  "hq_method q = POST \<Longrightarrow> hq_path q = [''api'', ''v1'', ''auth'', ''register''] \<Longrightarrow> serve D he q s = ctrl_Register D he q s"
  unfolding serve_def dispatch_request_def by (simp only: route_monitors if_False option.case handle_endpoint.simps)

lemma serve_monitors:
  assumes "hq_path q = [''api'', ''v1'', ''monitors'']"
    and "JWTMiddleware (dp_auth D) (dp_secret D) (he_now he) (hq_authorization q) = Caller u e"
  shows "hq_method q = POST \<Longrightarrow> serve D he q s = ctrl_Create D he (Caller u e) q s"
    and "hq_method q = GET \<Longrightarrow> serve D he q s = ctrl_List he (Caller u e) s"
  unfolding serve_def dispatch_request_def assms
  by (simp_all only: route_monitors if_True option.case identity.case handle_endpoint.simps)

lemma ctrl_Register_value:
  assumes "ctrl_Register D he q s = (s', r)" "rsp_body r = JsonValue (VAuth resp)"
  shows "\<exists>req db'. user_Register (dp_auth D) (dp_secret D) (dp_credits D) (he_auth he) req (hs_db s) = (db', Inr resp)
    \<and> s' = s\<lparr>hs_db := db'\<rparr>"
proof (cases "decode_body register_fields \<lparr>rq_Email = [], rq_Password = [], rq_WalletPubkey = []\<rparr> (hq_body q)")
  case None
  with assms show ?thesis by (auto simp: ctrl_Register_def)
next
  case (Some req)
  obtain db' x where u: "user_Register (dp_auth D) (dp_secret D) (dp_credits D) (he_auth he) req (hs_db s) = (db', x)" by fastforce
  with assms Some show ?thesis by (intro exI [of _ req] exI [of _ db']; cases x) (auto simp: ctrl_Register_def)
qed

lemma list_shows_own:
  assumes "row \<in> set (t_monitors (hs_db s))" "m_OwnerID row = GetUserID who" "m_deleted_at row = None" "he_up he 0"
  shows "\<exists>ms. ctrl_List he who s = (s, respondJSON 200 (VMonitors ms)) \<and> toMonitorResponse (scan_monitor row) \<in> set ms"
proof -
  let ?ms = "map toMonitorResponse (map scan_monitor (sort_key (\<lambda>m. - m_CreatedAt m)
      (filter (\<lambda>m. m_OwnerID m = GetUserID who \<and> m_deleted_at m = None) (t_monitors (hs_db s)))))"
  have "ctrl_List he who s = (s, respondJSON 200 (VMonitors ?ms))"
    by (simp add: ctrl_List_def ListByOwner_def FindByOwner_def assms(4) del: response_simps)
  moreover have "toMonitorResponse (scan_monitor row) \<in> set ?ms" using assms(1-3) by simp
  ultimately show ?thesis by blast
qed

lemma ctrl_Create_value:
  assumes "ctrl_Create D he who q s = (s', r)" "rsp_body r = JsonValue (VMonitor m)"
  shows "\<exists>req. service_Create (dp_redis D) (he_uuid he) (he_db_now he) (he_del he) (he_zadd he) (GetUserID who) req
      (hs_db s, hs_rdb s) = ((hs_db s', hs_rdb s'), Inr m)"
proof (cases "decode_body create_fields \<lparr>cq_TargetURL = [], cq_IntervalSeconds = 0\<rparr> (hq_body q)")
  case None
  with assms show ?thesis by (auto simp: ctrl_Create_def)
next
  case (Some req)
  obtain db' rdb' x where u: "service_Create (dp_redis D) (he_uuid he) (he_db_now he) (he_del he) (he_zadd he) (GetUserID who) req
      (hs_db s, hs_rdb s) = ((db', rdb'), x)" by (metis prod.exhaust)
  with assms Some show ?thesis by (intro exI [of _ req]; cases x) (auto simp: ctrl_Create_def on_tables_def)
qed

text \<open>
  C28. A new user's monitor runs: whoever registers and then, with the token received, creates a monitor before the token expires,
  owns it; it is due at once unless the request to Redis is lost, and while the token lives it is in the list the user asks for.
\<close>
theorem registered_user_creates_monitor:
  assumes "redis_server (dp_redis D) str zset" "jwt_faithful (dp_auth D)" "\<bar>t_user_seq (hs_db s)\<bar> < 2 ^ 53"
    and register: "hq_method q1 = POST" "hq_path q1 = [''api'', ''v1'', ''auth'', ''register'']" "serve D he1 q1 s = (s1, r1)"
      "rsp_body r1 = JsonValue (VAuth resp)"
    and create: "hq_method q2 = POST" "hq_path q2 = [''api'', ''v1'', ''monitors'']" "hq_authorization q2 = ''Bearer '' @ ar_Token resp"
      "he_now he2 < expiry (ae_exp_clock (he_auth he1))" "he_zadd he2 \<noteq> RequestLost" "serve D he2 q2 s1 = (s2, r2)"
      "rsp_body r2 = JsonValue (VMonitor m)"
    and list: "hq_method q3 = GET" "hq_path q3 = [''api'', ''v1'', ''monitors'']" "hq_authorization q3 = ''Bearer '' @ ar_Token resp"
      "he_now he3 < expiry (ae_exp_clock (he_auth he1))" "he_up he3 0"
  shows "ui_ID (ar_User resp) = t_user_seq (hs_db s)
    \<and> (\<exists>row \<in> set (t_monitors (hs_db s2)). m_ID row = mr_ID m \<and> m_OwnerID row = ui_ID (ar_User resp) \<and> m_IsActive row)
    \<and> zset (hs_rdb s2) due_key (sched_member (mr_ID m)) = Some 0
    \<and> (\<exists>ms. serve D he3 q3 s2 = (s2, respondJSON 200 (VMonitors ms)) \<and> m \<in> set ms)"
proof -
  let ?uid = "t_user_seq (hs_db s)"
  have "ctrl_Register D he1 q1 s = (s1, r1)"
    by (rule trans [OF serve_register [OF register(1,2), symmetric] register(3)])
  from ctrl_Register_value [OF this register(4)] obtain req db1 where reg: "user_Register (dp_auth D) (dp_secret D) (dp_credits D) (he_auth he1) req (hs_db s) = (db1, Inr resp)"
    "s1 = s\<lparr>hs_db := db1\<rparr>"
    by blast
  obtain email tok where tok: "issueToken (dp_auth D) (dp_secret D) (ae_exp_clock (he_auth he1)) (ae_iat_clock (he_auth he1)) ?uid email = Some tok"
    "ar_Token resp = tok" "ui_ID (ar_User resp) = ?uid"
    using reg(1)
  proof (cases rule: user_Register_cases)
    case (registered hash user)
    from registered(2) have "u_ID user = ?uid" by (cases rule: user_Create_cases) auto
    with registered(3) that show ?thesis
      by (auto simp: issue_to_def userInfo_def split: option.splits)
  qed simp
  have caller: "JWTMiddleware (dp_auth D) (dp_secret D) now (''Bearer '' @ ar_Token resp) = Caller ?uid email"
    if "now < expiry (ae_exp_clock (he_auth he1))" for now
    using token_accepted [OF assms(2) tok(1) assms(3)] that by (simp add: tok(2))
  have "JWTMiddleware (dp_auth D) (dp_secret D) (he_now he2) (hq_authorization q2) = Caller ?uid email"
    unfolding create(3) by (rule caller [OF create(4)])
  from serve_monitors(1) [OF create(2) this create(1)] create(6)
  have c: "ctrl_Create D he2 (Caller ?uid email) q2 s1 = (s2, r2)" by simp
  obtain creq where svc: "service_Create (dp_redis D) (he_uuid he2) (he_db_now he2) (he_del he2) (he_zadd he2) ?uid creq (hs_db s1, hs_rdb s1) =
      ((hs_db s2, hs_rdb s2), Inr m)"
    using ctrl_Create_value [OF c create(7)] by (auto simp: GetUserID_def)
  have due: "zset (hs_rdb s2) due_key (sched_member (he_uuid he2)) = Some 0"
    using redis_server.create_scores [OF assms(1) svc] create(5) by simp
  from svc show ?thesis
  proof (rule service_Create_Inr)
    fix row
    assume row: "row = \<lparr>m_ID = he_uuid he2, m_OwnerID = ?uid, m_TargetURL = cq_TargetURL creq,
       m_CheckIntervalSeconds = effective_interval (cq_IntervalSeconds creq), m_TotalSpentTokens = 0,
       m_IsActive = True, m_CreatedAt = he_db_now he2, m_deleted_at = None\<rparr>"
      "hs_db s2 = hs_db s1\<lparr>t_monitors := t_monitors (hs_db s1) @ [row]\<rparr>" "m = toMonitorResponse (scan_monitor row)"
    have id: "mr_ID m = he_uuid he2" by (simp add: row(1,3) toMonitorResponse_def)
    have "JWTMiddleware (dp_auth D) (dp_secret D) (he_now he3) (hq_authorization q3) = Caller ?uid email"
      unfolding list(3) by (rule caller [OF list(4)])
    then have "serve D he3 q3 s2 = ctrl_List he3 (Caller ?uid email) s2"
      by (rule serve_monitors(2) [OF list(2) _ list(1)])
    moreover have "row \<in> set (t_monitors (hs_db s2))" "m_OwnerID row = GetUserID (Caller ?uid email)" "m_deleted_at row = None"
      by (simp_all add: row(1,2) GetUserID_def)
    then have "\<exists>ms. ctrl_List he3 (Caller ?uid email) s2 = (s2, respondJSON 200 (VMonitors ms)) \<and> m \<in> set ms"
      unfolding row(3) using list(5) by (rule list_shows_own)
    moreover have "\<exists>row \<in> set (t_monitors (hs_db s2)). m_ID row = mr_ID m \<and> m_OwnerID row = ui_ID (ar_User resp) \<and> m_IsActive row"
      by (rule bexI [of _ row]) (simp_all add: row(1,2) id tok(3))
    ultimately show ?thesis using due tok(3) by (simp only: id simp_thms)
  qed
qed

lemma demo_register_body:
  "decode_body register_fields \<lparr>rq_Email = [], rq_Password = [], rq_WalletPubkey = []\<rparr>
     (Some (JObj [(''email'', JStr ''ann''), (''password'', JStr ''hunter22''), (''wallet_pubkey'', JStr ''wallet'')])) = Some demo_register"
  by (simp add: decode_body_def decode_struct_def decode_fields_known register_fields_def lower_tag_def demo_register_def
      del: decode_fields.simps(2))

lemma demo_create_body:
  "decode_body create_fields \<lparr>cq_TargetURL = [], cq_IntervalSeconds = 0\<rparr> (Some (JObj [(''target_url'', JStr ''http://y'')])) =
     Some \<lparr>cq_TargetURL = ''http://y'', cq_IntervalSeconds = 0\<rparr>"
  by (simp add: decode_body_def decode_struct_def decode_fields_known create_fields_def lower_tag_def del: decode_fields.simps(2))

theorem registered_user_creates_monitor_witness:
  "\<exists>s1 s2 r1 r2 resp m. serve demo_deployment demo_http_env
       (demo_request POST [''api'', ''v1'', ''auth'', ''register''] []
         (Some (JObj [(''email'', JStr ''ann''), (''password'', JStr ''hunter22''), (''wallet_pubkey'', JStr ''wallet'')]))) demo_http_state = (s1, r1)
     \<and> rsp_body r1 = JsonValue (VAuth resp)
     \<and> serve demo_deployment demo_http_env (demo_request POST [''api'', ''v1'', ''monitors''] (''Bearer '' @ ar_Token resp)
         (Some (JObj [(''target_url'', JStr ''http://y'')]))) s1 = (s2, r2)
     \<and> rsp_body r2 = JsonValue (VMonitor m) \<and> ref_zset (hs_rdb s2) due_key (sched_member (mr_ID m)) = Some 0"
proof -
  let ?q1 = "demo_request POST [''api'', ''v1'', ''auth'', ''register''] []
      (Some (JObj [(''email'', JStr ''ann''), (''password'', JStr ''hunter22''), (''wallet_pubkey'', JStr ''wallet'')]))"
  let ?q2 = "demo_request POST [''api'', ''v1'', ''monitors''] (''Bearer '' @ ''.key'') (Some (JObj [(''target_url'', JStr ''http://y'')]))"
  let ?q3 = "demo_request GET [''api'', ''v1'', ''monitors''] (''Bearer '' @ ''.key'') None"
  let ?resp = "\<lparr>ar_Token = ''.key'', ar_User = \<lparr>ui_ID = 2, ui_Email = ''ann'', ui_WalletPubkey = ''wallet''\<rparr>\<rparr>"
  have q: "hq_method ?q1 = POST" "hq_path ?q1 = [''api'', ''v1'', ''auth'', ''register'']" "hq_method ?q2 = POST"
    "hq_path ?q2 = [''api'', ''v1'', ''monitors'']" "hq_authorization ?q2 = ''Bearer '' @ ar_Token ?resp"
    "hq_method ?q3 = GET" "hq_path ?q3 = [''api'', ''v1'', ''monitors'']" "hq_authorization ?q3 = ''Bearer '' @ ar_Token ?resp"
    by (simp_all add: demo_request_def)
  have b: "hq_body ?q1 = Some (JObj [(''email'', JStr ''ann''), (''password'', JStr ''hunter22''), (''wallet_pubkey'', JStr ''wallet'')])"
    "hq_body ?q2 = Some (JObj [(''target_url'', JStr ''http://y'')])" by (simp_all add: demo_request_def)
  have d: "dp_redis demo_deployment = ref_redis" "dp_auth demo_deployment = demo_auth_lib" "dp_secret demo_deployment = ''key''"
    "dp_credits demo_deployment = 5" "he_now demo_http_env = 0" "he_auth demo_http_env = demo_auth_env" "he_up demo_http_env 0"
    "he_zadd demo_http_env = Delivered" "hs_db demo_http_state = demo_db 3 20 0"
    by (simp_all add: demo_deployment_def demo_http_env_def demo_http_state_def)
  obtain db1 where reg: "user_Register demo_auth_lib ''key'' 5 demo_auth_env demo_register (demo_db 3 20 0) = (db1, Inr ?resp)"
    using demo_registration by blast
  have user: "\<exists>u \<in> set (t_users db1). u_ID u = 2"
    using reg
  proof (cases rule: user_Register_cases)
    case (registered hash user)
    from registered(2) show ?thesis by (cases rule: user_Create_cases) (auto simp: demo_db_def)
  qed simp
  let ?s1 = "demo_http_state\<lparr>hs_db := db1\<rparr>"
  have 1: "serve demo_deployment demo_http_env ?q1 demo_http_state = (?s1, respondJSON 201 (VAuth ?resp))"
    unfolding serve_register [OF q(1,2)] ctrl_Register_def b demo_register_body d option.case reg by simp
  have caller: "JWTMiddleware (dp_auth demo_deployment) (dp_secret demo_deployment) (he_now demo_http_env) (hq_authorization ?q2) = Caller 2 ''ann''"
    using demo_caller by (simp only: d q(5) AuthResponse.select_convs)
  have "\<exists>s2 m. ctrl_Create demo_deployment demo_http_env (Caller 2 ''ann'') ?q2 ?s1 = (s2, respondJSON 201 (VMonitor m))"
    unfolding ctrl_Create_def b demo_create_body d option.case
    using user by (simp add: on_tables_def service_Create_def monitor_Create_def int4_def list_ex_iff GetUserID_def Let_def) blast
  then obtain s2 m where "ctrl_Create demo_deployment demo_http_env (Caller 2 ''ann'') ?q2 ?s1 = (s2, respondJSON 201 (VMonitor m))"
    by blast
  then have 2: "serve demo_deployment demo_http_env ?q2 ?s1 = (s2, respondJSON 201 (VMonitor m))"
    using serve_monitors(1) [OF q(4) caller q(3)] by (rule trans [rotated])
  have e: "he_now demo_http_env < expiry (ae_exp_clock (he_auth demo_http_env))"
    by (simp add: d demo_auth_env_def expiry_def Unix_def)
  have "ref_zset (hs_rdb s2) due_key (sched_member (mr_ID m)) = Some 0"
    using registered_user_creates_monitor [where D = demo_deployment and str = strings and zset = ref_zset,
        OF _ _ _ q(1,2) 1 _ q(3-5) e _ 2 _ q(6-8) e d(7), of m]
    by (simp add: d ref_server demo_auth_laws demo_db_def)
  with 1 2 show ?thesis
    by (intro exI conjI) (assumption | simp)+
qed

end
