(* ===== verification/Partitions.thy ===== *)
theory Partitions
  imports PingLogs
begin

text \<open>
  Partition maintenance, \<^verbatim>\<open>workers/partition_cron.go\<close>: \<^verbatim>\<open>ensurePartitions\<close> and \<^verbatim>\<open>nextMonday\<close>, with the parts of Go's
  \<^verbatim>\<open>time\<close> package they use, in UTC. A date literal of the generated SQL is the midnight it names, the
  column being a \<^verbatim>\<open>TIMESTAMP\<close> without zone.
\<close>

subsection \<open>Calendar\<close>

abbreviation day :: duration where "day \<equiv> 86400000000000"

text \<open>\<^verbatim>\<open>Weekday\<close>, Sunday being 0: the first of January 1970 was a Thursday.\<close>

definition Weekday :: "instant \<Rightarrow> int" where
  "Weekday t = (t div day + 4) mod 7"

text \<open>The weekday as both functions use it, Sunday being 7, and \<^verbatim>\<open>Truncate(24 * time.Hour)\<close>.\<close>

definition iso_weekday :: "instant \<Rightarrow> int" where
  "iso_weekday t = (if Weekday t = 0 then 7 else Weekday t)"

definition truncate_day :: "instant \<Rightarrow> instant" where
  "truncate_day t = t div day * day"

text \<open>
  Years since year 1 and the day of that year, both from 0, of a day counted from the first of January of year 1: the cycles
  of 400, 100, 4 years and 1 year.
\<close>

definition year_day :: "int \<Rightarrow> int \<times> int" where
  "year_day d =
     (let n400 = d div 146097; d1 = d mod 146097;
          n100 = min (d1 div 36524) 3; d2 = d1 - n100 * 36524;
          n4 = d2 div 1461; d3 = d2 mod 1461;
          n1 = min (d3 div 365) 3
      in (400 * n400 + 100 * n100 + 4 * n4 + n1, d3 - n1 * 365))"

text \<open>\<^verbatim>\<open>ISOWeek\<close>: the year and the week that hold the Thursday of the week.\<close>

definition ISOWeek :: "instant \<Rightarrow> int \<times> int" where
  "ISOWeek t =
     (let (y, yday) = year_day (t div day + 719162 + 4 - iso_weekday t) in (y + 1, yday div 7 + 1))"

subsection \<open>Partitions\<close>

record partitioned =
  pt_parts :: "(string \<times> instant \<times> instant) list"
  pt_indexes :: "string list"

definition pad2 :: "int \<Rightarrow> string" where
  "pad2 i = (if 0 \<le> i \<and> i < 10 then ''0'' @ show_int i else show_int i)"

definition tableName :: "instant \<Rightarrow> string" where
  "tableName from = (let (year, week) = ISOWeek from in ''ping_logs_'' @ show_int year @ ''_w'' @ pad2 week)"

text \<open>
  \<^verbatim>\<open>CREATE TABLE IF NOT EXISTS ... PARTITION OF\<close> does nothing if the name is taken and fails if the range
  overlaps another partition's.
\<close>

definition create_partition ::
  "string \<Rightarrow> instant \<Rightarrow> instant \<Rightarrow> partitioned \<Rightarrow> partitioned option" where
  "create_partition name a b s =
     (if name \<in> set (map fst (pt_parts s)) then Some s
      else if list_ex (\<lambda>(_, a', b'). a < b' \<and> a' < b) (pt_parts s) then None
      else Some (s\<lparr>pt_parts := pt_parts s @ [(name, a, b)]\<rparr>))"

definition create_index :: "string \<Rightarrow> partitioned \<Rightarrow> partitioned" where
  "create_index i s = (if i \<in> set (pt_indexes s) then s else s\<lparr>pt_indexes := pt_indexes s @ [i]\<rparr>)"

text \<open>One week of the loop, then the loop over the next \<open>n\<close> weeks from \<open>from\<close>; \<open>False\<close> is an error.\<close>

definition ensure_week :: "fate \<times> fate \<Rightarrow> instant \<Rightarrow> partitioned \<Rightarrow> partitioned \<times> bool" where
  "ensure_week f from s =
     (let name = tableName from
      in if fst f = RequestLost then (s, False)
         else
           (case create_partition name from (from + 7 * day) s of
              None \<Rightarrow> (s, False)
            | Some s1 \<Rightarrow>
                if fst f = ReplyLost \<or> snd f = RequestLost then (s1, False)
                else (create_index (''idx_'' @ name @ ''_monitor_ts'') s1, snd f = Delivered)))"

fun ensure_weeks :: "(fate \<times> fate) list \<Rightarrow> nat \<Rightarrow> instant \<Rightarrow> partitioned \<Rightarrow> partitioned \<times> bool" where
  "ensure_weeks fs 0 from s = (s, True)"
| "ensure_weeks [] (Suc n) from s = (s, False)"
| "ensure_weeks (f # fs) (Suc n) from s =
     (case ensure_week f from s of
        (s', False) \<Rightarrow> (s', False)
      | (s', True) \<Rightarrow> ensure_weeks fs n (from + 7 * day) s')"

definition monday_of :: "instant \<Rightarrow> instant" where
  "monday_of now = truncate_day (now - (iso_weekday now - 1) * day)"

definition ensurePartitions :: "(fate \<times> fate) list \<Rightarrow> instant \<Rightarrow> nat \<Rightarrow> partitioned \<Rightarrow> partitioned \<times> bool" where
  "ensurePartitions fs now weeksAhead s = ensure_weeks fs weeksAhead (monday_of now) s"

definition nextMonday :: "instant \<Rightarrow> instant" where
  "nextMonday now =
     (let d = (8 - iso_weekday now) mod 7;
          daysUntilMonday = (if d = 0 then 7 else d)
      in truncate_day (now + daysUntilMonday * day) + 5 * minute)"

subsection \<open>Calendar facts\<close>

definition week_start :: "instant \<Rightarrow> bool" where
  "week_start t \<longleftrightarrow> t mod day = 0 \<and> Weekday t = 1"

lemma Weekday_range: "0 \<le> Weekday t" "Weekday t < 7"
  by (simp_all add: Weekday_def)

lemma iso_weekday_range: "1 \<le> iso_weekday t" "iso_weekday t \<le> 7"
  using Weekday_range [of t] by (auto simp: iso_weekday_def)

lemma day_div_add [simp]: "(t + k * day) div day = t div day + k" "(t - k * day) div day = t div day - k"
  using div_mult_self1 [of day t k] div_mult_self1 [of day t "- k"] by (simp_all add: algebra_simps)

lemma truncate_day_bounds: "truncate_day t \<le> t" "t < truncate_day t + day"
  unfolding truncate_day_def by (presburger)+

lemma monday_of_start: "week_start (monday_of t)"
proof -
  let ?d = "t div day"
  have m: "monday_of t = (?d - (iso_weekday t - 1)) * day"
    by (simp only: monday_of_def truncate_day_def day_div_add)
  have "(d - ((if (d + 4) mod 7 = 0 then 7 else (d + 4) mod 7) - 1) + 4) mod 7 = 1" for d :: int
    by presburger
  from this [of ?d] have "(?d - (iso_weekday t - 1) + 4) mod 7 = 1"
    unfolding iso_weekday_def Weekday_def .
  moreover have "k * day div day = k" for k by simp
  ultimately show ?thesis unfolding m week_start_def Weekday_def by simp
qed

lemma monday_of_bounds: "monday_of t \<le> t" "t < monday_of t + 7 * day"
proof -
  have m: "monday_of t = truncate_day t - (iso_weekday t - 1) * day"
    unfolding monday_of_def truncate_day_def day_div_add by (simp only: left_diff_distrib)
  show "monday_of t \<le> t" "t < monday_of t + 7 * day"
    using truncate_day_bounds [of t] iso_weekday_range [of t] unfolding m by auto
qed

lemma week_start_iff: "week_start t \<longleftrightarrow> (\<exists>k. t = (7 * k + 4) * day)"
proof
  assume w: "week_start t"
  then have t: "t = t div day * day" by (auto simp: week_start_def)
  have "(t div day + 4) mod 7 = 1" using w by (simp add: week_start_def Weekday_def)
  moreover have "\<exists>k. x = 7 * k + 4" if "(x + 4) mod 7 = 1" for x :: int
    using that by presburger
  ultimately obtain k where k: "t div day = 7 * k + 4" by blast
  note t
  also have "t div day * day = (7 * k + 4) * day" by (simp only: k)
  finally show "\<exists>k. t = (7 * k + 4) * day" ..
next
  assume "\<exists>k. t = (7 * k + 4) * day"
  then obtain k where t: "t = (7 * k + 4) * day" ..
  have "t div day = 7 * k + 4" "t mod day = 0" unfolding t by simp_all
  moreover have "(7 * k + 4 + 4) mod 7 = 1" by presburger
  ultimately show "week_start t" by (simp only: week_start_def Weekday_def simp_thms)
qed

lemma week_start_next: "week_start t \<Longrightarrow> week_start (t + 7 * day)"
proof -
  assume "week_start t"
  then obtain k where "t = (7 * k + 4) * day" by (auto simp only: week_start_iff)
  then have "t + 7 * day = (7 * (k + 1) + 4) * day" by simp
  then show ?thesis unfolding week_start_iff by blast
qed

text \<open>Two starts of weeks are equal or at least a week apart.\<close>

lemma week_starts_apart:
  assumes "week_start a" "week_start b" "a < b + 7 * day" "b < a + 7 * day"
  shows "a = b"
proof -
  obtain k j where kj: "a = (7 * k + 4) * day" "b = (7 * j + 4) * day"
    using assms(1,2) by (auto simp only: week_start_iff)
  have "k < j + 1" using assms(3) by (simp add: kj)
  moreover have "j < k + 1" using assms(4) by (simp add: kj)
  ultimately show ?thesis using kj by simp
qed

text \<open>The day of the year and the year give the day.\<close>

definition days_before :: "int \<Rightarrow> int" where
  "days_before y = 365 * y + y div 4 - y div 100 + y div 400"

lemma year_day_sum: "year_day d = (y, k) \<Longrightarrow> d = days_before y + k \<and> 0 \<le> k"
proof -
  assume e: "year_day d = (y, k)"
  define n400 d1 where "n400 = d div 146097" and "d1 = d mod 146097"
  define n100 where "n100 = min (d1 div 36524) 3"
  define d2 where "d2 = d1 - n100 * 36524"
  define n4 d3 where "n4 = d2 div 1461" and "d3 = d2 mod 1461"
  define n1 where "n1 = min (d3 div 365) 3"
  have "year_day d = (400 * n400 + 100 * n100 + 4 * n4 + n1, d3 - n1 * 365)"
    by (simp only: year_day_def Let_def n400_def d1_def n100_def d2_def n4_def d3_def n1_def)
  with e have y: "y = 400 * n400 + 100 * n100 + 4 * n4 + n1" and k: "k = d3 - n1 * 365" by simp_all
  have d1: "0 \<le> d1" "d1 < 146097" by (simp_all add: d1_def)
  have n100: "0 \<le> n100" "n100 \<le> 3" using d1 by (auto simp: n100_def)
  have d2: "0 \<le> d2 \<and> d2 \<le> 36524"
  proof (cases "d1 div 36524 \<le> 3")
    case True
    then have "d2 = d1 mod 36524" by (simp add: d2_def n100_def minus_div_mult_eq_mod)
    then show ?thesis using pos_mod_bound [of 36524 d1] pos_mod_sign [of 36524 d1] by simp
  next
    case False
    then have "4 * 36524 \<le> d1" by linarith
    with d1 False show ?thesis by (simp add: d2_def n100_def)
  qed
  have n4: "0 \<le> n4" "n4 \<le> 24" using d2 unfolding n4_def by linarith+
  have d3: "0 \<le> d3" "d3 < 1461" by (simp_all add: d3_def)
  have n1: "0 \<le> n1" "n1 \<le> 3" using d3 by (auto simp: n1_def)
  have "y div 4 = 100 * n400 + 25 * n100 + n4"
    by (rule int_div_pos_eq [where r = n1]) (use n1 y in auto)
  moreover have "y div 100 = 4 * n400 + n100"
    by (rule int_div_pos_eq [where r = "4 * n4 + n1"]) (use n1 n4 y in auto)
  moreover have "y div 400 = n400"
    by (rule int_div_pos_eq [where r = "100 * n100 + 4 * n4 + n1"]) (use n1 n4 n100 y in auto)
  moreover have "d = 146097 * n400 + d1" "d2 = 1461 * n4 + d3"
    by (simp_all add: n400_def d1_def n4_def d3_def)
  ultimately have "d = days_before y + k"
    by (simp only: days_before_def k) (simp add: y d2_def)
  moreover have "n1 \<le> d3 div 365" by (simp add: n1_def)
  then have "0 \<le> k" unfolding k by linarith
  ultimately show ?thesis by (rule conjI)
qed

text \<open>Each week has its own name.\<close>

lemma ISOWeek_inject:
  assumes "week_start a" "week_start b" "ISOWeek a = ISOWeek b"
  shows "a = b"
proof -
  have w: "iso_weekday a = 1" "iso_weekday b = 1"
    using assms(1,2) by (simp_all add: week_start_def iso_weekday_def)
  obtain y j z k where yd: "year_day (719165 + a div day) = (y, j)" "year_day (719165 + b div day) = (z, k)"
    by fastforce
  with assms(3) w have "y = z" "j div 7 = k div 7" by (simp_all add: ISOWeek_def)
  then have "a div day - b div day = j - k" "j - k < 7" "k - j < 7"
    using year_day_sum [OF yd(1)] year_day_sum [OF yd(2)] by (simp, linarith+)
  moreover have "a = a div day * day" "b = b div day * day"
    using assms(1,2) by (auto simp: week_start_def)
  ultimately have "a < b + 7 * day" "b < a + 7 * day" by linarith+
  with assms(1,2) show ?thesis by (rule week_starts_apart)
qed

lemma show_int_nat: "0 \<le> i \<Longrightarrow> show_int i = digits_of (nat i)"
  by (simp add: show_int_def)

lemma digits_of_not_underscore: "CHR ''_'' \<notin> set (digits_of n)"
  using digits_of_chars by fastforce

lemma show_int_not_underscore: "CHR ''_'' \<notin> set (show_int i)"
  using digits_of_not_underscore by (auto simp: show_int_def)

lemma pad2_inject:
  assumes "0 \<le> i" "0 \<le> j" "pad2 i = pad2 j"
  shows "i = j"
proof -
  have v: "value_of 0 (pad2 k) = nat k" if "0 \<le> k" for k
    using that by (simp add: pad2_def show_int_nat)
  from v [OF assms(1)] v [OF assms(2)] assms show ?thesis by simp
qed

lemma append_sep_inject:
  "c \<notin> set a \<Longrightarrow> c \<notin> set b \<Longrightarrow> a @ c # x = b @ c # y \<longleftrightarrow> a = b \<and> x = y"
proof (induction a arbitrary: b)
  case Nil
  then show ?case by (cases b) auto
next
  case (Cons d a)
  then show ?case by (cases b) auto
qed

lemma tableName_inject:
  assumes "week_start a" "week_start b" "tableName a = tableName b"
  shows "a = b"
proof -
  obtain y k where a: "ISOWeek a = (y, k)" by fastforce
  obtain z j where b: "ISOWeek b = (z, j)" by fastforce
  have pos: "0 \<le> snd (ISOWeek t)" for t
    using year_day_sum by (auto simp: ISOWeek_def pos_imp_zdiv_nonneg_iff split: prod.splits)
  have "show_int y @ CHR ''_'' # ''w'' @ pad2 k = show_int z @ CHR ''_'' # ''w'' @ pad2 j"
    using assms(3) by (simp add: tableName_def a b)
  then have "show_int y = show_int z" "pad2 k = pad2 j"
    using append_sep_inject [OF show_int_not_underscore show_int_not_underscore] by simp_all
  then have "y = z" "k = j"
    using pad2_inject pos [of a] pos [of b] a b by simp_all
  with a b ISOWeek_inject [OF assms(1,2)] show ?thesis by simp
qed

subsection \<open>Weekly partitions\<close>

text \<open>Every partition is a week under its own name, as \<^verbatim>\<open>schema.sql\<close> and the worker create them.\<close>

definition aligned :: "partitioned \<Rightarrow> bool" where
  "aligned s \<longleftrightarrow> (\<forall>(n, a, b) \<in> set (pt_parts s). week_start a \<and> n = tableName a \<and> b = a + 7 * day)"

abbreviation ranges :: "partitioned \<Rightarrow> (instant \<times> instant) list" where
  "ranges s \<equiv> map snd (pt_parts s)"

lemma create_partition_week:
  assumes "aligned s" "week_start from"
  obtains s' where "create_partition (tableName from) from (from + 7 * day) s = Some s'" "aligned s'"
    "set (ranges s') = insert (from, from + 7 * day) (set (ranges s))"
proof (cases "tableName from \<in> set (map fst (pt_parts s))")
  case True
  then obtain a b where p: "(tableName from, a, b) \<in> set (pt_parts s)" by auto
  with assms(1) have "week_start a" "tableName a = tableName from" "b = a + 7 * day"
    by (auto simp: aligned_def)
  with assms(2) have "a = from" using tableName_inject by blast
  with p \<open>b = a + 7 * day\<close> have "(from, from + 7 * day) \<in> set (ranges s)" by force
  moreover have "create_partition (tableName from) from (from + 7 * day) s = Some s"
    using True by (simp only: create_partition_def if_True)
  ultimately show ?thesis using that assms(1) by (metis insert_absorb)
next
  case False
  have "\<not> list_ex (\<lambda>(_, a', b'). from < b' \<and> a' < from + 7 * day) (pt_parts s)"
  proof
    assume "list_ex (\<lambda>(_, a', b'). from < b' \<and> a' < from + 7 * day) (pt_parts s)"
    then obtain n a b where p: "(n, a, b) \<in> set (pt_parts s)" "from < b" "a < from + 7 * day"
      by (auto simp: list_ex_iff)
    with assms(1) have a: "week_start a" "n = tableName a" "b = a + 7 * day"
      by (auto simp: aligned_def)
    with assms(2) p have "from = a" by (intro week_starts_apart) simp_all
    with a p(1) False show False by force
  qed
  with False have "create_partition (tableName from) from (from + 7 * day) s =
      Some (s\<lparr>pt_parts := pt_parts s @ [(tableName from, from, from + 7 * day)]\<rparr>)"
    by (simp only: create_partition_def if_False)
  moreover have "aligned (s\<lparr>pt_parts := pt_parts s @ [(tableName from, from, from + 7 * day)]\<rparr>)"
    using assms by (auto simp: aligned_def)
  ultimately show ?thesis using that by simp
qed

lemma create_index_parts [simp]: "pt_parts (create_index i s) = pt_parts s"
  by (simp add: create_index_def)

lemma aligned_create_index [simp]: "aligned (create_index i s) = aligned s"
  by (simp add: aligned_def)

lemma ensure_week_cases:
  assumes "aligned s" "week_start from" "ensure_week f from s = (s', ok)"
  shows "aligned s'" and "set (ranges s) \<subseteq> set (ranges s')"
    and "ok \<Longrightarrow> (from, from + 7 * day) \<in> set (ranges s')"
    and "f = (Delivered, Delivered) \<Longrightarrow> ok"
proof -
  obtain s1 where c: "create_partition (tableName from) from (from + 7 * day) s = Some s1" "aligned s1"
      "set (ranges s1) = insert (from, from + 7 * day) (set (ranges s))"
    using assms(1,2) by (rule create_partition_week)
  from assms(3) c(1) consider "s' = s" "\<not> ok" "fst f = RequestLost" | "s' = s1" "\<not> ok" "f \<noteq> (Delivered, Delivered)"
    | i where "s' = create_index i s1" "ok = (snd f = Delivered)" "fst f = Delivered"
    unfolding ensure_week_def by (cases f; cases "fst f"; cases "snd f") (auto simp: Let_def)
  note cases = this
  show "aligned s'" using cases c(2) assms(1) by cases simp_all
  show "set (ranges s) \<subseteq> set (ranges s')" using cases c(3) by cases auto
  show "ok \<Longrightarrow> (from, from + 7 * day) \<in> set (ranges s')" using cases c(3) by cases simp_all
  show "f = (Delivered, Delivered) \<Longrightarrow> ok" using cases by cases simp_all
qed

text \<open>Whatever the failures, the partitions stay aligned and none is lost.\<close>

lemma ensure_weeks_cases:
  assumes "aligned s" "week_start st" "ensure_weeks fs n st s = (s', ok)"
  shows "aligned s' \<and> set (ranges s) \<subseteq> set (ranges s')
    \<and> (ok \<longrightarrow> (\<forall>i < n. (st + int i * (7 * day), st + int i * (7 * day) + 7 * day) \<in> set (ranges s')))
    \<and> (length fs = n \<and> set fs \<subseteq> {(Delivered, Delivered)} \<longrightarrow> ok)"
  using assms
proof (induction fs n st s rule: ensure_weeks.induct)
  case (3 f fs n st s)
  obtain s1 ok1 where e: "ensure_week f st s = (s1, ok1)" by fastforce
  note w = ensure_week_cases [OF "3.prems"(1,2) e]
  show ?case
  proof (cases ok1)
    case False
    with e "3.prems"(3) w show ?thesis by auto
  next
    case True
    with e "3.prems"(3) have rest: "ensure_weeks fs n (st + 7 * day) s1 = (s', ok)" by simp
    note ih = "3.IH" [OF e [symmetric] _ w(1) week_start_next [OF "3.prems"(2)] rest]
    from ih True have ih: "aligned s' \<and> set (ranges s1) \<subseteq> set (ranges s')"
      "ok \<Longrightarrow> i < n \<Longrightarrow> (st + 7 * day + int i * (7 * day), st + 7 * day + int i * (7 * day) + 7 * day) \<in> set (ranges s')"
      "length fs = n \<and> set fs \<subseteq> {(Delivered, Delivered)} \<longrightarrow> ok" for i by simp_all
    have "(st + int i * (7 * day), st + int i * (7 * day) + 7 * day) \<in> set (ranges s')"
      if "ok" "i < Suc n" for i
    proof (cases i)
      case 0
      with w(3) True ih(1) show ?thesis by auto
    next
      case (Suc j)
      with that ih(2) [of j] show ?thesis by (simp add: algebra_simps)
    qed
    moreover have "aligned s'" "set (ranges s) \<subseteq> set (ranges s')" using ih(1) w(2) by blast+
    moreover have "length (f # fs) = Suc n \<and> set (f # fs) \<subseteq> {(Delivered, Delivered)} \<longrightarrow> ok"
      using ih(3) by (simp del: insert_subset subset_singleton_iff) blast
    ultimately show ?thesis by blast
  qed
qed auto

lemma in_partition_ranges: "(a, b) \<in> set (ranges s) \<Longrightarrow> a \<le> t \<Longrightarrow> t < b \<Longrightarrow> in_partition (ranges s) t"
  unfolding in_partition_def list_ex_iff by (rule bexI [of _ "(a, b)"]) simp_all

lemma in_partition_mono: "set p \<subseteq> set q \<Longrightarrow> in_partition p t \<Longrightarrow> in_partition q t"
  unfolding in_partition_def list_ex_iff by blast

lemma weeks_covered:
  assumes "\<forall>i < n. (m + int i * (7 * day), m + int i * (7 * day) + 7 * day) \<in> set (ranges s)"
    and "m \<le> t" "t < m + int n * (7 * day)"
  shows "in_partition (ranges s) t"
proof -
  define w :: int where "w = 7 * day"
  define i where "i = (t - m) div w"
  have w: "0 < w" by (simp add: w_def)
  have t: "t - m = i * w + (t - m) mod w" by (simp add: i_def)
  have r: "0 \<le> (t - m) mod w" "(t - m) mod w < w" using w by simp_all
  have i0: "0 \<le> i" using assms(2) w by (simp add: i_def pos_imp_zdiv_nonneg_iff)
  have "i * w < int n * w" using t r(1) assms(3) unfolding w_def [symmetric] by linarith
  then have "i < int n" using w by simp
  with i0 have "nat i < n" by linarith
  with assms(1) have "(m + int (nat i) * w, m + int (nat i) * w + w) \<in> set (ranges s)"
    unfolding w_def by blast
  with i0 have "(m + i * w, m + i * w + w) \<in> set (ranges s)" by simp
  then show ?thesis by (rule in_partition_ranges) (use t r in linarith)+
qed

lemma ensurePartitions_cases:
  assumes "aligned s" "ensurePartitions fs now n s = (s', ok)"
  shows "aligned s'" "set (ranges s) \<subseteq> set (ranges s')"
    and "ok \<Longrightarrow> monday_of now \<le> t \<Longrightarrow> t < monday_of now + int n * (7 * day) \<Longrightarrow> in_partition (ranges s') t"
    and "fs = replicate n (Delivered, Delivered) \<Longrightarrow> ok"
  using ensure_weeks_cases [OF assms(1) monday_of_start assms(2) [unfolded ensurePartitions_def]]
    weeks_covered by (auto simp: set_replicate_conv_if)

text \<open>The cron worker: each run is some time late, and has its own failures.\<close>

fun cron :: "(duration \<times> (fate \<times> fate) list) list \<Rightarrow> instant \<Rightarrow> partitioned \<Rightarrow> instant \<times> partitioned" where
  "cron [] t s = (t, s)"
| "cron ((late, fs) # runs) t s =
     (let t' = nextMonday t + late in cron runs t' (fst (ensurePartitions fs t' 4 s)))"

lemma nextMonday_monday: "nextMonday t = monday_of t + 7 * day + 5 * minute"
proof -
  have "(let d = (8 - w) mod 7 in if d = 0 then 7 else d) = 8 - w" if "1 \<le> w" "w \<le> 7" for w :: int
    using that by (cases "w = 1"; simp add: Let_def)
  from this [OF iso_weekday_range] have "nextMonday t = truncate_day (t + (8 - iso_weekday t) * day) + 5 * minute"
    unfolding nextMonday_def Let_def by simp
  also have "truncate_day (t + (8 - iso_weekday t) * day) = monday_of t + 7 * day"
    unfolding monday_of_def truncate_day_def day_div_add by (simp add: algebra_simps)
  finally show ?thesis .
qed

lemma monday_of_unique:
  assumes "week_start m" "m \<le> t" "t < m + 7 * day"
  shows "monday_of t = m"
  using monday_of_bounds [of t] assms by (intro week_starts_apart monday_of_start) linarith+

lemma cron_cases:
  assumes "aligned s" "\<forall>r \<in> set runs. 0 \<le> fst r \<and> fst r \<le> day" "cron runs t s = (t', s')"
  shows "aligned s'" "set (ranges s) \<subseteq> set (ranges s')"
    and "monday_of t' = monday_of t + int (length runs) * (7 * day)"
proof -
  have "aligned s' \<and> set (ranges s) \<subseteq> set (ranges s')
    \<and> monday_of t' = monday_of t + int (length runs) * (7 * day)"
    using assms
  proof (induction runs t s rule: cron.induct)
    case (2 late fs runs t s)
    define u where "u = nextMonday t + late"
    obtain s1 ok where e: "ensurePartitions fs u 4 s = (s1, ok)" by fastforce
    have "monday_of u = monday_of t + 7 * day"
      by (rule monday_of_unique [OF week_start_next [OF monday_of_start]])
        (use "2.prems"(2) in \<open>simp_all add: u_def nextMonday_monday\<close>)
    moreover have "cron runs u s1 = (t', s')" using "2.prems"(3) e by (simp add: u_def Let_def)
    ultimately show ?case
      using "2.IH" [OF u_def, unfolded e fst_conv] "2.prems"(2) ensurePartitions_cases(1,2) [OF "2.prems"(1) e]
      by (auto simp: algebra_simps)
  qed simp
  then show "aligned s'" "set (ranges s) \<subseteq> set (ranges s')"
    "monday_of t' = monday_of t + int (length runs) * (7 * day)" by blast+
qed

subsection \<open>What the worker guarantees\<close>

text \<open>The four partitions that \<^verbatim>\<open>schema.sql\<close> creates, from Monday 19 May 2025.\<close>

definition schema_partitions :: partitioned where
  "schema_partitions = \<lparr>
     pt_parts =
       [(''ping_logs_2025_w21'', 1747612800 * second, 1748217600 * second),
        (''ping_logs_2025_w22'', 1748217600 * second, 1748822400 * second),
        (''ping_logs_2025_w23'', 1748822400 * second, 1749427200 * second),
        (''ping_logs_2025_w24'', 1749427200 * second, 1750032000 * second)],
     pt_indexes = []\<rparr>"

lemma schema_partitions_aligned: "aligned schema_partitions"
proof -
  have "tableName (1747612800 * second) = ''ping_logs_2025_w21''"
    "tableName (1748217600 * second) = ''ping_logs_2025_w22''"
    "tableName (1748822400 * second) = ''ping_logs_2025_w23''"
    "tableName (1749427200 * second) = ''ping_logs_2025_w24''"
    by code_simp+
  then show ?thesis
    by (simp add: aligned_def schema_partitions_def week_start_def Weekday_def)
qed

text \<open>
  C24. Weekly partitions: from any set of partitions that are whole weeks under their own names,
  \<^verbatim>\<open>ensurePartitions\<close> never meets a range that overlaps another: with its requests delivered it
  succeeds, and then every instant from the Monday of this week to four weeks later can be inserted.
  Whatever request fails, the partitions stay whole weeks under their own names and none is lost.
\<close>
theorem partitions_ensured:
  assumes "aligned s" "ensurePartitions fs now n s = (s', ok)"
  shows "aligned s' \<and> set (ranges s) \<subseteq> set (ranges s')
    \<and> (fs = replicate n (Delivered, Delivered) \<longrightarrow> ok)
    \<and> (ok \<longrightarrow> (\<forall>t. monday_of now \<le> t \<and> t < monday_of now + int n * (7 * day) \<longrightarrow> in_partition (ranges s') t))"
  using ensurePartitions_cases [OF assms] by blast

definition demo_now :: instant where
  "demo_now = 1749600000 * second"

lemma demo_monday: "monday_of demo_now = 1749427200 * second"
  by code_simp

theorem partitions_ensured_witness:
  "aligned (fst (ensurePartitions (replicate 4 (Delivered, Delivered)) demo_now 4 schema_partitions))
   \<and> snd (ensurePartitions (replicate 4 (Delivered, Delivered)) demo_now 4 schema_partitions)
   \<and> in_partition (ranges (fst (ensurePartitions (replicate 4 (Delivered, Delivered)) demo_now 4 schema_partitions)))
       (1751846399 * second)"
  using partitions_ensured [OF schema_partitions_aligned prod.collapse [symmetric],
      of "replicate 4 (Delivered, Delivered)" demo_now 4]
  by (simp only: demo_monday) simp

text \<open>
  C34. The worker tolerates failures: after a run that succeeded, the next two runs may fail in
  any way and every run may be up to a day late; until the third run there is a partition for
  the current instant.
\<close>
theorem cron_tolerates_two_failures:
  assumes "aligned s" "ensurePartitions fs t 4 s = (s0, True)"
    and "length runs \<le> 2" "\<forall>r \<in> set runs. 0 \<le> fst r \<and> fst r \<le> day"
    and "cron runs t s0 = (t', s')"
    and "t' \<le> u" "u \<le> nextMonday t' + day"
  shows "in_partition (ranges s') u"
proof -
  note e = ensurePartitions_cases [OF assms(1,2)]
  note c = cron_cases [OF e(1) assms(4,5)]
  have "monday_of t \<le> monday_of t'" unfolding c(3) by simp
  also note monday_of_bounds(1) [of t']
  also note assms(6)
  finally have "monday_of t \<le> u" .
  moreover have "int (length runs) * (7 * day) \<le> 2 * (7 * day)" using assms(3) by simp
  then have "u < monday_of t + int 4 * (7 * day)"
    using assms(7) unfolding nextMonday_monday c(3) by simp
  ultimately have "in_partition (ranges s0) u" using e(3) by blast
  with c(2) show ?thesis by (rule in_partition_mono)
qed

theorem cron_tolerates_two_failures_witness:
  "in_partition (ranges (snd (cron [(second, []), (0, [(Delivered, ReplyLost)])] demo_now
     (fst (ensurePartitions (replicate 4 (Delivered, Delivered)) demo_now 4 schema_partitions)))))
     (1751242200 * second)"
proof -
  let ?fs = "replicate 4 (Delivered, Delivered)"
  let ?s0 = "fst (ensurePartitions ?fs demo_now 4 schema_partitions)"
  let ?runs = "[(second, []), (0, [(Delivered, ReplyLost)])] :: (duration \<times> (fate \<times> fate) list) list"
  have ok: "ensurePartitions ?fs demo_now 4 schema_partitions = (?s0, True)"
    using ensurePartitions_cases(4) [OF schema_partitions_aligned prod.collapse [symmetric] refl]
    by (simp add: prod_eq_iff)
  have t: "fst (cron ?runs demo_now ?s0) = nextMonday (nextMonday demo_now + second)"
    by (simp only: cron.simps Let_def fst_conv add_0_right)
  also have "\<dots> = 1750637100 * second" by code_simp
  finally have t: "fst (cron ?runs demo_now ?s0) = 1750637100 * second" .
  have n: "nextMonday (1750637100 * second) = 1751241900 * second" by code_simp
  show ?thesis
    by (rule cron_tolerates_two_failures [OF schema_partitions_aligned ok _ _ prod.collapse [symmetric]])
      (simp_all only: t n, simp_all)
qed

text \<open>
  The next run is a Monday, five minutes past midnight, more than five minutes and at most
  seven days and five minutes away.
\<close>
theorem nextMonday_bounds:
  "week_start (nextMonday t - 5 * minute) \<and> t + 5 * minute < nextMonday t \<and> nextMonday t \<le> t + 7 * day + 5 * minute"
  using week_start_next [OF monday_of_start [of t]] monday_of_bounds [of t]
  unfolding nextMonday_monday by (simp only: add_diff_cancel_right') simp

end
