(* ===== verification/SyncEvents.thy ===== *)
theory SyncEvents
  imports Solana
begin

text \<open>
  The payout queue: the repository \<^verbatim>\<open>db/repositories/solana.go\<close> and the worker \<^verbatim>\<open>StartSolanaSync\<close> of
  \<^verbatim>\<open>workers/solana_sync.go\<close>. The worker is a machine with one step per statement of its loop, so that
  several of them, restarts and new payouts can interleave in the relation \<open>sync_step\<close>; \<open>process_batch\<close> is the
  loop body as one function.
\<close>

subsection \<open>The table\<close>

text \<open>
  \<^verbatim>\<open>schema.sql\<close> and \<^verbatim>\<open>solana.sql\<close> create the table \<^verbatim>\<open>solana_sync_events\<close> with different columns. A
  statement that names a column the table lacks fails.
\<close>

record sync_log =
  y_RunnerPubkey :: pubkey
  y_TxSignature :: string
  y_AmountRaw :: int
  y_ConfirmedAt :: instant

datatype sync_table = SolanaSql "SolanaSyncEvent list" | SchemaSql "sync_log list"

definition sync_exec ::
  "fate \<Rightarrow> (SolanaSyncEvent list \<Rightarrow> SolanaSyncEvent list) \<Rightarrow> sync_table \<Rightarrow> sync_table \<times> (db_error + unit)" where
  "sync_exec f upd tbl =
     (case tbl of
        SolanaSql es \<Rightarrow> exec f (\<lambda>_. SolanaSql (upd es)) tbl
      | SchemaSql _ \<Rightarrow> (tbl, Inl (if f = RequestLost then Unavailable else UndefinedColumn)))"

subsection \<open>The repository\<close>

text \<open>The fields that \<^verbatim>\<open>FetchPending\<close> scans; the amount becomes a float.\<close>

record pending_event =
  ev_ID :: string
  ev_RunnerPubkey :: pubkey
  ev_Amount :: float64

definition scan_event :: "SolanaSyncEvent \<Rightarrow> pending_event" where
  "scan_event e = \<lparr>ev_ID = e_ID e, ev_RunnerPubkey = e_RunnerPubkey e, ev_Amount = fl (e_Amount e)\<rparr>"

text \<open>
  The oldest pending events. The statement runs outside a transaction, so the row locks of
  \<^verbatim>\<open>FOR UPDATE SKIP LOCKED\<close> end with it and exclude nobody afterwards. \<open>rows\<close> is how many rows arrive before the
  connection breaks: the loop over \<^verbatim>\<open>rows.Next\<close> ends there, and as the source never asks for \<^verbatim>\<open>rows.Err\<close> the rows so
  far are a result without an error.
\<close>

definition FetchPending :: "bool \<Rightarrow> nat \<Rightarrow> nat \<Rightarrow> sync_table \<Rightarrow> db_error + pending_event list" where
  "FetchPending up rows limit tbl = query up
     (case tbl of
        SchemaSql _ \<Rightarrow> Inl UndefinedColumn
      | SolanaSql es \<Rightarrow>
          Inr (map scan_event (take rows (take limit
            (sort_key e_CreatedAt (filter (\<lambda>e. e_Status e = PENDING) es))))))"

definition MarkProcessing :: "fate \<Rightarrow> string \<Rightarrow> sync_table \<Rightarrow> sync_table \<times> (db_error + unit)" where
  "MarkProcessing f i = sync_exec f (update_where (\<lambda>e. e_ID e = i) (\<lambda>e. e\<lparr>e_Status := PROCESSING\<rparr>))"

definition MarkDone :: "instant \<Rightarrow> fate \<Rightarrow> string \<Rightarrow> string \<Rightarrow> sync_table \<Rightarrow> sync_table \<times> (db_error + unit)" where
  "MarkDone now f i tx = sync_exec f
     (update_where (\<lambda>e. e_ID e = i)
        (\<lambda>e. e\<lparr>e_Status := DONE, e_TxSignature := Some tx, e_UpdatedAt := now\<rparr>))"

definition MarkPendingAgain :: "instant \<Rightarrow> fate \<Rightarrow> string \<Rightarrow> sync_table \<Rightarrow> sync_table \<times> (db_error + unit)" where
  "MarkPendingAgain now f i = sync_exec f
     (update_where (\<lambda>e. e_ID e = i)
        (\<lambda>e. e\<lparr>e_Status := PENDING, e_RetryCount := Suc (e_RetryCount e), e_UpdatedAt := now\<rparr>))"

text \<open>The statements that \<^verbatim>\<open>storage.go\<close> calls legacy, which need the other table.\<close>

definition insert_log :: "sync_log \<Rightarrow> sync_table \<Rightarrow> db_error + sync_table" where
  "insert_log l tbl =
     (case tbl of
        SolanaSql _ \<Rightarrow> Inl UndefinedColumn
      | SchemaSql ls \<Rightarrow>
          if 128 < length (y_RunnerPubkey l) \<or> 128 < length (y_TxSignature l) then Inl TooLong
          else if y_TxSignature l \<in> set (map y_TxSignature ls) then Inl UniqueViolation
          else Inr (SchemaSql (ls @ [l])))"

definition RecordSync ::
  "instant \<Rightarrow> fate \<Rightarrow> pubkey \<Rightarrow> string \<Rightarrow> int \<Rightarrow> sync_table \<Rightarrow> sync_table \<times> (db_error + unit)" where
  "RecordSync now f runner tx amountRaw tbl =
     (case insert_log \<lparr>y_RunnerPubkey = runner, y_TxSignature = tx, y_AmountRaw = amountRaw, y_ConfirmedAt = now\<rparr> tbl of
        Inl e \<Rightarrow> (tbl, Inl (if f = RequestLost then Unavailable else e))
      | Inr tbl' \<Rightarrow> exec f (\<lambda>_. tbl') tbl)"

definition ExistsBySignature :: "bool \<Rightarrow> string \<Rightarrow> sync_table \<Rightarrow> db_error + bool" where
  "ExistsBySignature up tx tbl = query up
     (Inr (case tbl of
             SolanaSql es \<Rightarrow> Some tx \<in> set (map e_TxSignature es)
           | SchemaSql ls \<Rightarrow> tx \<in> set (map y_TxSignature ls)))"

text \<open>\<^verbatim>\<open>FinalizeSync\<close>: the log entry and the runner's balance, in one transaction.\<close>

record finalize_net =
  fn_begin :: bool
  fn_log :: bool
  fn_update :: bool
  fn_commit :: fate

definition debit_runner :: "pubkey \<Rightarrow> int \<Rightarrow> db \<Rightarrow> db_error + db" where
  "debit_runner runner amountRaw db =
     (let P = (\<lambda>n. r_OwnerPubkey n = runner);
          left = (\<lambda>n. numeric_12_4 (r_OffchainAccumulatedTokens n - of_int amountRaw / 1000000000))
      in if list_ex (\<lambda>n. P n \<and> left n = None) (t_runner_nodes db) then Inl OutOfRange
         else Inr (db\<lparr>t_runner_nodes :=
           update_where P (\<lambda>n. n\<lparr>r_PendingSolanaSync := False, r_OffchainAccumulatedTokens := the (left n)\<rparr>)
             (t_runner_nodes db)\<rparr>))"

definition FinalizeSync ::
  "instant \<Rightarrow> finalize_net \<Rightarrow> pubkey \<Rightarrow> string \<Rightarrow> int \<Rightarrow> sync_table \<times> db \<Rightarrow>
   (sync_table \<times> db) \<times> (db_error + unit)" where
  "FinalizeSync now net runner tx amountRaw s =
     (if \<not> fn_begin net then (s, Inl Unavailable)
      else
        (case query (fn_log net) (insert_log \<lparr>y_RunnerPubkey = runner, y_TxSignature = tx,
                 y_AmountRaw = amountRaw, y_ConfirmedAt = now\<rparr> (fst s)) of
           Inl e \<Rightarrow> (s, Inl e)
         | Inr tbl' \<Rightarrow>
             (case query (fn_update net) (debit_runner runner amountRaw (snd s)) of
                Inl e \<Rightarrow> (s, Inl e)
              | Inr db' \<Rightarrow> exec (fn_commit net) (\<lambda>_. (tbl', db')) s)))"

subsection \<open>The worker\<close>

text \<open>
  The state the workers share, with the ids of the events behind the transactions of the chain, in order; and
  what one worker has in hand between two statements.
\<close>

record sync_state =
  sy_table :: sync_table
  sy_chain :: "transaction list"
  sy_paid :: "string list"

datatype worker =
    Idle
  | Batch "pending_event list"
  | Marked pending_event "pending_event list"
  | Refused pending_event "pending_event list"
  | Sent pending_event string "pending_event list"
  | Crashed

record step_env =
  ve_up :: bool
  ve_rows :: nat
  ve_mark :: fate
  ve_rpc :: rpc_env
  ve_final :: fate
  ve_now :: instant

definition send_reward ::
  "solana_lib \<Rightarrow> string \<Rightarrow> step_env \<Rightarrow> pending_event \<Rightarrow> sync_state \<Rightarrow> sync_state \<times> tx_result" where
  "send_reward L key ve e s =
     (case executeRewardTx L key (ve_rpc ve) (ev_RunnerPubkey e) (ev_Amount e) (sy_chain s) of
        (ch, r) \<Rightarrow>
          (s\<lparr>sy_chain := ch,
             sy_paid := sy_paid s @ (if length (sy_chain s) < length ch then [ev_ID e] else [])\<rparr>, r))"

fun worker_step ::
  "solana_lib \<Rightarrow> string \<Rightarrow> step_env \<Rightarrow> worker \<times> sync_state \<Rightarrow> worker \<times> sync_state" where
  "worker_step L key ve (Idle, s) =
     (case FetchPending (ve_up ve) (ve_rows ve) 10 (sy_table s) of
        Inl _ \<Rightarrow> (Idle, s)
      | Inr events \<Rightarrow> (if events = [] then Idle else Batch events, s))"
| "worker_step L key ve (Batch [], s) = (Idle, s)"
| "worker_step L key ve (Batch (e # es), s) =
     (case MarkProcessing (ve_mark ve) (ev_ID e) (sy_table s) of
        (t, Inl _) \<Rightarrow> (Batch es, s\<lparr>sy_table := t\<rparr>)
      | (t, Inr _) \<Rightarrow> (Marked e es, s\<lparr>sy_table := t\<rparr>))"
| "worker_step L key ve (Marked e es, s) =
     (case send_reward L key ve e s of
        (s', Panicked) \<Rightarrow> (Crashed, s')
      | (s', Rejected) \<Rightarrow> (Refused e es, s')
      | (s', Accepted sig) \<Rightarrow> (Sent e sig es, s'))"
| "worker_step L key ve (Refused e es, s) =
     (Batch es, s\<lparr>sy_table := fst (MarkPendingAgain (ve_now ve) (ve_final ve) (ev_ID e) (sy_table s))\<rparr>)"
| "worker_step L key ve (Sent e sig es, s) =
     (Batch es, s\<lparr>sy_table := fst (MarkDone (ve_now ve) (ve_final ve) (ev_ID e) sig (sy_table s))\<rparr>)"
| "worker_step L key ve (Crashed, s) = (Crashed, s)"

text \<open>The loop body of the source, one environment per event; \<open>False\<close> when it panicked.\<close>

fun process_batch ::
  "solana_lib \<Rightarrow> string \<Rightarrow> (step_env \<times> pending_event) list \<Rightarrow> sync_state \<Rightarrow> sync_state \<times> bool" where
  "process_batch L key [] s = (s, True)"
| "process_batch L key ((ve, e) # es) s =
     (case MarkProcessing (ve_mark ve) (ev_ID e) (sy_table s) of
        (t, Inl _) \<Rightarrow> process_batch L key es (s\<lparr>sy_table := t\<rparr>)
      | (t, Inr _) \<Rightarrow>
          (case send_reward L key ve e (s\<lparr>sy_table := t\<rparr>) of
             (s', Panicked) \<Rightarrow> (s', False)
           | (s', Rejected) \<Rightarrow>
               process_batch L key es
                 (s'\<lparr>sy_table := fst (MarkPendingAgain (ve_now ve) (ve_final ve) (ev_ID e) (sy_table s'))\<rparr>)
           | (s', Accepted sig) \<Rightarrow>
               process_batch L key es
                 (s'\<lparr>sy_table := fst (MarkDone (ve_now ve) (ve_final ve) (ev_ID e) sig (sy_table s'))\<rparr>)))"

subsection \<open>The system\<close>

record system =
  sm_state :: sync_state
  sm_workers :: "worker list"

inductive sync_step ::
  "solana_lib \<Rightarrow> string \<Rightarrow> (step_env \<Rightarrow> bool) \<Rightarrow> system \<Rightarrow> system \<Rightarrow> bool"
  for L key ok
where
  work: "i < length (sm_workers y) \<Longrightarrow> ok ve \<Longrightarrow>
    worker_step L key ve (sm_workers y ! i, sm_state y) = (w', s') \<Longrightarrow>
    sync_step L key ok y \<lparr>sm_state = s', sm_workers = (sm_workers y)[i := w']\<rparr>"
| restart: "i < length (sm_workers y) \<Longrightarrow>
    sync_step L key ok y (y\<lparr>sm_workers := (sm_workers y)[i := Idle]\<rparr>)"
| enqueue: "sy_table (sm_state y) = SolanaSql es \<Longrightarrow> e_ID e \<notin> set (map e_ID es) \<Longrightarrow> e_Status e = PENDING \<Longrightarrow>
    sync_step L key ok y (y\<lparr>sm_state := (sm_state y)\<lparr>sy_table := SolanaSql (es @ [e])\<rparr>\<rparr>)"

inductive sync_reach :: "solana_lib \<Rightarrow> string \<Rightarrow> (step_env \<Rightarrow> bool) \<Rightarrow> nat \<Rightarrow> system \<Rightarrow> bool"
  for L key ok n
where
  start: "distinct (map e_ID es) \<Longrightarrow> \<forall>e \<in> set es. e_Status e = PENDING \<Longrightarrow>
    sync_reach L key ok n
      \<lparr>sm_state = \<lparr>sy_table = SolanaSql es, sy_chain = [], sy_paid = []\<rparr>, sm_workers = replicate n Idle\<rparr>"
| step: "sync_reach L key ok n y \<Longrightarrow> sync_step L key ok y y' \<Longrightarrow> sync_reach L key ok n y'"

subsection \<open>Statuses\<close>

definition status_of :: "sync_table \<Rightarrow> string \<Rightarrow> sync_status option" where
  "status_of tbl = (case tbl of SolanaSql es \<Rightarrow> column e_ID e_Status es | SchemaSql _ \<Rightarrow> Map.empty)"

definition event_ids :: "sync_table \<Rightarrow> string list" where
  "event_ids tbl = (case tbl of SolanaSql es \<Rightarrow> map e_ID es | SchemaSql _ \<Rightarrow> [])"

lemma status_of_ids: "status_of tbl i = None \<longleftrightarrow> i \<notin> set (event_ids tbl)"
  by (auto simp: status_of_def event_ids_def column_def map_of_eq_None_iff image_image split: sync_table.splits)

text \<open>A statement on one event sets its status, unless it did not reach the server.\<close>

lemma sync_exec_status:
  assumes "\<And>e. e_ID (g e) = e_ID e" "\<And>e. e_Status (g e) = st"
    and "sync_exec f (update_where (\<lambda>e. e_ID e = i) g) tbl = (tbl', r)"
  shows "status_of tbl' = (if f = RequestLost then status_of tbl
      else (status_of tbl)(i := map_option (\<lambda>_. st) (status_of tbl i)))"
    and "event_ids tbl' = event_ids tbl"
    and "r = Inr () \<longleftrightarrow> f = Delivered \<and> (\<exists>es. tbl = SolanaSql es)"
proof -
  have c: "column e_ID e_Status (update_where (\<lambda>e. e_ID e = i) g es)
      = (column e_ID e_Status es)(i := map_option (\<lambda>_. st) (column e_ID e_Status es i))" for es
    by (rule column_update) (auto simp: assms(1,2))
  have m: "map e_ID (update_where (\<lambda>e. e_ID e = i) g es) = map e_ID es" for es
    by (rule map_update_where) (simp add: assms(1))
  show "status_of tbl' = (if f = RequestLost then status_of tbl
      else (status_of tbl)(i := map_option (\<lambda>_. st) (status_of tbl i)))"
    "event_ids tbl' = event_ids tbl" "r = Inr () \<longleftrightarrow> f = Delivered \<and> (\<exists>es. tbl = SolanaSql es)"
    using assms(3)
    by (cases tbl; cases f; auto simp: sync_exec_def status_of_def event_ids_def c m)+
qed

lemmas mark_status =
  sync_exec_status [where g = "\<lambda>e. e\<lparr>e_Status := PROCESSING\<rparr>" and st = PROCESSING, simplified, folded MarkProcessing_def]

lemma done_status:
  "MarkDone now f i tx tbl = (tbl', r) \<Longrightarrow>
     status_of tbl' = (if f = RequestLost then status_of tbl
       else (status_of tbl)(i := map_option (\<lambda>_. DONE) (status_of tbl i)))
     \<and> event_ids tbl' = event_ids tbl"
  unfolding MarkDone_def by (auto dest: sync_exec_status(1,2) [rotated 2, where st = DONE])

lemma again_status:
  "MarkPendingAgain now f i tbl = (tbl', r) \<Longrightarrow>
     status_of tbl' = (if f = RequestLost then status_of tbl
       else (status_of tbl)(i := map_option (\<lambda>_. PENDING) (status_of tbl i)))
     \<and> event_ids tbl' = event_ids tbl"
  unfolding MarkPendingAgain_def by (auto dest: sync_exec_status(1,2) [rotated 2, where st = PENDING])

lemma send_reward_frame:
  assumes "send_reward L key ve e s = (s', r)"
  shows "sy_table s' = sy_table s"
    and "sy_paid s' = sy_paid s \<and> r \<in> {Panicked, Rejected}
      \<or> sy_paid s' = sy_paid s @ [ev_ID e] \<and> xe_send (ve_rpc ve) \<noteq> RequestLost
        \<and> (xe_send (ve_rpc ve) = Delivered \<longleftrightarrow> r \<noteq> Rejected) \<and> r \<noteq> Panicked"
proof -
  obtain ch where c: "executeRewardTx L key (ve_rpc ve) (ev_RunnerPubkey e) (ev_Amount e) (sy_chain s) = (ch, r)"
    using assms by (auto simp: send_reward_def split: prod.splits)
  then have s': "s' = s\<lparr>sy_chain := ch,
      sy_paid := sy_paid s @ (if length (sy_chain s) < length ch then [ev_ID e] else [])\<rparr>"
    using assms by (simp add: send_reward_def)
  then show "sy_table s' = sy_table s" by simp
  show "sy_paid s' = sy_paid s \<and> r \<in> {Panicked, Rejected}
      \<or> sy_paid s' = sy_paid s @ [ev_ID e] \<and> xe_send (ve_rpc ve) \<noteq> RequestLost
        \<and> (xe_send (ve_rpc ve) = Delivered \<longleftrightarrow> r \<noteq> Rejected) \<and> r \<noteq> Panicked"
    using c by (cases rule: executeRewardTx_cases) (auto simp: s')
qed

lemma fetched_pending:
  assumes "FetchPending up rows limit tbl = Inr evs" "distinct (event_ids tbl)"
  shows "distinct (map ev_ID evs)" "\<forall>e \<in> set evs. status_of tbl (ev_ID e) = Some PENDING"
proof -
  from assms(1) obtain es where es: "tbl = SolanaSql es" and
    evs: "evs = map scan_event (take rows (take limit (sort_key e_CreatedAt (filter (\<lambda>e. e_Status e = PENDING) es))))"
    by (auto simp: FetchPending_def query_Inr_iff split: sync_table.splits)
  have d: "distinct (map e_ID es)" using assms(2) by (simp add: es event_ids_def)
  let ?p = "sort_key e_CreatedAt (filter (\<lambda>e. e_Status e = PENDING) es)"
  have "distinct (map e_ID ?p)"
    using d by (simp add: distinct_map inj_on_filter_key_eq) (auto simp: inj_on_def)
  moreover have "map ev_ID evs = take (min rows limit) (map e_ID ?p)" by (simp add: evs scan_event_def take_map o_def)
  ultimately show "distinct (map ev_ID evs)" by simp
  have "status_of tbl (e_ID e) = Some (e_Status e)" if "e \<in> set es" for e
    using d that unfolding es status_of_def column_def by (auto intro: map_of_is_SomeI simp: o_def)
  then show "\<forall>e \<in> set evs. status_of tbl (ev_ID e) = Some PENDING"
    by (auto simp: evs scan_event_def dest!: in_set_takeD)
qed

subsection \<open>One worker\<close>

text \<open>What a worker holds is its own: the rest of its batch is pending, the event in hand is not.\<close>

definition waiting :: "(string \<Rightarrow> sync_status option) \<Rightarrow> pending_event list \<Rightarrow> bool" where
  "waiting st es \<longleftrightarrow> distinct (map ev_ID es) \<and> (\<forall>e \<in> set es. st (ev_ID e) = Some PENDING)"

fun holds :: "(string \<Rightarrow> sync_status option) \<Rightarrow> string list \<Rightarrow> worker \<Rightarrow> bool" where
  "holds st paid Idle = True"
| "holds st paid Crashed = True"
| "holds st paid (Batch es) = waiting st es"
| "holds st paid (Marked e es) =
     (st (ev_ID e) = Some PROCESSING \<and> ev_ID e \<notin> set paid \<and> waiting st es)"
| "holds st paid (Refused e es) =
     (st (ev_ID e) = Some PROCESSING \<and> ev_ID e \<notin> set paid \<and> waiting st es)"
| "holds st paid (Sent e sig es) =
     (st (ev_ID e) = Some PROCESSING \<and> ev_ID e \<in> set paid \<and> waiting st es)"

lemma waiting_simps [simp]:
  "waiting st []"
  "waiting st (e # es) \<longleftrightarrow> st (ev_ID e) = Some PENDING \<and> ev_ID e \<notin> ev_ID ` set es \<and> waiting st es"
  by (auto simp: waiting_def)

lemma waiting_other: "waiting st es \<Longrightarrow> st i \<noteq> Some PENDING \<Longrightarrow> waiting (st(i := x)) es"
  by (auto simp: waiting_def)

lemma waiting_other': "waiting st es \<Longrightarrow> i \<notin> ev_ID ` set es \<Longrightarrow> waiting (st(i := x)) es"
  by (auto simp: waiting_def image_iff)

definition paid_once :: "sync_state \<Rightarrow> bool" where
  "paid_once s \<longleftrightarrow> distinct (event_ids (sy_table s)) \<and> distinct (sy_paid s)
     \<and> (\<forall>i \<in> set (sy_paid s). status_of (sy_table s) i \<in> {Some PROCESSING, Some DONE})
     \<and> (\<forall>i. status_of (sy_table s) i = Some DONE \<longrightarrow> i \<in> set (sy_paid s))"

definition sole_inv :: "worker \<Rightarrow> sync_state \<Rightarrow> bool" where
  "sole_inv w s \<longleftrightarrow> paid_once s \<and> holds (status_of (sy_table s)) (sy_paid s) w"

text \<open>The table of a state moves one event from one status to another.\<close>

lemma paid_once_move:
  assumes "paid_once s" "event_ids t = event_ids (sy_table s)"
    and "status_of t = (status_of (sy_table s))(i := map_option (\<lambda>_. x) (status_of (sy_table s) i))"
    and "if i \<in> set (sy_paid s) then x \<noteq> PENDING else x \<noteq> DONE"
  shows "paid_once (s\<lparr>sy_table := t\<rparr>)"
  using assms(1,4) by (cases x) (auto simp: paid_once_def assms(2,3) split: if_splits)

lemma paid_once_same:
  assumes "paid_once s" "event_ids t = event_ids (sy_table s)" "status_of t = status_of (sy_table s)"
  shows "paid_once (s\<lparr>sy_table := t\<rparr>)"
  using assms by (simp add: paid_once_def)

lemma sole_inv_mark:
  assumes "sole_inv (Batch (e # es)) s" "MarkProcessing f (ev_ID e) (sy_table s) = (t, r)"
  shows "sole_inv (if r = Inr () then Marked e es else Batch es) (s\<lparr>sy_table := t\<rparr>)"
proof -
  have st: "status_of (sy_table s) (ev_ID e) = Some PENDING" "ev_ID e \<notin> ev_ID ` set es"
    and p: "paid_once s" using assms(1) by (auto simp: sole_inv_def)
  then have unpaid: "ev_ID e \<notin> set (sy_paid s)" by (auto simp: paid_once_def)
  note m = mark_status [OF assms(2)]
  have "paid_once (s\<lparr>sy_table := t\<rparr>)"
  proof (cases "f = RequestLost")
    case True
    with p m show ?thesis by (intro paid_once_same) simp_all
  next
    case False
    with p m unpaid show ?thesis
      by (intro paid_once_move [where i = "ev_ID e" and x = PROCESSING]) simp_all
  qed
  with assms(1) m st unpaid show ?thesis
    by (auto simp: sole_inv_def waiting_other' split: if_splits)
qed

lemma sole_inv_send:
  assumes "sole_inv (Marked e es) s" "send_reward L key ve e s = (s', r)" "xe_send (ve_rpc ve) \<noteq> ReplyLost"
  shows "sole_inv (case r of Panicked \<Rightarrow> Crashed | Rejected \<Rightarrow> Refused e es | Accepted sig \<Rightarrow> Sent e sig es) s'"
proof -
  note f = send_reward_frame [OF assms(2)]
  have p: "paid_once s" and st: "status_of (sy_table s) (ev_ID e) = Some PROCESSING"
    and unpaid: "ev_ID e \<notin> set (sy_paid s)"
    and rest: "waiting (status_of (sy_table s)) es"
    using assms(1) by (auto simp: sole_inv_def)
  have "paid_once s'" using p st unpaid f by (auto simp: paid_once_def)
  with st unpaid rest f assms(3) show ?thesis
    by (cases r; cases "xe_send (ve_rpc ve)") (auto simp: sole_inv_def)
qed

lemma sole_inv_close:
  assumes "paid_once s" "waiting (status_of (sy_table s)) es"
    and "status_of (sy_table s) (ev_ID e) = Some PROCESSING"
    and "event_ids t = event_ids (sy_table s)"
    and "status_of t = (if f = RequestLost then status_of (sy_table s)
      else (status_of (sy_table s))(ev_ID e := map_option (\<lambda>_. x) (status_of (sy_table s) (ev_ID e))))"
    and "x = (if ev_ID e \<in> set (sy_paid s) then DONE else PENDING)"
  shows "sole_inv (Batch es) (s\<lparr>sy_table := t\<rparr>)"
proof -
  have "paid_once (s\<lparr>sy_table := t\<rparr>)"
  proof (cases "f = RequestLost")
    case True
    with assms show ?thesis by (intro paid_once_same) simp_all
  next
    case False
    with assms show ?thesis by (intro paid_once_move [where i = "ev_ID e" and x = x]) simp_all
  qed
  with assms(2,3,5) show ?thesis by (auto simp: sole_inv_def waiting_other)
qed

lemma sole_inv_step:
  assumes "sole_inv w s" "worker_step L key ve (w, s) = (w', s')" "xe_send (ve_rpc ve) \<noteq> ReplyLost"
  shows "sole_inv w' s'"
proof (cases w)
  case Idle
  have "paid_once s" using assms(1) by (simp add: sole_inv_def)
  with assms(2) Idle fetched_pending show ?thesis
    by (auto simp: sole_inv_def paid_once_def waiting_def split: sum.splits if_splits)
next
  case (Batch es)
  show ?thesis
  proof (cases es)
    case Nil
    with assms(1,2) Batch show ?thesis by (auto simp: sole_inv_def)
  next
    case (Cons e es')
    obtain t r where m: "MarkProcessing (ve_mark ve) (ev_ID e) (sy_table s) = (t, r)" by fastforce
    from sole_inv_mark [OF _ m, of es'] assms(1,2) Batch Cons m show ?thesis
      by (auto split: sum.splits)
  qed
next
  case (Marked e es)
  obtain s1 r where c: "send_reward L key ve e s = (s1, r)" by fastforce
  from sole_inv_send [OF _ c assms(3), of es] assms(1,2) Marked c show ?thesis
    by (auto split: tx_result.splits)
next
  case (Refused e es)
  obtain t r where c: "MarkPendingAgain (ve_now ve) (ve_final ve) (ev_ID e) (sy_table s) = (t, r)" by fastforce
  have h: "paid_once s" "waiting (status_of (sy_table s)) es" "status_of (sy_table s) (ev_ID e) = Some PROCESSING"
    "ev_ID e \<notin> set (sy_paid s)" using assms(1) Refused by (auto simp: sole_inv_def)
  have "sole_inv (Batch es) (s\<lparr>sy_table := t\<rparr>)"
    using again_status [OF c] h(4) by (intro sole_inv_close [OF h(1-3), where x = PENDING]) auto
  with assms(2) Refused c show ?thesis by simp
next
  case (Sent e sig es)
  obtain t r where c: "MarkDone (ve_now ve) (ve_final ve) (ev_ID e) sig (sy_table s) = (t, r)" by fastforce
  have h: "paid_once s" "waiting (status_of (sy_table s)) es" "status_of (sy_table s) (ev_ID e) = Some PROCESSING"
    "ev_ID e \<in> set (sy_paid s)" using assms(1) Sent by (auto simp: sole_inv_def)
  have "sole_inv (Batch es) (s\<lparr>sy_table := t\<rparr>)"
    using done_status [OF c] h(4) by (intro sole_inv_close [OF h(1-3), where x = DONE]) auto
  with assms(2) Sent c show ?thesis by simp
next
  case Crashed
  with assms show ?thesis by simp
qed

lemma sole_inv_enqueue:
  assumes "sole_inv w s" "sy_table s = SolanaSql es" "e_ID e \<notin> set (map e_ID es)" "e_Status e = PENDING"
  shows "sole_inv w (s\<lparr>sy_table := SolanaSql (es @ [e])\<rparr>)"
proof -
  let ?t = "SolanaSql (es @ [e])"
  have none: "status_of (sy_table s) (e_ID e) = None"
    using assms(2,3) by (simp add: status_of_ids event_ids_def)
  have st: "status_of ?t = (status_of (sy_table s))(e_ID e \<mapsto> PENDING)"
    using assms(2-4) none
    by (auto simp: status_of_def column_append fun_eq_iff split: option.splits)
  have ids: "event_ids ?t = event_ids (sy_table s) @ [e_ID e]" "e_ID e \<notin> set (event_ids (sy_table s))"
    using assms(2,3) by (auto simp: event_ids_def)
  have "holds ((status_of (sy_table s))(e_ID e \<mapsto> PENDING)) (sy_paid s) w"
    if "holds (status_of (sy_table s)) (sy_paid s) w"
    using that none by (cases w) (auto simp: waiting_def)
  with assms(1) none ids st show ?thesis by (auto simp: sole_inv_def paid_once_def)
qed

lemma sole_inv_reach:
  assumes "sync_reach L key ok (Suc 0) y" "\<And>ve. ok ve \<Longrightarrow> xe_send (ve_rpc ve) \<noteq> ReplyLost"
  shows "\<exists>w. sm_workers y = [w] \<and> sole_inv w (sm_state y)"
  using assms(1)
proof (induction rule: sync_reach.induct)
  case (start es)
  have "status_of (SolanaSql es) i = Some PENDING" if "status_of (SolanaSql es) i = Some x" for i x
    using that start(2) by (auto simp: status_of_def column_def dest!: map_of_SomeD)
  then have "status_of (SolanaSql es) i \<noteq> Some DONE" for i by fastforce
  with start show ?case by (simp add: sole_inv_def paid_once_def event_ids_def)
next
  case (step y y')
  then obtain w where w: "sm_workers y = [w]" "sole_inv w (sm_state y)" by blast
  from step.hyps(2) show ?case
  proof (cases rule: sync_step.cases)
    case (work i ve w' s')
    with w assms(2) sole_inv_step show ?thesis by auto
  next
    case (restart i)
    with w show ?thesis by (auto simp: sole_inv_def)
  next
    case (enqueue es e)
    with w sole_inv_enqueue show ?thesis by auto
  qed
qed

subsection \<open>The loop body and the machine\<close>

text \<open>Steps of a worker, one environment each.\<close>

definition worker_run ::
  "solana_lib \<Rightarrow> string \<Rightarrow> step_env list \<Rightarrow> worker \<times> sync_state \<Rightarrow> worker \<times> sync_state" where
  "worker_run L key ves c = fold (worker_step L key) ves c"

lemma worker_run_simps [simp]:
  "worker_run L key [] c = c"
  "worker_run L key (ve # ves) c = worker_run L key ves (worker_step L key ve c)"
  "worker_run L key (ves @ vs) c = worker_run L key vs (worker_run L key ves c)"
  by (simp_all add: worker_run_def)

lemma batch_as_steps:
  "\<exists>ves. length ves \<le> 3 * length es \<and>
     worker_run L key ves (Batch (map snd es), s) =
       (let (s', alive) = process_batch L key es s in (if alive then Batch [] else Crashed, s'))"
proof (induction es arbitrary: s)
  case Nil
  show ?case by (intro exI [of _ "[]"]) simp
next
  case (Cons x es)
  obtain ve e where x: "x = (ve, e)" by fastforce
  obtain t r where m: "MarkProcessing (ve_mark ve) (ev_ID e) (sy_table s) = (t, r)" by fastforce
  show ?case
  proof (cases r)
    case (Inl err)
    obtain ves where "length ves \<le> 3 * length es" and
      v: "worker_run L key ves (Batch (map snd es), s\<lparr>sy_table := t\<rparr>) =
        (let (s', alive) = process_batch L key es (s\<lparr>sy_table := t\<rparr>) in (if alive then Batch [] else Crashed, s'))"
      using Cons.IH by blast
    then show ?thesis using x m Inl by (intro exI [of _ "ve # ves"]) simp
  next
    case (Inr u)
    let ?s = "s\<lparr>sy_table := t\<rparr>"
    obtain s1 q where c: "send_reward L key ve e ?s = (s1, q)" by fastforce
    let ?close = "\<lambda>t'. s1\<lparr>sy_table := t'\<rparr>"
    have run: "\<exists>ves. length ves \<le> 3 * length (x # es) \<and>
        worker_run L key ves (Batch (map snd (x # es)), s) =
          (let (s', alive) = process_batch L key es s2 in (if alive then Batch [] else Crashed, s'))"
      if "worker_run L key [ve, ve, ve] (Batch (e # map snd es), s) = (Batch (map snd es), s2)" for s2
    proof -
      obtain ves where "length ves \<le> 3 * length es" and
        v: "worker_run L key ves (Batch (map snd es), s2) =
          (let (s', alive) = process_batch L key es s2 in (if alive then Batch [] else Crashed, s'))"
        using Cons.IH by blast
      with that show ?thesis by (intro exI [of _ "[ve, ve, ve] @ ves"]) (simp add: x)
    qed
    show ?thesis
    proof (cases q)
      case Panicked
      with x m Inr c show ?thesis by (intro exI [of _ "[ve, ve]"]) simp
    next
      case Rejected
      with x m Inr c run show ?thesis by simp
    next
      case (Accepted sig)
      with x m Inr c run show ?thesis by simp
    qed
  qed
qed

text \<open>A measure that every step of a busy worker decreases.\<close>

fun work_left :: "worker \<Rightarrow> nat" where
  "work_left Idle = 0"
| "work_left Crashed = 0"
| "work_left (Batch es) = 3 * length es + 1"
| "work_left (Marked e es) = 3 * length es + 3"
| "work_left (Refused e es) = 3 * length es + 2"
| "work_left (Sent e sig es) = 3 * length es + 2"

lemma work_decreases:
  "worker_step L key ve (w, s) = (w', s') \<Longrightarrow> work_left w \<noteq> 0 \<Longrightarrow> work_left w' < work_left w"
  by (induction L key ve "(w, s)" rule: worker_step.induct)
     (auto split: prod.splits sum.splits tx_result.splits)

lemma work_ends:
  "work_left w \<le> length ves \<Longrightarrow>
     \<exists>k \<le> length ves. fst (worker_run L key (take k ves) (w, s)) \<in> {Idle, Crashed}"
proof (induction ves arbitrary: w s)
  case Nil
  then show ?case by (cases w) auto
next
  case (Cons ve ves)
  show ?case
  proof (cases "work_left w = 0")
    case True
    then show ?thesis by (intro exI [of _ 0]) (cases w; simp)
  next
    case False
    obtain w' s' where st: "worker_step L key ve (w, s) = (w', s')" by fastforce
    from work_decreases [OF this False] Cons.prems have "work_left w' \<le> length ves" by simp
    from Cons.IH [OF this, of s'] obtain k where
      "k \<le> length ves" "fst (worker_run L key (take k ves) (w', s')) \<in> {Idle, Crashed}" by blast
    with st show ?thesis by (intro exI [of _ "Suc k"]) simp
  qed
qed

subsection \<open>Events nobody holds\<close>

fun in_hand :: "worker \<Rightarrow> string list" where
  "in_hand Idle = []"
| "in_hand Crashed = []"
| "in_hand (Batch es) = map ev_ID es"
| "in_hand (Marked e es) = ev_ID e # map ev_ID es"
| "in_hand (Refused e es) = ev_ID e # map ev_ID es"
| "in_hand (Sent e sig es) = ev_ID e # map ev_ID es"

definition abandoned :: "string \<Rightarrow> system \<Rightarrow> bool" where
  "abandoned i y \<longleftrightarrow> distinct (event_ids (sy_table (sm_state y)))
     \<and> status_of (sy_table (sm_state y)) i = Some PROCESSING
     \<and> (\<forall>w \<in> set (sm_workers y). i \<notin> set (in_hand w))"

lemma worker_step_other:
  assumes "worker_step L key ve (w, s) = (w', s')" "i \<notin> set (in_hand w)"
    and "distinct (event_ids (sy_table s))" "status_of (sy_table s) i = Some PROCESSING"
  shows "i \<notin> set (in_hand w') \<and> event_ids (sy_table s') = event_ids (sy_table s)
    \<and> status_of (sy_table s') i = Some PROCESSING
    \<and> count_list (sy_paid s') i = count_list (sy_paid s) i"
proof (cases w)
  case Idle
  have "status_of (sy_table s) (ev_ID e) = Some PENDING"
    if "FetchPending up rows limit (sy_table s) = Inr evs" "e \<in> set evs" for up rows limit evs e
    using fetched_pending(2) [OF that(1) assms(3)] that(2) by blast
  with assms Idle show ?thesis by (fastforce split: sum.splits if_splits)
next
  case (Batch es)
  show ?thesis
  proof (cases es)
    case (Cons e es')
    obtain t r where m: "MarkProcessing (ve_mark ve) (ev_ID e) (sy_table s) = (t, r)" by fastforce
    from mark_status(1,2) [OF m] m assms Batch Cons show ?thesis by (auto split: sum.splits)
  qed (use assms Batch in auto)
next
  case (Marked e es)
  obtain s1 r where c: "send_reward L key ve e s = (s1, r)" by fastforce
  from send_reward_frame [OF c] c assms Marked show ?thesis by (auto split: tx_result.splits)
next
  case (Refused e es)
  obtain t r where c: "MarkPendingAgain (ve_now ve) (ve_final ve) (ev_ID e) (sy_table s) = (t, r)" by fastforce
  from again_status [OF c] c assms Refused show ?thesis by auto
next
  case (Sent e sig es)
  obtain t r where c: "MarkDone (ve_now ve) (ve_final ve) (ev_ID e) sig (sy_table s) = (t, r)" by fastforce
  from done_status [OF c] c assms Sent show ?thesis by auto
next
  case Crashed
  with assms show ?thesis by simp
qed

lemma abandoned_step:
  assumes "sync_step L key ok y y'" "abandoned i y"
  shows "abandoned i y' \<and> count_list (sy_paid (sm_state y')) i = count_list (sy_paid (sm_state y)) i"
  using assms(1)
proof (cases rule: sync_step.cases)
  case (work j ve w' s')
  have h: "sm_workers y ! j \<in> set (sm_workers y)" using work(2) by simp
  from worker_step_other [OF work(4), of i] assms(2) h
  have "i \<notin> set (in_hand w') \<and> event_ids (sy_table s') = event_ids (sy_table (sm_state y))
      \<and> status_of (sy_table s') i = Some PROCESSING
      \<and> count_list (sy_paid s') i = count_list (sy_paid (sm_state y)) i"
    by (auto simp: abandoned_def)
  with assms(2) show ?thesis
    unfolding work(1) abandoned_def using set_update_subset_insert [of "sm_workers y" j w'] by auto
next
  case (restart j)
  with assms(2) show ?thesis
    unfolding abandoned_def using set_update_subset_insert [of "sm_workers y" j Idle] by auto
next
  case (enqueue es e)
  have "e_ID e \<noteq> i" using assms(2) enqueue(2,3)
    by (auto simp: abandoned_def status_of_def column_def dest!: map_of_SomeD)
  moreover have "status_of (SolanaSql (es @ [e])) i = status_of (SolanaSql es) i" if "e_ID e \<noteq> i"
    using that by (simp add: status_of_def column_append split: option.splits)
  ultimately show ?thesis using assms(2) enqueue by (auto simp: abandoned_def event_ids_def)
qed

lemma abandoned_run:
  "(sync_step L key ok)\<^sup>*\<^sup>* y y' \<Longrightarrow> abandoned i y \<Longrightarrow>
     abandoned i y' \<and> count_list (sy_paid (sm_state y')) i = count_list (sy_paid (sm_state y)) i"
  by (induction rule: rtranclp_induct) (auto dest: abandoned_step)

subsection \<open>Sample runs\<close>

definition demo_event :: "string \<Rightarrow> pubkey \<Rightarrow> SolanaSyncEvent" where
  "demo_event i pk = \<lparr>e_ID = i, e_RunnerPubkey = pk, e_Amount = 10, e_Status = PENDING, e_RetryCount = 0,
     e_TxSignature = None, e_CreatedAt = 0, e_UpdatedAt = 0\<rparr>"

definition demo_step_env :: "fate \<Rightarrow> step_env" where
  "demo_step_env f = \<lparr>ve_up = True, ve_rows = 10, ve_mark = Delivered, ve_rpc = demo_rpc f, ve_final = Delivered, ve_now = 1\<rparr>"

definition reliable :: "step_env \<Rightarrow> bool" where
  "reliable ve \<longleftrightarrow> ve_up ve \<and> ve_mark ve = Delivered \<and> xe_send (ve_rpc ve) = Delivered \<and> ve_final ve = Delivered"

definition demo_system :: "nat \<Rightarrow> pubkey \<Rightarrow> system" where
  "demo_system n pk = \<lparr>sm_state = \<lparr>sy_table = SolanaSql [demo_event ''e'' pk], sy_chain = [], sy_paid = []\<rparr>,
     sm_workers = replicate n Idle\<rparr>"

text \<open>A schedule: which worker steps next, and in which environment.\<close>

definition act_on :: "solana_lib \<Rightarrow> string \<Rightarrow> nat \<times> step_env \<Rightarrow> system \<Rightarrow> system" where
  "act_on L key a y = (case worker_step L key (snd a) (sm_workers y ! fst a, sm_state y) of
     (w', s') \<Rightarrow> \<lparr>sm_state = s', sm_workers = (sm_workers y)[fst a := w']\<rparr>)"

abbreviation act :: "nat \<times> step_env \<Rightarrow> system \<Rightarrow> system" where
  "act \<equiv> act_on demo_lib ''key''"

lemma length_act [simp]: "length (sm_workers (act_on L key a y)) = length (sm_workers y)"
  by (simp add: act_on_def split: prod.splits)

lemma act_run:
  "sync_reach L key ok n y \<Longrightarrow> \<forall>a \<in> set as. fst a < length (sm_workers y) \<and> ok (snd a) \<Longrightarrow>
     sync_reach L key ok n (fold (act_on L key) as y)"
proof (induction as arbitrary: y)
  case (Cons a as)
  obtain w' s' where st: "worker_step L key (snd a) (sm_workers y ! fst a, sm_state y) = (w', s')"
    by fastforce
  have "sync_step L key ok y (act_on L key a y)"
    unfolding act_on_def st using Cons.prems(2) by (auto intro: work st)
  with Cons.prems(1) have "sync_reach L key ok n (act_on L key a y)" by (rule sync_reach.step)
  with Cons.IH Cons.prems(2) show ?case by simp
qed simp

lemma demo_start: "sync_reach demo_lib ''key'' ok n (demo_system n pk)"
  unfolding demo_system_def by (rule start) (simp_all add: demo_event_def)

lemmas demo_run_simps = act_on_def demo_system_def demo_event_def demo_step_env_def FetchPending_def
  scan_event_def MarkProcessing_def MarkDone_def MarkPendingAgain_def sync_exec_def send_reward_def
  executeRewardTx_def GetBackendPrivateKey_def demo_lib_def demo_rpc_def programID_def Let_def bytes_def

lemma demo_once:
  "fold act (replicate 5 (0, demo_step_env Delivered)) (demo_system 1 ''r'') =
     (fold act (replicate 4 (0, demo_step_env Delivered)) (demo_system 1 ''r''))\<lparr>sm_workers := [Idle]\<rparr>"
  "sy_paid (sm_state (fold act (replicate 4 (0, demo_step_env Delivered)) (demo_system 1 ''r''))) = [''e'']"
  by (simp_all add: demo_run_simps eval_nat_numeral)

lemma demo_crash:
  "sm_workers (fold act (replicate 3 (0, demo_step_env Delivered)) (demo_system 1 [])) = [Crashed]"
  "status_of (sy_table (sm_state (fold act (replicate 3 (0, demo_step_env Delivered)) (demo_system 1 [])))) ''e''
     = Some PROCESSING"
  "event_ids (sy_table (sm_state (fold act (replicate 3 (0, demo_step_env Delivered)) (demo_system 1 [])))) = [''e'']"
  by (simp_all add: demo_run_simps eval_nat_numeral status_of_def event_ids_def)

subsection \<open>Properties\<close>

text \<open>
  C9. A payout is sent at most once by a single worker: as long as no reply of the chain is lost, through any lost
  database requests, restarts at any point and payouts queued meanwhile, no event has two transactions, an event
  with a transaction is never pending again, and an event that is done has one.
\<close>
theorem payouts_at_most_once:
  assumes "sync_reach L key ok 1 y" "\<And>ve. ok ve \<Longrightarrow> xe_send (ve_rpc ve) \<noteq> ReplyLost"
  shows "distinct (sy_paid (sm_state y))
    \<and> (\<forall>i \<in> set (sy_paid (sm_state y)). status_of (sy_table (sm_state y)) i \<in> {Some PROCESSING, Some DONE})
    \<and> (\<forall>i. status_of (sy_table (sm_state y)) i = Some DONE \<longrightarrow> i \<in> set (sy_paid (sm_state y)))"
  using sole_inv_reach [of L key ok y] assms by (auto simp: sole_inv_def paid_once_def)

theorem payouts_at_most_once_witness:
  "\<exists>y. sync_reach demo_lib ''key'' reliable 1 y \<and> sy_paid (sm_state y) = [''e'']
     \<and> status_of (sy_table (sm_state y)) ''e'' \<in> {Some PROCESSING, Some DONE}"
proof -
  let ?y = "fold act (replicate 4 (0, demo_step_env Delivered)) (demo_system 1 ''r'')"
  have r: "sync_reach demo_lib ''key'' reliable 1 ?y"
    by (rule act_run [OF demo_start]) (simp add: reliable_def demo_step_env_def demo_rpc_def demo_system_def)
  have "\<And>ve. reliable ve \<Longrightarrow> xe_send (ve_rpc ve) \<noteq> ReplyLost" by (simp add: reliable_def)
  from payouts_at_most_once [OF r this] r demo_once(2) show ?thesis by (intro exI [of _ ?y]) simp
qed

text \<open>
  An abandoned payout is never resumed: an event that is processing while no worker has it in hand, as after a
  restart, a crash or a lost reply, stays so in every further run, and no transaction is sent for it.
\<close>
theorem processing_is_stuck:
  assumes "(sync_step L key ok)\<^sup>*\<^sup>* y y'"
    and "distinct (event_ids (sy_table (sm_state y)))" "status_of (sy_table (sm_state y)) i = Some PROCESSING"
    and "\<forall>w \<in> set (sm_workers y). i \<notin> set (in_hand w)"
  shows "status_of (sy_table (sm_state y')) i = Some PROCESSING
    \<and> count_list (sy_paid (sm_state y')) i = count_list (sy_paid (sm_state y)) i"
  using abandoned_run [OF assms(1), of i] assms(2-4) by (simp add: abandoned_def)

theorem processing_is_stuck_witness:
  "\<exists>y. sync_reach demo_lib ''key'' reliable 1 y \<and> sm_workers y = [Crashed]
     \<and> (\<forall>y'. (sync_step demo_lib ''key'' reliable)\<^sup>*\<^sup>* y y' \<longrightarrow>
           status_of (sy_table (sm_state y')) ''e'' = Some PROCESSING)"
proof -
  let ?y = "fold act (replicate 3 (0, demo_step_env Delivered)) (demo_system 1 [])"
  have r: "sync_reach demo_lib ''key'' reliable 1 ?y"
    by (rule act_run [OF demo_start]) (simp add: reliable_def demo_step_env_def demo_rpc_def demo_system_def)
  have "status_of (sy_table (sm_state y')) ''e'' = Some PROCESSING"
    if "(sync_step demo_lib ''key'' reliable)\<^sup>*\<^sup>* ?y y'" for y'
    using processing_is_stuck [OF that, of "''e''"] demo_crash by simp
  with r demo_crash(1) show ?thesis by blast
qed

text \<open>
  An owner key that does not decode stops the payouts: when a worker reaches such an event the transaction code
  panics, the worker is gone for good, and the event stays in processing with nothing sent.
\<close>
theorem invalid_owner_panics:
  assumes "GetBackendPrivateKey L key \<noteq> None" "sl_pubkey L (ev_RunnerPubkey e) = None"
  shows "worker_run L key (ve # ves) (Marked e es, s) = (Crashed, s)"
proof -
  have "worker_run L key ves (Crashed, s) = (Crashed, s)" by (induction ves) simp_all
  then show ?thesis
    using executeRewardTx_invalid_owner [OF assms] by (simp add: send_reward_def)
qed

theorem invalid_owner_panics_witness:
  "worker_run demo_lib ''key'' [demo_step_env Delivered, demo_step_env Delivered]
     (Marked \<lparr>ev_ID = ''e'', ev_RunnerPubkey = [], ev_Amount = 10\<rparr> [], sm_state (demo_system 1 []))
   = (Crashed, sm_state (demo_system 1 []))"
  by (rule invalid_owner_panics) (simp_all add: demo_lib_def GetBackendPrivateKey_def)

text \<open>
  C13. The machine is the loop: for every batch and whatever each event meets, some run of at most three steps an event
  takes a worker through the batch to the state that the loop body of the source computes, done with the
  batch or crashed as the loop body says.
\<close>
theorem machine_runs_loop:
  "\<exists>ves. length ves \<le> 3 * length es \<and>
     worker_run L key ves (Batch (map snd es), s) =
       (let (s', alive) = process_batch L key es s in (if alive then Batch [] else Crashed, s'))"
  by (rule batch_as_steps)

text \<open>
  C35. A round ends: whatever the database and the chain do, a worker is done with a batch of \<open>n\<close> events, or has
  crashed, within \<open>3n + 1\<close> of its steps.
\<close>
theorem round_terminates:
  assumes "3 * length es + 1 \<le> length ves"
  shows "\<exists>k \<le> length ves. fst (worker_run L key (take k ves) (Batch es, s)) \<in> {Idle, Crashed}"
  using work_ends [of "Batch es" ves] assms by simp

theorem round_terminates_witness:
  "\<exists>k \<le> 4. fst (worker_run demo_lib ''key'' (take k (replicate 4 (demo_step_env ReplyLost)))
     (Batch [\<lparr>ev_ID = ''e'', ev_RunnerPubkey = ''r'', ev_Amount = 10\<rparr>], sm_state (demo_system 1 ''r'')))
     \<in> {Idle, Crashed}"
  using round_terminates [of "[\<lparr>ev_ID = ''e'', ev_RunnerPubkey = ''r'', ev_Amount = 10\<rparr>]"
    "replicate 4 (demo_step_env ReplyLost)"] by simp

text \<open>
  No schema serves the whole repository: with the table of \<^verbatim>\<open>solana.sql\<close> neither a sync can be recorded nor finalised,
  with that of \<^verbatim>\<open>schema.sql\<close> nothing pending can be fetched and no status set; a failed statement changes nothing.
\<close>
theorem no_schema_serves_all:
  "case tbl of
     SolanaSql es \<Rightarrow> (\<exists>e. RecordSync now f runner tx amt tbl = (tbl, Inl e))
       \<and> (\<exists>e. FinalizeSync now net runner tx amt (tbl, db) = ((tbl, db), Inl e))
   | SchemaSql ls \<Rightarrow> (\<exists>e. FetchPending up rows limit tbl = Inl e) \<and> (\<exists>e. MarkProcessing f i tbl = (tbl, Inl e))
       \<and> (\<exists>e. MarkDone now f i tx tbl = (tbl, Inl e)) \<and> (\<exists>e. MarkPendingAgain now f i tbl = (tbl, Inl e))"
  by (cases up; cases "fn_log net")
     (auto simp: RecordSync_def FinalizeSync_def insert_log_def FetchPending_def MarkProcessing_def
       MarkDone_def MarkPendingAgain_def sync_exec_def split: sync_table.splits)

end
