(* ===== verification/Application.thy ===== *)
theory Application
  imports Http Partitions SyncEvents
begin

text \<open>
  Configuration and start-up: \<^verbatim>\<open>config/env/env.go\<close>, \<^verbatim>\<open>app/application.go\<close>, \<^verbatim>\<open>workers/sync_cron.go\<close>. The environment, after the
  \<^verbatim>\<open>.env\<close> file was merged into it, is a function from names to values that is empty where a variable is not set;
  connecting to the database, Redis and RabbitMQ is a parameter.
\<close>

subsection \<open>env.go\<close>

record Config =
  cf_Port :: string
  cf_DatabaseURL :: string
  cf_RedisAddr :: string
  cf_UptashRedisAddr :: string
  cf_RedisPassword :: string
  cf_RedisDB :: int
  cf_RabbitMQURL :: string
  cf_CloudRabbitMQURL :: string
  cf_JWTSecret :: string
  cf_SolanaRPCURL :: string
  cf_BackendPrivateKeyHex :: string
  cf_programID :: string
  cf_GRPCPort :: string
  cf_RewardThreshold :: float64

text \<open>What ends the process.\<close>

datatype fatal = MissingVariable string | InvalidPrivateKey

definition getEnv :: "(string \<Rightarrow> string) \<Rightarrow> string \<Rightarrow> string \<Rightarrow> string" where
  "getEnv ge key fallback = (let v = ge key in if v \<noteq> [] then v else fallback)"

definition mustGetEnv :: "(string \<Rightarrow> string) \<Rightarrow> string \<Rightarrow> fatal + string" where
  "mustGetEnv ge key = (let v = ge key in if v = [] then Inl (MissingVariable key) else Inr v)"

definition and_then :: "'e + 'a \<Rightarrow> ('a \<Rightarrow> 'e + 'b) \<Rightarrow> 'e + 'b" where
  "and_then m f = (case m of Inl e \<Rightarrow> Inl e | Inr x \<Rightarrow> f x)"

text \<open>
  The fields are evaluated in the order of the literal. \<open>atoi\<close> and \<open>parse_float\<close> are \<^verbatim>\<open>strconv\<close>'s functions with their errors
  dropped, as the source drops them.
\<close>

definition Load ::
  "solana_lib \<Rightarrow> (string \<Rightarrow> int) \<Rightarrow> (string \<Rightarrow> float64) \<Rightarrow> (string \<Rightarrow> string) \<Rightarrow> fatal + Config" where
  "Load L atoi parse_float ge =
     (let redisDB = atoi (getEnv ge ''REDIS_DB'' ''0'');
          threshold = parse_float (getEnv ge ''REWARD_THRESHOLD'' ''10.0'')
      in and_then (mustGetEnv ge ''DATABASE_URL'') (\<lambda>databaseURL.
         and_then (mustGetEnv ge ''UPTASH_REDIS_ADDRESS'') (\<lambda>uptash.
         and_then (mustGetEnv ge ''RABBITMQ_URL'') (\<lambda>rabbit.
         and_then (mustGetEnv ge ''CLOUD_RABBITMQ_URL'') (\<lambda>cloudRabbit.
         and_then (mustGetEnv ge ''JWT_SECRET'') (\<lambda>jwtSecret.
         and_then (mustGetEnv ge ''SOLANA_RPC_URL'') (\<lambda>rpcURL.
         and_then (mustGetEnv ge ''BACKEND_PRIVATE_KEY_HEX'') (\<lambda>privateKey.
         and_then (mustGetEnv ge ''PROGRAM_ID'') (\<lambda>program.
           if GetBackendPrivateKey L privateKey = None then Inl InvalidPrivateKey
           else Inr \<lparr>cf_Port = getEnv ge ''PORT'' ''8080'', cf_DatabaseURL = databaseURL,
                     cf_RedisAddr = getEnv ge ''REDIS_ADDR'' ''localhost:6379'', cf_UptashRedisAddr = uptash,
                     cf_RedisPassword = getEnv ge ''REDIS_PASSWORD'' [], cf_RedisDB = redisDB,
                     cf_RabbitMQURL = rabbit, cf_CloudRabbitMQURL = cloudRabbit, cf_JWTSecret = jwtSecret,
                     cf_SolanaRPCURL = rpcURL, cf_BackendPrivateKeyHex = privateKey, cf_programID = program,
                     cf_GRPCPort = getEnv ge ''GRPC_PORT'' ''50051'', cf_RewardThreshold = threshold\<rparr>)))))))))"

definition required :: "string list" where
  "required = [''DATABASE_URL'', ''UPTASH_REDIS_ADDRESS'', ''RABBITMQ_URL'', ''CLOUD_RABBITMQ_URL'', ''JWT_SECRET'',
     ''SOLANA_RPC_URL'', ''BACKEND_PRIVATE_KEY_HEX'', ''PROGRAM_ID'']"

subsection \<open>application.go\<close>

datatype pool_error = ParseConfigFailed | CreatePoolFailed | PingFailed

datatype boot_error =
    PoolFailed pool_error
  | RedisURLFailed
  | RedisPingFailed
  | DialFailed
  | ChannelFailed
  | DeclareFailed
  | BootstrapFailed db_error
  | GrpcChannelFatal
  | GrpcDeclareFatal
  | SchedulerChannelFatal

datatype worker_name = SchedulerWorker | ResultProcessor | SolanaSyncWorker | PartitionCron | SyncCron

text \<open>The calls of \<^verbatim>\<open>declareQueues\<close> in order, each of which may fail and end it.\<close>

definition declare_calls :: "(topology \<Rightarrow> topology) list" where
  "declare_calls =
     map QueueDeclare [''job_queue'', ''processing_queue'', ''solana_sync_queue'', ''telegram_queue'']
     @ [ExchangeDeclare ''monitor_updates'']
     @ map (\<lambda>q. QueueBind q ''monitor_updates'') [''processing_queue'', ''telegram_queue'']"

fun run_calls :: "(nat \<Rightarrow> fate) \<Rightarrow> nat \<Rightarrow> ('t \<Rightarrow> 't) list \<Rightarrow> 't \<Rightarrow> 't \<times> bool" where
  "run_calls fates i [] t = (t, True)"
| "run_calls fates i (c # cs) t =
     (case fates i of
        Delivered \<Rightarrow> run_calls fates (Suc i) cs (c t)
      | RequestLost \<Rightarrow> (t, False)
      | ReplyLost \<Rightarrow> (c t, False))"

text \<open>\<^verbatim>\<open>NewPool\<close> of \<^verbatim>\<open>config/db/db.go\<close> sets five options of the pool and pings the database.\<close>

record pool_config =
  pc_MaxConns :: nat
  pc_MinConns :: nat
  pc_MaxConnLifetime :: duration
  pc_MaxConnIdleTime :: duration
  pc_HealthCheckPeriod :: duration

definition NewPool :: "bool \<Rightarrow> bool \<Rightarrow> bool \<Rightarrow> pool_error + pool_config" where
  "NewPool parsed created pinged =
     (if \<not> parsed then Inl ParseConfigFailed
      else
        (let cfg = \<lparr>pc_MaxConns = 30, pc_MinConns = 5, pc_MaxConnLifetime = 30 * minute,
                    pc_MaxConnIdleTime = 5 * minute, pc_HealthCheckPeriod = minute\<rparr>
         in if \<not> created then Inl CreatePoolFailed
            else if \<not> pinged then Inl PingFailed
            else Inr cfg))"

text \<open>
  \<^verbatim>\<open>NewServer\<close> of \<^verbatim>\<open>grpc/server.go\<close>: a channel, the declarations that the server needs once more, and a server without
  miners whose bridge consumes the job queue. A failure ends the process.
\<close>

definition server_calls :: "(topology \<Rightarrow> topology) list" where
  "server_calls = map QueueDeclare [''job_queue'', ''processing_queue''] @ [ExchangeDeclare ''monitor_updates'']"

definition NewServer ::
  "bool \<Rightarrow> (nat \<Rightarrow> fate) \<Rightarrow> topology \<Rightarrow> topology \<times> (boot_error + (pubkey \<Rightarrow> connectedMiner option))" where
  "NewServer channel fates t =
     (if \<not> channel then (t, Inl GrpcChannelFatal)
      else
        (case run_calls fates 0 server_calls t of
           (t', False) \<Rightarrow> (t', Inl GrpcDeclareFatal)
         | (t', True) \<Rightarrow> (t', Inr Map.empty)))"

record boot_env =
  bo_parse :: bool
  bo_create :: bool
  bo_pool_ping :: bool
  bo_redis_url :: bool
  bo_ping :: bool
  bo_dial :: bool
  bo_channel :: bool
  bo_declare :: "nat \<Rightarrow> fate"
  bo_find :: bool
  bo_seed :: "string \<Rightarrow> fate"
  bo_clock :: "string \<Rightarrow> instant"
  bo_grpc_channel :: bool
  bo_grpc_declare :: "nat \<Rightarrow> fate"
  bo_sched_channel :: bool

text \<open>The systems outside, as far as the boot changes them, and the process.\<close>

record 's backends =
  bk_topology :: topology
  bk_rdb :: 's
  bk_workers :: "worker_name list"
  bk_registry :: "MemoryRegistry option"
  bk_miners :: "(pubkey \<Rightarrow> connectedMiner option) option"

definition New ::
  "'s redis \<Rightarrow> boot_env \<Rightarrow> db \<Rightarrow> 's backends \<Rightarrow> 's backends \<times> (boot_error + unit)" where
  "New R be db b =
     (case NewPool (bo_parse be) (bo_create be) (bo_pool_ping be) of
        Inl e \<Rightarrow> (b, Inl (PoolFailed e))
      | Inr _ \<Rightarrow>
      if \<not> bo_redis_url be then (b, Inl RedisURLFailed)
      else if \<not> bo_ping be then (b, Inl RedisPingFailed)
      else if \<not> bo_dial be then (b, Inl DialFailed)
      else if \<not> bo_channel be then (b, Inl ChannelFailed)
      else
        (case run_calls (bo_declare be) 0 declare_calls (bk_topology b) of
           (t, False) \<Rightarrow> (b\<lparr>bk_topology := t\<rparr>, Inl DeclareFailed)
         | (t, True) \<Rightarrow>
             (case SyncSchedulerState R (bo_find be) (bo_seed be) (bo_clock be) db (bk_rdb b) of
                (rdb', Inl e) \<Rightarrow> (b\<lparr>bk_topology := t, bk_rdb := rdb'\<rparr>, Inl (BootstrapFailed e))
              | (rdb', Inr _) \<Rightarrow>
                  (case NewServer (bo_grpc_channel be) (bo_grpc_declare be) t of
                     (t', Inl e) \<Rightarrow> (b\<lparr>bk_topology := t', bk_rdb := rdb'\<rparr>, Inl e)
                   | (t', Inr miners) \<Rightarrow>
                       if \<not> bo_sched_channel be
                       then (b\<lparr>bk_topology := t', bk_rdb := rdb'\<rparr>, Inl SchedulerChannelFatal)
                       else
                         (b\<lparr>bk_topology := t', bk_rdb := rdb', bk_registry := Some NewMemoryRegistry,
                            bk_miners := Some miners,
                            bk_workers := [SchedulerWorker, ResultProcessor, SolanaSyncWorker, PartitionCron, SyncCron]\<rparr>,
                          Inr ())))))"

text \<open>
  \<^verbatim>\<open>Run\<close>: the HTTP server is built but the code that would start it is commented out. The select takes the first of an error of
  the gRPC server and a signal; at a signal both servers are shut down.
\<close>

datatype server = GrpcServer | HttpServer
datatype run_event = ListenFailed | ServeFailed | Signalled
datatype run_error = GrpcListener | GrpcServe | HttpShutdown

definition started_servers :: "server list" where
  "started_servers = [GrpcServer]"

definition Run :: "run_event \<Rightarrow> bool \<Rightarrow> run_error + unit" where
  "Run ev shutdown_ok =
     (case ev of
        ListenFailed \<Rightarrow> Inl GrpcListener
      | ServeFailed \<Rightarrow> Inl GrpcServe
      | Signalled \<Rightarrow> if shutdown_ok then Inr () else Inl HttpShutdown)"

text \<open>\<^verbatim>\<open>main.go\<close>: every failure ends the process with its reason.\<close>

datatype exit = ConfigFatal fatal | InitFatal boot_error | RunFatal run_error | Stopped

definition main ::
  "solana_lib \<Rightarrow> (string \<Rightarrow> int) \<Rightarrow> (string \<Rightarrow> float64) \<Rightarrow> (string \<Rightarrow> string) \<Rightarrow> 's redis \<Rightarrow> boot_env \<Rightarrow> db \<Rightarrow>
   run_event \<Rightarrow> bool \<Rightarrow> 's backends \<Rightarrow> 's backends \<times> exit" where
  "main L atoi parse_float ge R be db ev shutdown_ok b =
     (case Load L atoi parse_float ge of
        Inl e \<Rightarrow> (b, ConfigFatal e)
      | Inr _ \<Rightarrow>
          (case New R be db b of
             (b', Inl e) \<Rightarrow> (b', InitFatal e)
           | (b', Inr _) \<Rightarrow>
               (case Run ev shutdown_ok of Inl e \<Rightarrow> (b', RunFatal e) | Inr _ \<Rightarrow> (b', Stopped))))"

text \<open>The ticks of \<^verbatim>\<open>StartSyncCron\<close>, five minutes apart; an error is only logged.\<close>

record sync_tick =
  tk_find :: bool
  tk_seed :: "string \<Rightarrow> fate"
  tk_clock :: "string \<Rightarrow> instant"
  tk_db :: db

definition sync_cron :: "'s redis \<Rightarrow> sync_tick list \<Rightarrow> 's \<Rightarrow> 's" where
  "sync_cron R ticks rdb =
     fold (\<lambda>k s. fst (SyncSchedulerState R (tk_find k) (tk_seed k) (tk_clock k) (tk_db k) s)) ticks rdb"

subsection \<open>Facts\<close>

lemma mustGetEnv_cases: "mustGetEnv ge k = (if ge k = [] then Inl (MissingVariable k) else Inr (ge k))"
  by (simp add: mustGetEnv_def Let_def)

lemma and_then_simps [simp]: "and_then (Inl e) f = Inl e" "and_then (Inr x) f = f x"
  by (simp_all add: and_then_def)

lemma and_then_must: "and_then (mustGetEnv ge k) f = (if ge k = [] then Inl (MissingVariable k) else f (ge k))"
  by (simp add: mustGetEnv_cases)

lemma run_calls_delivered: "\<forall>i. fates i = Delivered \<Longrightarrow> run_calls fates i cs t = (fold id cs t, True)"
  by (induction cs arbitrary: i t) simp_all

lemma run_calls_True: "run_calls fates i cs t = (t', True) \<Longrightarrow> t' = fold id cs t"
  by (induction cs arbitrary: i t) (auto split: fate.splits)

lemma run_calls_fails:
  "j < length cs \<Longrightarrow> fates (i + j) \<noteq> Delivered \<Longrightarrow> \<not> snd (run_calls fates i cs t)"
proof (induction cs arbitrary: i j t)
  case (Cons c cs)
  show ?case
  proof (cases "fates i = Delivered")
    case True
    with Cons.prems obtain j' where "j = Suc j'" by (cases j) auto
    with Cons.IH [of j' "Suc i" "c t"] Cons.prems True show ?thesis by simp
  next
    case False
    then show ?thesis by (cases "fates i") simp_all
  qed
qed simp

lemma declare_calls_fold: "fold id declare_calls t = declareQueues t"
  by (simp add: declare_calls_def declareQueues_def)

text \<open>The server declares nothing that is not there already.\<close>

lemma server_calls_fold: "fold id server_calls (declareQueues t) = declareQueues t"
  by (simp add: server_calls_def declareQueues_def topology_simps)

lemma NewServer_Inr: "NewServer c fates t = (t', Inr miners) \<Longrightarrow> t' = fold id server_calls t \<and> miners = Map.empty"
  using run_calls_True by (auto simp: NewServer_def split: if_splits prod.splits bool.splits)

context redis_server begin

text \<open>A synchronisation that succeeds has put every eligible monitor into the set.\<close>

lemma sync_succeeds:
  assumes "SyncSchedulerState R up fates clock db s = (s', Inr ())"
  shows "eligible db m \<Longrightarrow> zset s' due_key (sched_member (m_ID m)) \<noteq> None"
    and "zset s due_key k = Some x \<Longrightarrow> zset s' due_key k = Some x"
proof -
  obtain ms where ms: "FindActive up db = Inr ms"
    using assms by (auto simp: SyncSchedulerState_def split: sum.splits)
  define F where "F \<phi> = fold (\<lambda>m s. fst (remote (\<phi> (m_ID m))
      (\<lambda>s. (rZADDNX R due_key (Unix (clock (m_ID m))) (sched_member (m_ID m)) s, ())) s)) ms s" for \<phi>
  have ok: "list_all (\<lambda>m. fates (m_ID m) = Delivered) ms" and s': "s' = F fates"
    using assms ms by (auto simp: SyncSchedulerState_def F_def split: if_splits)
  have "F fates = F (\<lambda>_. Delivered)"
    unfolding F_def by (rule fold_cong) (use ok in \<open>auto simp: list_all_iff\<close>)
  then have sc: "zset s' due_key k = (case zset s due_key k of Some x \<Rightarrow> Some x
      | None \<Rightarrow> if \<exists>m \<in> set ms. k = sched_member (m_ID m) then Some (Unix (clock (trim_prefix sched_prefix k))) else None)" for k
    unfolding s' using seed_scores [of "\<lambda>_. Delivered" clock ms s k] by (simp add: F_def)
  show "zset s due_key k = Some x \<Longrightarrow> zset s' due_key k = Some x" by (simp add: sc)
  assume "eligible db m"
  then have m: "\<exists>m' \<in> set ms. sched_member (m_ID m) = sched_member (m_ID m')"
    using FindActive_Inr [OF ms] by blast
  show "zset s' due_key (sched_member (m_ID m)) \<noteq> None"
    unfolding sc if_P [OF m] by (cases "zset s due_key (sched_member (m_ID m))") simp_all
qed

end

subsection \<open>Properties\<close>

text \<open>
  Configuration: loading succeeds exactly when every required variable is set and the private key decodes to 64 bytes, and then
  the settings are the variables; otherwise the process ends, naming the first required variable that is missing.
\<close>
theorem configuration_loads:
  "case Load L atoi parse_float ge of
     Inr cfg \<Rightarrow> find (\<lambda>k. ge k = []) required = None \<and> GetBackendPrivateKey L (cf_BackendPrivateKeyHex cfg) \<noteq> None
       \<and> cf_DatabaseURL cfg = ge ''DATABASE_URL'' \<and> cf_UptashRedisAddr cfg = ge ''UPTASH_REDIS_ADDRESS''
       \<and> cf_CloudRabbitMQURL cfg = ge ''CLOUD_RABBITMQ_URL'' \<and> cf_JWTSecret cfg = ge ''JWT_SECRET''
       \<and> cf_SolanaRPCURL cfg = ge ''SOLANA_RPC_URL'' \<and> cf_BackendPrivateKeyHex cfg = ge ''BACKEND_PRIVATE_KEY_HEX''
       \<and> cf_Port cfg \<noteq> [] \<and> cf_GRPCPort cfg \<noteq> []
   | Inl (MissingVariable k) \<Rightarrow> find (\<lambda>k. ge k = []) required = Some k
   | Inl InvalidPrivateKey \<Rightarrow> find (\<lambda>k. ge k = []) required = None
       \<and> GetBackendPrivateKey L (ge ''BACKEND_PRIVATE_KEY_HEX'') = None"
proof -
  let ?r = "Load L atoi parse_float ge"
  let ?cfg = "\<lparr>cf_Port = getEnv ge ''PORT'' ''8080'', cf_DatabaseURL = ge ''DATABASE_URL'',
     cf_RedisAddr = getEnv ge ''REDIS_ADDR'' ''localhost:6379'', cf_UptashRedisAddr = ge ''UPTASH_REDIS_ADDRESS'',
     cf_RedisPassword = getEnv ge ''REDIS_PASSWORD'' [], cf_RedisDB = atoi (getEnv ge ''REDIS_DB'' ''0''),
     cf_RabbitMQURL = ge ''RABBITMQ_URL'', cf_CloudRabbitMQURL = ge ''CLOUD_RABBITMQ_URL'', cf_JWTSecret = ge ''JWT_SECRET'',
     cf_SolanaRPCURL = ge ''SOLANA_RPC_URL'', cf_BackendPrivateKeyHex = ge ''BACKEND_PRIVATE_KEY_HEX'',
     cf_programID = ge ''PROGRAM_ID'', cf_GRPCPort = getEnv ge ''GRPC_PORT'' ''50051'',
     cf_RewardThreshold = parse_float (getEnv ge ''REWARD_THRESHOLD'' ''10.0'')\<rparr>"
  have load: "?r = (case find (\<lambda>k. ge k = []) required of Some k \<Rightarrow> Inl (MissingVariable k)
      | None \<Rightarrow> if GetBackendPrivateKey L (ge ''BACKEND_PRIVATE_KEY_HEX'') = None then Inl InvalidPrivateKey else Inr ?cfg)"
    unfolding Load_def Let_def and_then_must required_def find.simps
    by (simp only: if_distrib [of "case_option _ _"] option.case)
  show ?thesis
  proof (cases "find (\<lambda>k. ge k = []) required")
    case (Some k)
    then show ?thesis unfolding load by simp
  next
    case None
    then show ?thesis
      unfolding load by (cases "GetBackendPrivateKey L (ge ''BACKEND_PRIVATE_KEY_HEX'') = None") (simp_all add: getEnv_def Let_def)
  qed
qed

text \<open>
  C38. A boot is all or nothing: when it succeeds the queues are declared, every monitor that may run is scheduled and none that was
  scheduled lost its time, no node is online, no miner is connected and all five workers run; when it fails no worker has been
  started.
\<close>
theorem boot_ready:
  assumes "redis_server R str zset" "New R be db b = (b', r)"
  shows "(r \<noteq> Inr () \<longrightarrow> bk_workers b' = bk_workers b \<and> bk_registry b' = bk_registry b \<and> bk_miners b' = bk_miners b)
    \<and> (r = Inr () \<longrightarrow> bk_topology b' = declareQueues (bk_topology b)
        \<and> (\<forall>m. eligible db m \<longrightarrow> zset (bk_rdb b') due_key (sched_member (m_ID m)) \<noteq> None)
        \<and> (\<forall>k x. zset (bk_rdb b) due_key k = Some x \<longrightarrow> zset (bk_rdb b') due_key k = Some x)
        \<and> (\<exists>reg. bk_registry b' = Some reg \<and> (\<forall>t. onlineKeys t reg = {}))
        \<and> bk_miners b' = Some Map.empty
        \<and> set (bk_workers b') = {SchedulerWorker, ResultProcessor, SolanaSyncWorker, PartitionCron, SyncCron})"
proof (cases "r = Inr ()")
  case False
  with assms(2) show ?thesis
    by (auto simp: New_def split: if_splits prod.splits bool.splits sum.splits)
next
  case True
  obtain t ok where t: "run_calls (bo_declare be) 0 declare_calls (bk_topology b) = (t, ok)" by fastforce
  obtain rdb' x where s: "SyncSchedulerState R (bo_find be) (bo_seed be) (bo_clock be) db (bk_rdb b) = (rdb', x)" by fastforce
  obtain t' y where n: "NewServer (bo_grpc_channel be) (bo_grpc_declare be) t = (t', y)" by fastforce
  from True assms(2) t s n obtain miners where ok: "ok" "x = Inr ()" "y = Inr miners"
    and b': "b' = b\<lparr>bk_topology := t', bk_rdb := rdb', bk_registry := Some NewMemoryRegistry, bk_miners := Some miners,
      bk_workers := [SchedulerWorker, ResultProcessor, SolanaSyncWorker, PartitionCron, SyncCron]\<rparr>"
    by (auto simp: New_def split: if_splits bool.splits sum.splits)
  have "t = declareQueues (bk_topology b)"
    using run_calls_True [OF t [unfolded ok(1) [THEN eqTrueI]]] by (simp only: declare_calls_fold)
  with NewServer_Inr [OF n [unfolded ok(3)]] have "t' = declareQueues (bk_topology b)" "miners = Map.empty"
    by (simp_all add: server_calls_fold)
  moreover note sy = redis_server.sync_succeeds [OF assms(1) s [unfolded ok(2)]]
  moreover have "onlineKeys u NewMemoryRegistry = {}" for u by (simp add: onlineKeys_def NewMemoryRegistry_def)
  ultimately show ?thesis using True by (simp add: b')
qed

definition demo_boot :: boot_env where
  "demo_boot = \<lparr>bo_parse = True, bo_create = True, bo_pool_ping = True, bo_redis_url = True, bo_ping = True, bo_dial = True, bo_channel = True,
     bo_declare = (\<lambda>_. Delivered), bo_find = True, bo_seed = (\<lambda>_. Delivered), bo_clock = (\<lambda>_. 0),
     bo_grpc_channel = True, bo_grpc_declare = (\<lambda>_. Delivered), bo_sched_channel = True\<rparr>"

definition demo_backends :: "ref_state backends" where
  "demo_backends = \<lparr>bk_topology = \<lparr>tp_queues = [], tp_fanouts = [], tp_bindings = []\<rparr>, bk_rdb = ref_empty, bk_workers = [],
     bk_registry = None, bk_miners = None\<rparr>"

theorem boot_ready_witness:
  "\<exists>b'. New ref_redis demo_boot (demo_db 3 20 0) demo_backends = (b', Inr ())
     \<and> ref_zset (bk_rdb b') due_key (sched_member ''m'') \<noteq> None
     \<and> (\<exists>e b''. New ref_redis (demo_boot\<lparr>bo_declare := (\<lambda>i. if i = 5 then ReplyLost else Delivered)\<rparr>) (demo_db 3 20 0) demo_backends = (b'', Inl e)
          \<and> bk_workers b'' = [])"
proof -
  obtain b' r where r: "New ref_redis demo_boot (demo_db 3 20 0) demo_backends = (b', r)" by fastforce
  have d: "run_calls (\<lambda>_. Delivered) 0 declare_calls t = (declareQueues t, True)" for t
    by (simp add: run_calls_delivered declare_calls_fold)
  have d': "run_calls (\<lambda>_. Delivered) 0 server_calls (declareQueues t) = (declareQueues t, True)" for t
    by (simp add: run_calls_delivered server_calls_fold)
  have "r = Inr ()"
    using r by (simp add: New_def demo_boot_def d d' NewPool_def NewServer_def SyncSchedulerState_def FindActive_def list_all_iff)
  moreover have "eligible (demo_db 3 20 0) demo_due" "m_ID demo_due = ''m''"
    by (simp_all add: eligible_def demo_db_def demo_due_def owner_has_credit_def demo_monitor_row_def demo_user_def)
  ultimately have 1: "New ref_redis demo_boot (demo_db 3 20 0) demo_backends = (b', Inr ())"
      "ref_zset (bk_rdb b') due_key (sched_member ''m'') \<noteq> None"
    using boot_ready [OF ref_server r] r by auto
  define be where "be = demo_boot\<lparr>bo_declare := (\<lambda>i. if i = 5 then ReplyLost else Delivered)\<rparr>"
  obtain b'' r' where r': "New ref_redis be (demo_db 3 20 0) demo_backends = (b'', r')" by fastforce
  obtain t ok where rc: "run_calls (bo_declare be) 0 declare_calls (bk_topology demo_backends) = (t, ok)" by fastforce
  have "\<not> snd (run_calls (bo_declare be) 0 declare_calls (bk_topology demo_backends))"
    by (rule run_calls_fails [of 5]) (simp_all add: declare_calls_def be_def)
  with rc have "\<not> ok" by simp
  moreover have "bo_parse be" "bo_create be" "bo_pool_ping be" "bo_redis_url be" "bo_ping be" "bo_dial be" "bo_channel be"
    by (simp_all add: be_def demo_boot_def)
  ultimately have "r' = Inl DeclareFailed"
    using r' rc by (simp add: New_def NewPool_def)
  with boot_ready [OF ref_server r'] have "bk_workers b'' = []" by (simp add: demo_backends_def)
  with 1 r' [unfolded be_def] \<open>r' = Inl DeclareFailed\<close> show ?thesis by blast
qed

end
