(* ===== verification/Workers.thy ===== *)
theory Workers
  imports Scheduler PingLogs "HOL-Library.Sublist"
begin

text \<open>
  The loops around the scheduler's tick and the processor's deliveries: \<^verbatim>\<open>StartScheduler\<close> of \<^verbatim>\<open>workers/schedular.go\<close> and
  \<^verbatim>\<open>StartResultProcessor\<close> of \<^verbatim>\<open>workers/result_processor.go\<close>. A loop takes the list of what its rounds meet; the tables and the
  registry are those of the moment of each tick.
\<close>

subsection \<open>StartScheduler\<close>

record sched_tick =
  sk_time :: instant
  sk_env :: tick_env
  sk_db :: db
  sk_reg :: MemoryRegistry

text \<open>\<open>None\<close> when the process ended because the channel could not be opened; an error of a tick is only logged.\<close>

definition run_ticks ::
  "'s redis \<Rightarrow> (string \<Rightarrow> string option) \<Rightarrow> (string \<Rightarrow> string option) \<Rightarrow> sched_tick list \<Rightarrow> 's tick_state \<Rightarrow> 's tick_state" where
  "run_ticks R hostname uuid_in ticks =
     fold (\<lambda>k st. fst (scheduleTick R hostname uuid_in (sk_time k) (sk_env k) (sk_db k) (sk_reg k) st)) ticks"

definition StartScheduler ::
  "'s redis \<Rightarrow> (string \<Rightarrow> string option) \<Rightarrow> (string \<Rightarrow> string option) \<Rightarrow> bool \<Rightarrow> sched_tick list \<Rightarrow> 's \<Rightarrow> connection \<Rightarrow>
   's tick_state option" where
  "StartScheduler R hostname uuid_in opens ticks rdb conn =
     (case newSchedulerAMQP opens conn of
        (_, None) \<Rightarrow> None
      | (amqp, Some _) \<Rightarrow>
          Some (run_ticks R hostname uuid_in ticks \<lparr>ts_rdb = rdb, ts_cursors = (\<lambda>_. 0), ts_amqp = amqp\<rparr>))"

subsection \<open>StartResultProcessor\<close>




















subsection \<open>A monitor's entry through the ticks\<close>

context redis_server begin

lemma remote_zadd_keeps:
  "zset s due_key k \<noteq> None \<Longrightarrow> zset (fst (remote f (\<lambda>s. (rZADD R due_key x m s, ())) s)) due_key k \<noteq> None"
  by (cases f) (auto simp: redis_simps)

lemma dispatch_keeps:
  assumes "zset (ts_rdb st) due_key k \<noteq> None"
  shows "zset (ts_rdb (dispatch R now de pk m st)) due_key k \<noteq> None"
proof -
  let ?s = "fst (remote (de_zadd de) (\<lambda>s. (rZADD R due_key (now + m_CheckIntervalSeconds m) (sched_member (m_ID m)) s, ())) (ts_rdb st))"
  have "zset ?s due_key k \<noteq> None" using assms by (rule remote_zadd_keeps)
  then show ?thesis
    by (cases "de_set de") (auto simp: dispatch_def Let_def redis_simps)
qed

lemma dispatch_all_keeps:
  "zset (ts_rdb st) due_key k \<noteq> None \<Longrightarrow> zset (ts_rdb (dispatch_all R now env pks asg st)) due_key k \<noteq> None"
  by (induction pks arbitrary: st) (simp_all add: dispatch_keeps del: not_None_eq split: option.split)

lemma back_off_keeps:
  "zset s due_key k \<noteq> None \<Longrightarrow> zset (back_off R now fates done ms s) due_key k \<noteq> None"
  unfolding back_off_def by (induction ms arbitrary: s) (simp_all add: remote_zadd_keeps del: not_None_eq)

lemma remove_ghosts_keeps:
  assumes "k \<in> set due \<Longrightarrow> trim_prefix sched_prefix k \<in> set (map m_ID ms)"
  shows "zset (remove_ghosts R fates due ms s) due_key k = zset s due_key k"
  using assms unfolding remove_ghosts_def
proof (induction due arbitrary: s)
  case (Cons d due)
  have "zset (fst (remote (fates d) (\<lambda>s. (rZREM R due_key d s, ())) s)) due_key k = zset s due_key k" if "d \<noteq> k" for s
    using that by (cases "fates d") (auto simp: redis_simps)
  with Cons show ?case by (cases "d = k") auto
qed simp

lemma tick_keeps:
  assumes "eligible db m" "uuid_in (m_ID m) = Some (m_ID m)"
    and "zset (ts_rdb st) due_key (sched_member (m_ID m)) \<noteq> None"
  shows "zset (ts_rdb (fst (scheduleTick R hostname uuid_in t te db reg st))) due_key (sched_member (m_ID m)) \<noteq> None"
proof (cases "te_range te \<and> due_members R t st \<noteq> []")
  case False
  with assms(3) show ?thesis by (auto simp: scheduleTick_def due_members_def Let_def)
next
  case True
  show ?thesis
  proof (cases "FindMany uuid_in (te_find te) (map (trim_prefix sched_prefix) (due_members R t st)) db")
    case (Inl e)
    with True assms(3) show ?thesis by (simp add: scheduleTick_def due_members_def Let_def)
  next
    case (Inr ms)
    let ?s = "remove_ghosts R (te_ghost te) (due_members R t st) ms (ts_rdb st)"
    have "m \<in> set ms" if "sched_member (m_ID m) \<in> set (due_members R t st)"
    proof -
      from that have "Some (m_ID m) \<in> set (map uuid_in (map (trim_prefix sched_prefix) (due_members R t st)))"
        using assms(2) by (force simp: image_iff)
      with Inr assms(1) show ?thesis
        by (auto simp: FindMany_def query_Inr_iff eligible_def split: if_splits)
    qed
    then have s: "zset ?s due_key (sched_member (m_ID m)) \<noteq> None"
      using assms(3) by (subst remove_ghosts_keeps) auto
    show ?thesis
    proof (cases "ms = []")
      case True
      with s Inr \<open>te_range te \<and> _\<close> show ?thesis by (simp add: scheduleTick_none)
    next
      case False
      obtain cur asg where "MatchBatch hostname (te_order te) t reg (ts_cursors st) ms = (cur, asg)" by fastforce
      with False Inr True s show ?thesis
        by (simp add: scheduleTick_run Let_def back_off_keeps dispatch_all_keeps)
    qed
  qed
qed

lemma ticks_keep:
  assumes "\<forall>k \<in> set ticks. \<exists>m. eligible (sk_db k) m \<and> m_ID m = i" "uuid_in i = Some i"
    and "zset (ts_rdb st) due_key (sched_member i) \<noteq> None"
  shows "zset (ts_rdb (run_ticks R hostname uuid_in ticks st)) due_key (sched_member i) \<noteq> None"
  using assms(1,3) unfolding run_ticks_def
proof (induction ticks arbitrary: st)
  case (Cons k ticks)
  then obtain m where "eligible (sk_db k) m" "m_ID m = i" by auto
  with tick_keeps [of "sk_db k" m uuid_in st hostname "sk_time k" "sk_env k" "sk_reg k"] assms(2) Cons show ?case by simp
qed simp

end

subsection \<open>Properties\<close>

text \<open>
  C22. A monitor stays scheduled: whatever requests are lost, a monitor in the schedule that is eligible at each
  tick, being active, not deleted and paid for, is still in the schedule after the scheduler's ticks.
\<close>
theorem monitor_stays_scheduled:
  assumes "redis_server R str zset"
    and "StartScheduler R hostname uuid_in opens ticks rdb conn = Some st"
    and "\<forall>k \<in> set ticks. \<exists>m. eligible (sk_db k) m \<and> m_ID m = i" "uuid_in i = Some i"
    and "zset rdb due_key (sched_member i) \<noteq> None"
  shows "zset (ts_rdb st) due_key (sched_member i) \<noteq> None"
proof -
  obtain amqp where "st = run_ticks R hostname uuid_in ticks \<lparr>ts_rdb = rdb, ts_cursors = (\<lambda>_. 0), ts_amqp = amqp\<rparr>"
    using assms(2) by (auto simp: StartScheduler_def split: prod.splits option.splits)
  with redis_server.ticks_keep [of R str zset ticks i uuid_in _ hostname] assms(1,3-5) show ?thesis by simp
qed

text \<open>Two ticks that lose every request to Redis and the broker.\<close>

definition lossy_tick :: sched_tick where
  "lossy_tick = \<lparr>sk_time = 0,
     sk_env = demo_tick_env\<lparr>te_ghost := (\<lambda>_. RequestLost), te_back := (\<lambda>_. RequestLost)\<rparr>,
     sk_db = demo_db 3 20 0, sk_reg = demo_registry [''a'']\<rparr>"

theorem monitor_stays_scheduled_witness:
  "\<exists>st. StartScheduler ref_redis demo_host Some True [lossy_tick, lossy_tick] (ts_rdb demo_tick_state)
       \<lparr>opened = 0, sent = []\<rparr> = Some st
     \<and> ref_zset (ts_rdb st) due_key (sched_member ''m'') \<noteq> None"
proof -
  obtain st where st: "StartScheduler ref_redis demo_host Some True [lossy_tick, lossy_tick] (ts_rdb demo_tick_state)
       \<lparr>opened = 0, sent = []\<rparr> = Some st"
    by (simp add: StartScheduler_def newSchedulerAMQP_def reopen_def amqp_open_def)
  have "eligible (demo_db 3 20 0) demo_due" "m_ID demo_due = ''m''"
    by (simp_all add: eligible_def demo_db_def demo_due_def owner_has_credit_def demo_monitor_row_def demo_user_def)
  then have "\<forall>k \<in> set [lossy_tick, lossy_tick]. \<exists>m. eligible (sk_db k) m \<and> m_ID m = ''m''"
    by (auto simp: lossy_tick_def)
  moreover have "ref_zset (ts_rdb demo_tick_state) due_key (sched_member ''m'') \<noteq> None"
    by (simp add: demo_tick_state_def ref.zadd_zset)
  ultimately show ?thesis
    using monitor_stays_scheduled [OF ref_server st] st by blast
qed




end
