(* ===== verification/Pipeline.thy ===== *)
theory Pipeline
  imports Workers Grpc
begin

text \<open>
  The whole path of a job as one system: the scheduler's ticks, the sessions and the bridge of the gRPC server and the
  result processor act on the same tables, Redis, registry, connection and queues, in any order. The other parts of the
  program and the world outside may change Redis, the registry and the tables, except for the runners' accounts.
\<close>

subsection \<open>Accounts\<close>

text \<open>What a runner has: its balance, all it ever earned, and the payouts queued for it.\<close>

definition runner_account :: "pubkey \<Rightarrow> db \<Rightarrow> rat \<times> rat \<times> rat list" where
  "runner_account pk db =
     (let rows = filter (\<lambda>n. r_OwnerPubkey n = pk) (t_runner_nodes db)
      in (sum_list (map r_OffchainAccumulatedTokens rows), sum_list (map r_TotalEarnedTokensAllTime rows),
          queued pk (t_sync_events db)))"

lemma filter_update_where:
  "(\<And>r. P r \<Longrightarrow> Q (f r) = Q r) \<Longrightarrow> filter Q (update_where P f rs) = update_where P f (filter Q rs)"
  by (induction rs) auto

lemma map_filter_update_where:
  "(\<And>r. P r \<Longrightarrow> Q (f r) = Q r) \<Longrightarrow> (\<And>r. P r \<Longrightarrow> g (f r) = g r) \<Longrightarrow>
     map g (filter Q (update_where P f rs)) = map g (filter Q rs)"
  by (induction rs) auto

lemma runner_account_payout:
  assumes "create_payout_event_if_threshold uuid now runner threshold db = Inr (db', p)" "pk \<noteq> runner"
  shows "runner_account pk db' = runner_account pk db"
proof -
  have u: "update_where (\<lambda>n. r_OwnerPubkey n = runner) f (filter (\<lambda>n. r_OwnerPubkey n = pk) ns)
      = filter (\<lambda>n. r_OwnerPubkey n = pk) ns" for f ns
    using assms(2) by (intro update_where_none) auto
  show ?thesis
    using assms by (auto simp: create_payout_event_if_threshold_def runner_account_def Let_def filter_update_where u
        split: list.splits if_splits)
qed

lemma runner_account_charge:
  "deduct_credit c db = Inr db' \<Longrightarrow> runner_account pk db' = runner_account pk db"
  "add_spent c cost db = Inr db' \<Longrightarrow> runner_account pk db' = runner_account pk db"
  by (auto simp: deduct_credit_def add_spent_def runner_account_def Let_def split: if_splits option.splits)

lemma runner_account_statements:
  assumes "settlement_statements uuid_in uuid now threshold net mon runner cost db = Inr (db', res)" "pk \<noteq> runner"
  shows "runner_account pk db' = runner_account pk db"
proof -
  from assms(1) obtain c db1 db2 p where "deduct_credit c db = Inr db1" "add_spent c cost db1 = Inr db2"
    and p: "create_payout_event_if_threshold uuid now runner threshold db2 = Inr (db', p)"
    by (auto simp: settlement_statements_def query_Inr_iff split: option.splits sum.splits prod.splits)
  with runner_account_charge [of c] runner_account_payout [OF p assms(2)] show ?thesis by metis
qed

lemma runner_account_settlement:
  assumes "pk \<noteq> j_runner j"
  shows "runner_account pk (fst (settle_job uuid_in threshold j db)) = runner_account pk db"
proof -
  obtain db' r where s: "settle_job uuid_in threshold j db = (db', r)" by fastforce
  have "runner_account pk db' = runner_account pk db"
    using s [unfolded settle_job_def]
  proof (cases rule: settlement_cases)
    case (committed res)
    from runner_account_statements [OF committed(1) assms] show ?thesis .
  qed simp
  with s show ?thesis by simp
qed

lemma runner_account_settle_all:
  "\<forall>j \<in> set js. j_runner (fst j) \<noteq> pk \<Longrightarrow>
     runner_account pk (fst (settle_all (settle_result uuid_in threshold) js db)) = runner_account pk db"
proof (induction js arbitrary: db)
  case (Cons j js)
  then have "pk \<noteq> j_runner (fst j)" by auto
  with runner_account_settlement have "runner_account pk (fst (settle_result uuid_in threshold j db)) = runner_account pk db"
    unfolding settle_result_def by blast
  moreover from Cons.prems have "\<forall>j \<in> set js. j_runner (fst j) \<noteq> pk" by simp
  from Cons.IH [OF this, of "fst (settle_result uuid_in threshold j db)"]
  have "runner_account pk (fst (settle_all (settle_result uuid_in threshold) (j # js) db))
      = runner_account pk (fst (settle_result uuid_in threshold j db))"
    by (simp only: fst_settle_all)
  ultimately show ?case by simp
qed simp

lemma runner_account_insert: "runner_account pk (fst (BulkInsert uuid_in f logs db)) = runner_account pk db"
  by (cases "List.map_filter (row_error uuid_in db) logs"; cases f) (simp_all add: BulkInsert_def runner_account_def)

lemma runner_account_packet:
  assumes "ProcessPacket uuid_in threshold now env f packet db = (db', r)" "pk \<noteq> rp_RunnerPubkey packet"
  shows "runner_account pk db' = runner_account pk db"
proof -
  obtain d ok where s: "settle_all (settle_result uuid_in threshold) (packet_jobs env packet) db = (d, ok)" by fastforce
  have "\<forall>j \<in> set (packet_jobs env packet). j_runner (fst j) \<noteq> pk"
    using assms(2) by (auto simp: packet_jobs_def)
  from runner_account_settle_all [OF this, of uuid_in threshold db] s
  have d: "runner_account pk d = runner_account pk db" by simp
  have "runner_account pk db' = runner_account pk d"
    using assms(1) s runner_account_insert [of pk uuid_in f "map (\<lambda>(j, r). build_log now (rp_RunnerPubkey packet) r) ok" d]
    by (auto simp: ProcessPacket_def Let_def split: if_splits prod.splits sum.splits)
  with d show ?thesis by simp
qed

lemma runner_account_heartbeat:
  assumes "service_Heartbeat now f up pubkey (db, reg) = ((db', reg'), r)"
  shows "runner_account pk db' = runner_account pk db"
proof -
  have "runner_account pk (fst (UpdateHeartbeat now f pubkey db)) = runner_account pk db"
    by (cases f) (simp_all add: UpdateHeartbeat_def exec_def runner_account_def Let_def map_filter_update_where)
  with assms show ?thesis
    by (auto simp: service_Heartbeat_def split: prod.splits sum.splits)
qed

subsection \<open>The system\<close>

record 's plant =
  pl_world :: "'s world"
  pl_cursors :: cursors
  pl_channel :: "nat option"
  pl_jobs :: "json list"
  pl_results :: "json list"

definition booted :: topology where
  "booted = declareQueues \<lparr>tp_queues = [], tp_fanouts = [], tp_bindings = []\<rparr>"

text \<open>The broker routes what was written to the connection beyond the first \<open>n\<close> messages.\<close>

definition route_new :: "nat \<Rightarrow> 's plant \<Rightarrow> 's plant" where
  "route_new n pl =
     (let new = drop n (sent (g_conn (w_grpc (pl_world pl))));
          arrivals = (\<lambda>q. map msg_body (filter (\<lambda>m. q \<in> set (routed booted m)) new))
      in pl\<lparr>pl_jobs := pl_jobs pl @ arrivals ''job_queue'', pl_results := pl_results pl @ arrivals ''processing_queue''\<rparr>)"

definition set_grpc :: "'s grpc_state \<Rightarrow> 's plant \<Rightarrow> 's plant" where
  "set_grpc g pl = pl\<lparr>pl_world := (pl_world pl)\<lparr>w_grpc := g\<rparr>\<rparr>"

definition tick_view :: "'s plant \<Rightarrow> 's tick_state" where
  "tick_view pl =
     \<lparr>ts_rdb = g_rdb (w_grpc (pl_world pl)), ts_cursors = pl_cursors pl,
      ts_amqp = \<lparr>sa_conn = g_conn (w_grpc (pl_world pl)), sa_ch = pl_channel pl\<rparr>\<rparr>"

text \<open>
  A consumer handles any message of its queue, since deliveries are prefetched; one whose answer is lost or that is refused
  with requeue stays, in any place, and any other answer removes it.
\<close>

definition after_answer :: "ack \<Rightarrow> 'b \<Rightarrow> 'b list \<Rightarrow> 'b list \<Rightarrow> bool" where
  "after_answer a b q q' \<longleftrightarrow> mset q' = mset q \<or> a \<noteq> NackRequeue \<and> mset q' = mset (remove1 b q)"

lemma after_answer_set: "after_answer a b q q' \<Longrightarrow> set q' \<subseteq> set q"
  unfolding after_answer_def by (metis mset_eq_setD order_refl set_remove1_subset)

inductive plant_step ::
  "'s redis \<Rightarrow> (string \<Rightarrow> string \<Rightarrow> string \<Rightarrow> bool) \<Rightarrow> (string \<Rightarrow> string option) \<Rightarrow> (string \<Rightarrow> string option) \<Rightarrow> rat \<Rightarrow>
   's plant \<Rightarrow> 's plant \<Rightarrow> bool"
  for R verify hostname uuid_in threshold
where
  connect: "w = pl_world pl \<Longrightarrow>
    plant_step R verify hostname uuid_in threshold pl
      (pl\<lparr>pl_world := w\<lparr>w_sessions := w_sessions w @ [AwaitRegister]\<rparr>\<rparr>)"
| receive: "w = pl_world pl \<Longrightarrow> i < length (w_sessions w) \<Longrightarrow>
    JobStream_recv R verify se i (w_sessions w ! i) msg (w_grpc w) = (ph', g', out) \<Longrightarrow>
    plant_step R verify hostname uuid_in threshold pl
      (route_new (length (sent (g_conn (w_grpc w))))
        (pl\<lparr>pl_world := \<lparr>w_grpc = g', w_sessions = (w_sessions w)[i := ph'],
            w_log = w_log w @ handshake i (w_sessions w ! i) msg ph'\<rparr>\<rparr>))"
| finish: "w = pl_world pl \<Longrightarrow> i < length (w_sessions w) \<Longrightarrow>
    JobStream_end c (w_sessions w ! i) (w_grpc w) = (ph', g') \<Longrightarrow>
    plant_step R verify hostname uuid_in threshold pl
      (pl\<lparr>pl_world := w\<lparr>w_grpc := g', w_sessions := (w_sessions w)[i := ph']\<rparr>\<rparr>)"
| send: "bridge_send i (w_grpc (pl_world pl)) = (g', out) \<Longrightarrow>
    plant_step R verify hostname uuid_in threshold pl (set_grpc g' pl)"
| consume: "b \<in> set (pl_jobs pl) \<Longrightarrow> ConsumeJob up b (w_grpc (pl_world pl)) = (g', a) \<Longrightarrow>
    after_answer a b (pl_jobs pl) q \<Longrightarrow>
    plant_step R verify hostname uuid_in threshold pl ((set_grpc g' pl)\<lparr>pl_jobs := q\<rparr>)"
| tick: "g = w_grpc (pl_world pl) \<Longrightarrow>
    scheduleTick R hostname uuid_in t te (g_db g) (g_reg g) (tick_view pl) = (st', r) \<Longrightarrow>
    plant_step R verify hostname uuid_in threshold pl
      (route_new (length (sent (g_conn g)))
        ((set_grpc (g\<lparr>g_rdb := ts_rdb st', g_conn := sa_conn (ts_amqp st')\<rparr>) pl)
           \<lparr>pl_cursors := ts_cursors st', pl_channel := sa_ch (ts_amqp st')\<rparr>))"
| settle: "g = w_grpc (pl_world pl) \<Longrightarrow> b \<in> set (pl_results pl) \<Longrightarrow>
    handle_delivery decode_packet uuid_in threshold ce b (g_db g) = (db', a) \<Longrightarrow> after_answer a b (pl_results pl) q \<Longrightarrow>
    plant_step R verify hostname uuid_in threshold pl
      ((set_grpc (g\<lparr>g_db := db'\<rparr>) pl)\<lparr>pl_results := q\<rparr>)"
| environment: "g = w_grpc (pl_world pl) \<Longrightarrow> (\<And>pk. runner_account pk d = runner_account pk (g_db g)) \<Longrightarrow>
    plant_step R verify hostname uuid_in threshold pl (set_grpc (g\<lparr>g_rdb := s, g_db := d, g_reg := reg\<rparr>) pl)"

inductive plant_reach ::
  "'s redis \<Rightarrow> (string \<Rightarrow> string \<Rightarrow> string \<Rightarrow> bool) \<Rightarrow> (string \<Rightarrow> string option) \<Rightarrow> (string \<Rightarrow> string option) \<Rightarrow> rat \<Rightarrow>
   db \<Rightarrow> 's plant \<Rightarrow> bool"
  for R verify hostname uuid_in threshold db0
where
  start: "g_miners g = Map.empty \<Longrightarrow> g_chans g = (\<lambda>_. []) \<Longrightarrow> g_db g = db0 \<Longrightarrow>
    plant_reach R verify hostname uuid_in threshold db0
      \<lparr>pl_world = \<lparr>w_grpc = g, w_sessions = [], w_log = []\<rparr>, pl_cursors = (\<lambda>_. 0), pl_channel = c, pl_jobs = [],
       pl_results = []\<rparr>"
| step: "plant_reach R verify hostname uuid_in threshold db0 pl \<Longrightarrow> plant_step R verify hostname uuid_in threshold pl pl' \<Longrightarrow>
    plant_reach R verify hostname uuid_in threshold db0 pl'"

subsection \<open>What each step adds to the queues\<close>

definition is_job :: "message \<Rightarrow> bool" where
  "is_job m \<longleftrightarrow> msg_exchange m = [] \<and> msg_key m = ''job_queue'' \<and> (\<exists>p. msg_body m = encode_JobPayload p)"

lemma dispatch_all_adds_jobs:
  "\<exists>new. sent (sa_conn (ts_amqp (dispatch_all R now env pks asg st))) = sent (sa_conn (ts_amqp st)) @ new
     \<and> (\<forall>m \<in> set new. is_job m)"
proof (induction pks arbitrary: st)
  case (Cons pk pks)
  show ?case
  proof (cases "asg pk")
    case None
    with Cons show ?thesis by simp
  next
    case (Some m)
    obtain n where n: "sent (sa_conn (ts_amqp (dispatch R now (env pk) pk m st)))
        = sent (sa_conn (ts_amqp st)) @ replicate n (job_message now env pk m)"
      using sent_dispatch [of R now env pk m st] by blast
    obtain new where "sent (sa_conn (ts_amqp (dispatch_all R now env pks asg (dispatch R now (env pk) pk m st))))
        = sent (sa_conn (ts_amqp (dispatch R now (env pk) pk m st))) @ new" "\<forall>m \<in> set new. is_job m"
      using Cons.IH by blast
    then show ?thesis
      by (intro exI [of _ "replicate n (job_message now env pk m) @ new"])
         (auto simp: Some n is_job_def job_message_def)
  qed
qed simp

lemma tick_adds_jobs:
  assumes "scheduleTick R hostname uuid_in t te db reg st = (st', r)"
  shows "\<exists>new. sent (sa_conn (ts_amqp st')) = sent (sa_conn (ts_amqp st)) @ new \<and> (\<forall>m \<in> set new. is_job m)"
proof -
  have "sa_conn (ts_amqp st') = sa_conn (ts_amqp st)
      \<or> (\<exists>s c asg. sa_conn (ts_amqp st') = sa_conn (ts_amqp (dispatch_all R (Unix t) (te_dispatch te) (te_assigned te) asg
           (st\<lparr>ts_rdb := s, ts_cursors := c\<rparr>))))"
    using assms by (auto simp: scheduleTick_def Let_def split: if_splits sum.splits prod.splits) blast
  then show ?thesis
  proof
    assume "\<exists>s c asg. sa_conn (ts_amqp st') = sa_conn (ts_amqp (dispatch_all R (Unix t) (te_dispatch te) (te_assigned te) asg
           (st\<lparr>ts_rdb := s, ts_cursors := c\<rparr>)))"
    then obtain s c asg where "sa_conn (ts_amqp st') = sa_conn (ts_amqp (dispatch_all R (Unix t) (te_dispatch te) (te_assigned te) asg
           (st\<lparr>ts_rdb := s, ts_cursors := c\<rparr>)))" by blast
    with dispatch_all_adds_jobs [of R "Unix t" "te_dispatch te" "te_assigned te" asg "st\<lparr>ts_rdb := s, ts_cursors := c\<rparr>"]
    show ?thesis by simp
  qed simp
qed

text \<open>What a session may publish: one result with a good signature, under its own node and owner.\<close>

definition signed_result ::
  "(string \<Rightarrow> string \<Rightarrow> string \<Rightarrow> bool) \<Rightarrow> string \<Rightarrow> pubkey \<Rightarrow> message \<Rightarrow> bool" where
  "signed_result verify node pk m \<longleftrightarrow> (\<exists>miner r. m = result_message node pk (result_item node miner r)
     \<and> VerifySignature verify node (pb_JobId r @ pb_TaskNonce r) (pb_Signature r) = None)"

lemma handleMinerMessage_adds:
  assumes "handleMinerMessage R verify me node pk msg g = (g', out)"
  shows "runner_account k (g_db g') = runner_account k (g_db g)"
    and "\<exists>new. sent (g_conn g') = sent (g_conn g) @ new \<and> (\<forall>m \<in> set new. signed_result verify node pk m)"
proof -
  have "runner_account k (g_db g') = runner_account k (g_db g)
    \<and> (\<exists>new. sent (g_conn g') = sent (g_conn g) @ new \<and> (\<forall>m \<in> set new. signed_result verify node pk m))"
  proof (cases msg)
    case (MinerMessage_Ping p)
    then show ?thesis
      using assms runner_account_heartbeat by (fastforce simp: handleMinerMessage_def split: prod.splits)
  next
    case (MinerMessage_Result r)
    with assms have g': "g' = handleProbeResult R verify (me_result me) node pk r g"
      by (simp add: handleMinerMessage_def)
    have "g_db g' = g_db g"
      by (auto simp: g' handleProbeResult_def split: prod.splits option.splits)
    moreover have "\<exists>new. sent (g_conn g') = sent (g_conn g) @ new \<and> (\<forall>m \<in> set new. signed_result verify node pk m)"
      unfolding g' handleProbeResult_sent
      by (auto simp: signed_result_def result_accepted_def Let_def split: prod.splits)
    ultimately show ?thesis by simp
  qed (use assms in \<open>auto simp: handleMinerMessage_def\<close>)
  then show "runner_account k (g_db g') = runner_account k (g_db g)"
    and "\<exists>new. sent (g_conn g') = sent (g_conn g) @ new \<and> (\<forall>m \<in> set new. signed_result verify node pk m)" by blast+
qed

lemma JobStream_recv_adds:
  assumes "JobStream_recv R verify se i ph msg g = (ph', g', out)"
  obtains new where "sent (g_conn g') = sent (g_conn g) @ new" "\<And>k. runner_account k (g_db g') = runner_account k (g_db g)"
    "\<forall>m \<in> set new. \<exists>node pk. ph = Active node pk \<and> signed_result verify node pk m"
proof (cases "\<exists>node pk. ph = Active node pk")
  case True
  then obtain node pk where ph: "ph = Active node pk" by blast
  obtain g1 o1 where h: "handleMinerMessage R verify (se_message se) node pk msg g = (g1, o1)" by fastforce
  with assms ph have g': "g' = g1" by (simp add: JobStream_recv_def)
  obtain new where "sent (g_conn g1) = sent (g_conn g) @ new" "\<forall>m \<in> set new. signed_result verify node pk m"
    using handleMinerMessage_adds(2) [OF h] by blast
  with handleMinerMessage_adds(1) [OF h] ph show ?thesis by (intro that [of new]) (auto simp: g')
next
  case False
  with assms have "g_conn g' = g_conn g" "g_db g' = g_db g"
    by (auto simp: JobStream_recv_def Let_def split: phase.splits MinerMessage.splits if_splits sum.splits)
  then show ?thesis by (intro that [of "[]"]) simp_all
qed

lemma ConsumeJob_db: "ConsumeJob up b g = (g', a) \<Longrightarrow> g_db g' = g_db g \<and> g_conn g' = g_conn g"
  by (auto simp: ConsumeJob_def offer_def split: option.splits if_splits)

lemma route_new_simps [simp]: "pl_world (route_new n pl) = pl_world pl"
  by (simp add: route_new_def Let_def)

lemma job_routed: "is_job m \<Longrightarrow> ''processing_queue'' \<notin> set (routed booted m)"
  by (simp add: is_job_def routed_def)

lemma result_routed: "''job_queue'' \<notin> set (routed booted (result_message node pk item))"
  by (simp add: result_message_def routed_def booted_def declareQueues_def topology_simps)

subsection \<open>The invariant\<close>

text \<open>A node that answered a challenge with its own signature, in a session for the owner \<open>pk\<close>.\<close>

definition credentialed ::
  "(string \<Rightarrow> string \<Rightarrow> string \<Rightarrow> bool) \<Rightarrow> (nat \<times> string \<times> string \<times> string \<times> pubkey) list \<Rightarrow> string \<Rightarrow> pubkey \<Rightarrow> bool" where
  "credentialed verify entries node pk \<longleftrightarrow> (\<exists>i nonceHex sig. (i, node, nonceHex, sig, pk) \<in> set entries
     \<and> VerifyIdentity verify node nonceHex (hex_encode sig) = None)"

definition authentic ::
  "(string \<Rightarrow> string \<Rightarrow> string \<Rightarrow> bool) \<Rightarrow> (nat \<times> string \<times> string \<times> string \<times> pubkey) list \<Rightarrow> json \<Rightarrow> bool" where
  "authentic verify entries b \<longleftrightarrow> (\<exists>node pk m. credentialed verify entries node pk \<and> signed_result verify node pk m \<and> b = msg_body m)"

definition plant_inv :: "(string \<Rightarrow> string \<Rightarrow> string \<Rightarrow> bool) \<Rightarrow> db \<Rightarrow> 's plant \<Rightarrow> bool" where
  "plant_inv verify db0 pl \<longleftrightarrow>
     grpc_inv verify (pl_world pl)
     \<and> (\<forall>b \<in> set (pl_results pl). authentic verify (w_log (pl_world pl)) b)
     \<and> (\<forall>b \<in> set (pl_jobs pl). \<exists>p. b = encode_JobPayload p)
     \<and> (\<forall>pk. (\<forall>node. \<not> credentialed verify (w_log (pl_world pl)) node pk) \<longrightarrow>
          runner_account pk (g_db (w_grpc (pl_world pl))) = runner_account pk db0)"

lemma credentialed_append: "credentialed verify entries node pk \<Longrightarrow> credentialed verify (entries @ rest) node pk"
  by (auto simp: credentialed_def)

lemma authentic_append: "authentic verify entries b \<Longrightarrow> authentic verify (entries @ rest) b"
  unfolding authentic_def using credentialed_append by metis

lemma route_new_arrivals:
  assumes "sent (g_conn (w_grpc (pl_world pl))) = old @ new"
  shows "set (pl_results (route_new (length old) pl)) = set (pl_results pl)
      \<union> msg_body ` {m \<in> set new. ''processing_queue'' \<in> set (routed booted m)}"
    and "set (pl_jobs (route_new (length old) pl)) = set (pl_jobs pl)
      \<union> msg_body ` {m \<in> set new. ''job_queue'' \<in> set (routed booted m)}"
  by (simp_all add: route_new_def Let_def assms)

lemma plant_inv_grpc: "plant_inv verify db0 pl \<Longrightarrow> grpc_inv verify (pl_world pl)"
  by (simp add: plant_inv_def)

lemma grpc_inv_same:
  "grpc_inv verify w \<Longrightarrow> g_miners g = g_miners (w_grpc w) \<Longrightarrow> g_chans g = g_chans (w_grpc w) \<Longrightarrow>
     grpc_inv verify (w\<lparr>w_grpc := g\<rparr>)"
  by (erule grpc_inv_frame) simp_all

text \<open>A step that leaves the log, the results and the accounts alone.\<close>

lemma plant_inv_frame:
  assumes "plant_inv verify db0 pl" "grpc_inv verify (pl_world pl')"
    and "w_log (pl_world pl') = w_log (pl_world pl)"
    and "set (pl_results pl') \<subseteq> set (pl_results pl)" "\<forall>b \<in> set (pl_jobs pl'). b \<in> set (pl_jobs pl) \<or> (\<exists>p. b = encode_JobPayload p)"
    and "\<And>pk. runner_account pk (g_db (w_grpc (pl_world pl'))) = runner_account pk (g_db (w_grpc (pl_world pl)))"
  shows "plant_inv verify db0 pl'"
  using assms unfolding plant_inv_def assms(3,6) by blast

lemma plant_inv_receive:
  assumes inv: "plant_inv verify db0 pl" and w: "w = pl_world pl" and i: "i < length (w_sessions w)"
    and recv: "JobStream_recv R verify se i (w_sessions w ! i) msg (w_grpc w) = (ph', g', out)"
  shows "plant_inv verify db0 (route_new (length (sent (g_conn (w_grpc w))))
        (pl\<lparr>pl_world := \<lparr>w_grpc = g', w_sessions = (w_sessions w)[i := ph'],
            w_log = w_log w @ handshake i (w_sessions w ! i) msg ph'\<rparr>\<rparr>))"
    (is "plant_inv _ _ (route_new ?n ?pl)")
proof -
  have g: "grpc_inv verify w" using inv w unfolding plant_inv_def by blast
  obtain new where new: "sent (g_conn g') = sent (g_conn (w_grpc w)) @ new"
    and acc: "\<And>k. runner_account k (g_db g') = runner_account k (g_db (w_grpc w))"
    and signed: "\<forall>m \<in> set new. \<exists>node pk. w_sessions w ! i = Active node pk \<and> signed_result verify node pk m"
    using JobStream_recv_adds [OF recv] by blast
  have new': "sent (g_conn (w_grpc (pl_world ?pl))) = sent (g_conn (w_grpc w)) @ new" using new by simp
  have auth: "authentic verify (w_log w) (msg_body m)" "''job_queue'' \<notin> set (routed booted m)" if m: "m \<in> set new" for m
  proof -
    from signed m obtain node pk where s: "w_sessions w ! i = Active node pk" "signed_result verify node pk m" by blast
    with g i have "credentialed verify (w_log w) node pk" unfolding grpc_inv_def credentialed_def by metis
    with s(2) show "authentic verify (w_log w) (msg_body m)" unfolding authentic_def by blast
    from s(2) show "''job_queue'' \<notin> set (routed booted m)" by (auto simp: signed_result_def result_routed)
  qed
  have world: "grpc_inv verify (pl_world ?pl)" using grpc_inv_receive [OF g i recv] by simp
  show ?thesis
    unfolding plant_inv_def route_new_simps
  proof (intro conjI)
    show "grpc_inv verify (pl_world ?pl)" by (rule world)
    show "\<forall>b \<in> set (pl_results (route_new ?n ?pl)). authentic verify (w_log (pl_world ?pl)) b"
      unfolding route_new_arrivals(1) [OF new'] using inv w auth(1) by (auto simp: plant_inv_def intro: authentic_append)
    show "\<forall>b \<in> set (pl_jobs (route_new ?n ?pl)). \<exists>p. b = encode_JobPayload p"
      unfolding route_new_arrivals(2) [OF new'] using inv auth(2) by (auto simp: plant_inv_def)
    show "\<forall>pk. (\<forall>node. \<not> credentialed verify (w_log (pl_world ?pl)) node pk) \<longrightarrow>
        runner_account pk (g_db (w_grpc (pl_world ?pl))) = runner_account pk db0"
      using inv w credentialed_append by (auto simp: plant_inv_def acc) metis
  qed
qed

lemma plant_inv_settle:
  assumes inv: "plant_inv verify db0 pl" and g: "g = w_grpc (pl_world pl)" and q: "b \<in> set (pl_results pl)"
    and h: "handle_delivery decode_packet uuid_in threshold ce b (g_db g) = (db', a)"
    and kept: "after_answer a b (pl_results pl) q"
  shows "plant_inv verify db0 ((set_grpc (g\<lparr>g_db := db'\<rparr>) pl)\<lparr>pl_results := q\<rparr>)"
proof -
  from inv q obtain node pk m where c: "credentialed verify (w_log (pl_world pl)) node pk"
    and m: "signed_result verify node pk m" "b = msg_body m"
    unfolding plant_inv_def authentic_def by auto
  from m obtain packet where d: "decode_packet b = Some packet" "rp_RunnerPubkey packet = pk"
    by (auto simp: signed_result_def decode_result_message)
  obtain d' r where p: "ProcessPacket uuid_in threshold (ce_now ce) (ce_settle ce) (ce_insert ce) packet (g_db g) = (d', r)"
    by fastforce
  with h d(1) have "db' = d'" by (auto simp: handle_delivery_def split: sum.splits)
  with runner_account_packet [OF p] d(2) have acc: "k \<noteq> pk \<Longrightarrow> runner_account k db' = runner_account k (g_db g)" for k
    by simp
  have world: "grpc_inv verify ((pl_world pl)\<lparr>w_grpc := g\<lparr>g_db := db'\<rparr>\<rparr>)"
    by (rule grpc_inv_same [OF plant_inv_grpc [OF inv]]) (simp_all add: g)
  have "runner_account k db' = runner_account k db0" if "\<forall>node. \<not> credentialed verify (w_log (pl_world pl)) node k" for k
    using inv acc [of k] c that unfolding plant_inv_def g by metis
  moreover have "\<forall>b' \<in> set q. authentic verify (w_log (pl_world pl)) b'"
    using inv after_answer_set [OF kept] unfolding plant_inv_def by blast
  ultimately show ?thesis using inv world by (simp add: plant_inv_def set_grpc_def)
qed

lemma plant_inv_tick:
  assumes inv: "plant_inv verify db0 pl" and g: "g = w_grpc (pl_world pl)"
    and t: "scheduleTick R hostname uuid_in t te (g_db g) (g_reg g) (tick_view pl) = (st', r)"
  shows "plant_inv verify db0 (route_new (length (sent (g_conn g)))
        ((set_grpc (g\<lparr>g_rdb := ts_rdb st', g_conn := sa_conn (ts_amqp st')\<rparr>) pl)
           \<lparr>pl_cursors := ts_cursors st', pl_channel := sa_ch (ts_amqp st')\<rparr>))"
    (is "plant_inv _ _ (route_new _ ?pl)")
proof -
  obtain new where new: "sent (sa_conn (ts_amqp st')) = sent (g_conn g) @ new" "\<forall>m \<in> set new. is_job m"
    using tick_adds_jobs [OF t] by (auto simp: tick_view_def g)
  then have n: "sent (g_conn (w_grpc (pl_world ?pl))) = sent (g_conn g) @ new" by (simp add: set_grpc_def)
  have world: "grpc_inv verify (pl_world ?pl)"
    unfolding set_grpc_def using grpc_inv_same [OF plant_inv_grpc [OF inv]] by (simp add: g)
  show ?thesis
  proof (rule plant_inv_frame [OF inv])
    show "set (pl_results (route_new (length (sent (g_conn g))) ?pl)) \<subseteq> set (pl_results pl)"
      unfolding route_new_arrivals(1) [OF n] using job_routed new(2) by (auto simp: set_grpc_def)
    show "\<forall>b \<in> set (pl_jobs (route_new (length (sent (g_conn g))) ?pl)). b \<in> set (pl_jobs pl) \<or> (\<exists>p. b = encode_JobPayload p)"
      unfolding route_new_arrivals(2) [OF n] using new(2) by (auto simp: set_grpc_def is_job_def)
  qed (use world in \<open>simp_all add: set_grpc_def g\<close>)
qed

lemma plant_step_inv:
  assumes inv: "plant_inv verify db0 pl" and s: "plant_step R verify hostname uuid_in threshold pl pl'"
  shows "plant_inv verify db0 pl'"
  using s
proof (cases rule: plant_step.cases)
  case (connect w)
  show ?thesis
    by (rule plant_inv_frame [OF inv]) (use connect grpc_inv_connect [OF plant_inv_grpc [OF inv]] in simp_all)
next
  case (receive w i se msg ph' g' out)
  with plant_inv_receive [OF inv] show ?thesis by blast
next
  case (finish w i c ph' g')
  then have d: "g_db g' = g_db (w_grpc w)" by (auto simp: JobStream_end_def split: phase.splits)
  have "grpc_inv verify (w\<lparr>w_grpc := g', w_sessions := (w_sessions w)[i := ph']\<rparr>)"
    using grpc_inv_finish [OF plant_inv_grpc [OF inv]] finish by simp
  then show ?thesis
    using finish d by (intro plant_inv_frame [OF inv]) simp_all
next
  case (send i g' out)
  then have d: "g_db g' = g_db (w_grpc (pl_world pl))" by (auto simp: bridge_send_def split: list.splits)
  from send grpc_inv_bridge [OF plant_inv_grpc [OF inv] send(2)] d show ?thesis
    by (intro plant_inv_frame [OF inv]) (simp_all add: set_grpc_def)
next
  case (consume b up g' a q)
  from consume grpc_inv_job [OF plant_inv_grpc [OF inv] consume(3)] ConsumeJob_db [OF consume(3)]
    after_answer_set [OF consume(4)] show ?thesis
    by (intro plant_inv_frame [OF inv]) (auto simp: set_grpc_def)
next
  case (tick g t te st' r)
  with plant_inv_tick [OF inv] show ?thesis by blast
next
  case (settle g b ce db' a q)
  with plant_inv_settle [OF inv] show ?thesis by blast
next
  case (environment g d reg s)
  have "grpc_inv verify ((pl_world pl)\<lparr>w_grpc := g\<lparr>g_rdb := s, g_db := d, g_reg := reg\<rparr>\<rparr>)"
    by (rule grpc_inv_same [OF plant_inv_grpc [OF inv]]) (simp_all add: environment)
  with environment show ?thesis by (intro plant_inv_frame [OF inv]) (simp_all add: set_grpc_def)
qed

lemma plant_reach_inv: "plant_reach R verify hostname uuid_in threshold db0 pl \<Longrightarrow> plant_inv verify db0 pl"
proof (induction rule: plant_reach.induct)
  case (start g c)
  then show ?case by (simp add: plant_inv_def grpc_inv_def)
next
  case (step pl pl')
  from plant_step_inv [OF step.IH step.hyps(2)] show ?case .
qed

subsection \<open>The way of one result\<close>

lemma job_monitor:
  "pb_JobId r = job_id i pk now \<Longrightarrow> CHR '':'' \<notin> set i \<Longrightarrow> pr_MonitorID (result_item node miner r) = i"
  by (simp add: result_item_monitor hd_split_on_append job_id_def)

lemma one_result_settled:
  assumes db: "wf_db db" "roomy db" and c: "uuid_in (pr_MonitorID item) = Some c" "pr_MonitorID item \<noteq> []"
    and L: "settle_spec threshold (1 / 100) c pk (ledger_of db) = Some L"
    and row: "row_error uuid_in db (build_log now pk item) = None" and net: "snd (snd (env 0)) = net_up"
    and packet: "rp_RunnerPubkey packet = pk" "rp_Results packet = [item]"
  obtains db' k where "ProcessPacket uuid_in threshold now env Delivered packet db = (db', Inr 0)"
    "ledger_of db' = L" "t_ping_logs db' = t_ping_logs db @ [(build_log now pk item)\<lparr>p_ID := k, p_MonitorID := c\<rparr>]"
proof -
  let ?j = "\<lparr>j_uuid = fst (env 0), j_now = fst (snd (env 0)), j_net = snd (snd (env 0)), j_monitor = pr_MonitorID item,
      j_runner = pk\<rparr>"
  have jobs: "packet_jobs env packet = [(?j, item)]"
    using c(2) by (simp add: packet_jobs_def packet enumerate_eq_zip)
  obtain d res where d: "settle_job uuid_in threshold ?j db = (d, Inr res)" "ledger_of d = L"
    "t_ping_logs d = t_ping_logs db" "t_partitions d = t_partitions db"
    using settle_job_succeeds [of db uuid_in ?j c threshold L] db c(1) L net by auto
  have settled: "settle_all (settle_result uuid_in threshold) (packet_jobs env packet) db = (d, [(?j, item)])"
    by (simp add: jobs settle_result_def d(1))
  have "row_error uuid_in d (build_log now pk item) = row_error uuid_in db (build_log now pk item)"
    by (simp only: row_error_def d(4))
  with row have "row_error uuid_in d (build_log now pk item) = None" by simp
  moreover have "p_MonitorID (build_log now pk item) = pr_MonitorID item" by (simp add: build_log_def)
  ultimately have insert: "BulkInsert uuid_in Delivered [build_log now pk item] d
      = (d\<lparr>t_ping_logs := t_ping_logs d @ [(build_log now pk item)\<lparr>p_ID := t_ping_seq d, p_MonitorID := c\<rparr>],
           t_ping_seq := t_ping_seq d + 1\<rparr>, Inr ())"
    using c(1) by (simp add: BulkInsert_def map_filter_simps enumerate_eq_zip)
  have "ProcessPacket uuid_in threshold now env Delivered packet db
      = (d\<lparr>t_ping_logs := t_ping_logs d @ [(build_log now pk item)\<lparr>p_ID := t_ping_seq d, p_MonitorID := c\<rparr>],
           t_ping_seq := t_ping_seq d + 1\<rparr>, Inr 0)"
    by (simp add: ProcessPacket_def settled packet insert)
  then show ?thesis by (rule that) (use d(2,3) in \<open>simp_all add: ledger_of_def\<close>)
qed

text \<open>The two steps that a good report takes: the session publishes it, and the processor settles it.\<close>

lemma report_published:
  assumes "i < length (w_sessions (pl_world pl))" "w_sessions (pl_world pl) ! i = Active node pk"
    and "g = w_grpc (pl_world pl)" "result_accepted R verify re node r (g_rdb g)"
    and "re_open re \<or> (\<exists>c. g_rabbitCh g = Some (c, False))" "re_publish re \<noteq> RequestLost"
  obtains pl' where "plant_step R verify hostname uuid_in threshold pl pl'"
    "pl_results pl' = pl_results pl @ [msg_body (result_message node pk (result_item node (g_miners g pk) r))]"
    "g_db (w_grpc (pl_world pl')) = g_db g"
proof -
  let ?w = "pl_world pl"
  define se :: stream_env where "se = \<lparr>se_nonce = [], se_send = True, se_lookup = True,
      se_message = \<lparr>me_result = re, me_now = 0, me_heartbeat = Delivered, me_lookup = True\<rparr>\<rparr>"
  let ?m = "result_message node pk (result_item node (g_miners g pk) r)"
  let ?g = "handleProbeResult R verify re node pk r g"
  have recv: "JobStream_recv R verify se i (w_sessions ?w ! i) (MinerMessage_Result r) (w_grpc ?w) = (Active node pk, ?g, [])"
    using assms(2,3) by (simp add: JobStream_recv_def handleMinerMessage_def se_def)
  have sent: "sent (g_conn ?g) = sent (g_conn g) @ [?m]"
    using assms(4-6) by (simp add: handleProbeResult_sent)
  let ?pl = "pl\<lparr>pl_world := \<lparr>w_grpc = ?g, w_sessions = (w_sessions ?w)[i := Active node pk],
      w_log = w_log ?w @ handshake i (w_sessions ?w ! i) (MinerMessage_Result r) (Active node pk)\<rparr>\<rparr>"
  have "''processing_queue'' \<in> set (routed booted ?m)"
    by (simp add: result_message_def routed_def booted_def declareQueues_def topology_simps)
  then have "pl_results (route_new (length (sent (g_conn g))) ?pl) = pl_results pl @ [msg_body ?m]"
    by (simp add: route_new_def sent Let_def)
  moreover have "g_db ?g = g_db g"
    by (auto simp: handleProbeResult_def split: prod.splits option.splits)
  ultimately show ?thesis
    using plant_step.receive [OF refl assms(1) recv, of hostname uuid_in threshold] assms(3)
    by (intro that [of "route_new (length (sent (g_conn g))) ?pl"]) simp_all
qed

lemma report_steps:
  assumes "i < length (w_sessions (pl_world pl))" "w_sessions (pl_world pl) ! i = Active node pk"
    and "g = w_grpc (pl_world pl)" "result_accepted R verify re node r (g_rdb g)"
    and "re_open re \<or> (\<exists>c. g_rabbitCh g = Some (c, False))" "re_publish re \<noteq> RequestLost" "pl_results pl = []"
    and "pb_JobId r = job_id mon pk' sent_at" "CHR '':'' \<notin> set mon" "mon \<noteq> []" "uuid_in mon = Some c"
    and "wf_db (g_db g)" "roomy (g_db g)" "settle_spec threshold (1 / 100) c pk (ledger_of (g_db g)) = Some L"
    and "item = result_item node (g_miners g pk) r" "row_error uuid_in (g_db g) (build_log now pk item) = None"
  obtains pl' pl'' k where "plant_step R verify hostname uuid_in threshold pl pl'"
    "plant_step R verify hostname uuid_in threshold pl' pl''"
    "pl_results pl'' = []" "ledger_of (g_db (w_grpc (pl_world pl''))) = L"
    "t_ping_logs (g_db (w_grpc (pl_world pl''))) = t_ping_logs (g_db g) @ [(build_log now pk item)\<lparr>p_ID := k, p_MonitorID := c\<rparr>]"
    "g_db (w_grpc (pl_world pl')) = g_db g"
    "\<exists>b a. handle_delivery decode_packet uuid_in threshold
        \<lparr>ce_now = now, ce_settle = (\<lambda>i. (uuid i, now, net_up)), ce_insert = Delivered\<rparr> b (g_db g)
      = (g_db (w_grpc (pl_world pl'')), a)"
proof -
  obtain pl' where 1: "plant_step R verify hostname uuid_in threshold pl pl'"
    "pl_results pl' = [msg_body (result_message node pk item)]" "g_db (w_grpc (pl_world pl')) = g_db g"
    using report_published [OF assms(1-6), of hostname uuid_in threshold] assms(7,15) by auto
  define env :: "nat \<Rightarrow> string \<times> instant \<times> tx_net" where "env = (\<lambda>i. (uuid i, now, net_up))"
  define packet where "packet = \<lparr>rp_NodeId = node, rp_RunnerPubkey = pk, rp_Signature = [], rp_Results = [item]\<rparr>"
  have mon: "pr_MonitorID item = mon" using job_monitor [OF assms(8,9)] assms(15) by simp
  obtain db' k where p: "ProcessPacket uuid_in threshold now env Delivered packet (g_db g) = (db', Inr 0)"
    "ledger_of db' = L" "t_ping_logs db' = t_ping_logs (g_db g) @ [(build_log now pk item)\<lparr>p_ID := k, p_MonitorID := c\<rparr>]"
    using one_result_settled [of "g_db g" uuid_in item c threshold pk L now env packet] assms(10-14,16) mon
    by (auto simp: env_def packet_def)
  let ?ce = "\<lparr>ce_now = now, ce_settle = env, ce_insert = Delivered\<rparr>"
  have h: "handle_delivery decode_packet uuid_in threshold ?ce (msg_body (result_message node pk item)) (g_db g) = (db', Ack)"
    using p(1) by (simp add: handle_delivery_def assms(15) decode_result_message flip: packet_def [unfolded assms(15)])
  have ex: "\<exists>b a. handle_delivery decode_packet uuid_in threshold
      \<lparr>ce_now = now, ce_settle = (\<lambda>i. (uuid i, now, net_up)), ce_insert = Delivered\<rparr> b (g_db g) = (db', a)"
    using h unfolding env_def by blast
  have "handle_delivery decode_packet uuid_in threshold ?ce (msg_body (result_message node pk item)) (g_db (w_grpc (pl_world pl')))
      = (db', Ack)" by (simp only: h 1(3))
  from plant_step.settle [OF refl _ this, of "[]"] 1(2) have
    "plant_step R verify hostname uuid_in threshold pl' ((set_grpc ((w_grpc (pl_world pl'))\<lparr>g_db := db'\<rparr>) pl')\<lparr>pl_results := []\<rparr>)"
    by (simp add: after_answer_def)
  from that [OF 1(1) this, of k] p(2,3) ex 1(3) show ?thesis by (simp add: set_grpc_def)
qed

lemma report_paid:
  assumes "i < length (w_sessions (pl_world pl))" "w_sessions (pl_world pl) ! i = Active node pk"
    and "g = w_grpc (pl_world pl)" "result_accepted R verify re node r (g_rdb g)"
    and "re_open re \<or> (\<exists>c. g_rabbitCh g = Some (c, False))" "re_publish re \<noteq> RequestLost" "pl_results pl = []"
    and "pb_JobId r = job_id mon pk' sent_at" "CHR '':'' \<notin> set mon" "mon \<noteq> []" "uuid_in mon = Some c"
    and "wf_db (g_db g)" "roomy (g_db g)" "settle_spec threshold (1 / 100) c pk (ledger_of (g_db g)) = Some L"
    and "item = result_item node (g_miners g pk) r" "row_error uuid_in (g_db g) (build_log now pk item) = None"
  obtains pl' pl'' k where "plant_step R verify hostname uuid_in threshold pl pl'"
    "plant_step R verify hostname uuid_in threshold pl' pl''"
    "pl_results pl'' = []" "ledger_of (g_db (w_grpc (pl_world pl''))) = L"
    "t_ping_logs (g_db (w_grpc (pl_world pl''))) = t_ping_logs (g_db g) @ [(build_log now pk item)\<lparr>p_ID := k, p_MonitorID := c\<rparr>]"
  by (rule report_steps [where now = now and uuid = digits_of, OF assms]) (rule that)

subsection \<open>Properties\<close>

text \<open>
  C3. Only authenticated nodes earn: however ticks, sessions, deliveries and lost requests interleave, a runner whose
  balance, earnings or payouts have changed owns a node that answered a challenge with its own signature, and every
  result waiting to be settled was signed by such a node, in a session for the runner it names.
\<close>
theorem only_authenticated_runners_earn:
  assumes "plant_reach R verify hostname uuid_in threshold db0 pl"
  shows "(\<forall>pk. runner_account pk (g_db (w_grpc (pl_world pl))) \<noteq> runner_account pk db0
      \<longrightarrow> (\<exists>node. credentialed verify (w_log (pl_world pl)) node pk))
    \<and> (\<forall>b \<in> set (pl_results pl). authentic verify (w_log (pl_world pl)) b)
    \<and> (\<forall>b \<in> set (pl_jobs pl). \<exists>p. b = encode_JobPayload p)"
  using plant_reach_inv [OF assms] unfolding plant_inv_def by blast

text \<open>
  C5. Honest work is paid: when a connected miner reports for a job with a live nonce and a good signature, within its
  limits, and the ledger allows the settlement, then two steps lead from the report to the ledger: the result is published,
  routed, decoded and settled, which is one step of the abstract ledger for the job's monitor and the owner of the session, and its
  measurements are stored.
\<close>
theorem honest_work_is_paid:
  assumes "i < length (w_sessions (pl_world pl))" "w_sessions (pl_world pl) ! i = Active node pk"
    and "g = w_grpc (pl_world pl)" "result_accepted R verify re node r (g_rdb g)"
    and "re_open re \<or> (\<exists>c. g_rabbitCh g = Some (c, False))" "re_publish re \<noteq> RequestLost" "pl_results pl = []"
    and "pb_JobId r = job_id mon pk' sent_at" "CHR '':'' \<notin> set mon" "mon \<noteq> []" "uuid_in mon = Some c"
    and "wf_db (g_db g)" "roomy (g_db g)" "settle_spec threshold (1 / 100) c pk (ledger_of (g_db g)) = Some L"
    and "item = result_item node (g_miners g pk) r" "row_error uuid_in (g_db g) (build_log now pk item) = None"
  shows "\<exists>pl' pl'' l. plant_step R verify hostname uuid_in threshold pl pl' \<and> plant_step R verify hostname uuid_in threshold pl' pl''
    \<and> pl_results pl'' = [] \<and> ledger_of (g_db (w_grpc (pl_world pl''))) = L
    \<and> t_ping_logs (g_db (w_grpc (pl_world pl''))) = t_ping_logs (g_db g) @ [l]
    \<and> p_MonitorID l = c \<and> p_RunnerPubkey l = pk \<and> p_Success l = pb_Success r \<and> p_TotalUs l = pb_TotalUs r"
proof -
  obtain pl' pl'' k where s: "plant_step R verify hostname uuid_in threshold pl pl'"
    "plant_step R verify hostname uuid_in threshold pl' pl''"
    "pl_results pl'' = []" "ledger_of (g_db (w_grpc (pl_world pl''))) = L"
    "t_ping_logs (g_db (w_grpc (pl_world pl''))) = t_ping_logs (g_db g) @ [(build_log now pk item)\<lparr>p_ID := k, p_MonitorID := c\<rparr>]"
    by (rule report_paid [where now = now, OF assms])
  have "p_Success (build_log now pk item) = pb_Success r" "p_TotalUs (build_log now pk item) = pb_TotalUs r"
    "p_RunnerPubkey (build_log now pk item) = pk"
    by (simp_all add: build_log_def assms(15) result_item_def Let_def split: option.splits prod.splits)
  with s show ?thesis
    by (intro exI [of _ pl'] exI [of _ pl''] exI [of _ "(build_log now pk item)\<lparr>p_ID := k, p_MonitorID := c\<rparr>"]) simp
qed

subsection \<open>A run\<close>

definition demo_pipe_db :: db where
  "demo_pipe_db = demo_node_db\<lparr>t_partitions := [(0, 1000000000000)]\<rparr>"

definition demo_pipe_world :: "ref_state world" where
  "demo_pipe_world = \<lparr>w_grpc = (demo_grpc demo_pipe_db)\<lparr>g_rdb := demo_nonce_state\<rparr>, w_sessions = [], w_log = []\<rparr>"

definition demo_report :: ProbeResult where
  "demo_report = demo_probe_result\<lparr>pb_JobId := job_id ''m'' ''r'' 1\<rparr>"

lemma route_nothing:
  "length (sent (g_conn (w_grpc (pl_world pl)))) = n \<Longrightarrow> route_new n pl = pl"
  by (simp add: route_new_def)

lemma demo_connected:
  obtains pl where "plant_reach ref_redis (\<lambda>_ _ _. True) demo_host Some (1 / 100) demo_pipe_db pl"
    "pl_world pl = demo_session 0 demo_pipe_world" "pl_results pl = []"
proof -
  let ?S = "plant_step ref_redis (\<lambda>_ _ _. True) demo_host Some (1 / 100)"
  define se :: stream_env where "se = \<lparr>se_nonce = [], se_send = True, se_lookup = True,
      se_message = \<lparr>me_result = demo_result_env 2, me_now = 0, me_heartbeat = Delivered, me_lookup = True\<rparr>\<rparr>"
  define pl0 :: "ref_state plant" where "pl0 = \<lparr>pl_world = demo_pipe_world, pl_cursors = (\<lambda>_. 0), pl_channel = None, pl_jobs = [],
      pl_results = []\<rparr>"
  define w1 where "w1 = demo_pipe_world\<lparr>w_sessions := [AwaitRegister]\<rparr>"
  define w2 where "w2 = demo_pipe_world\<lparr>w_sessions := [AwaitAuth demo_key []]\<rparr>"
  have "?S pl0 (pl0\<lparr>pl_world := w1\<rparr>)"
    using plant_step.connect [OF refl, of ref_redis "\<lambda>_ _ _. True" demo_host Some "1 / 100" pl0]
    by (simp add: pl0_def w1_def demo_pipe_world_def)
  moreover have "?S (pl0\<lparr>pl_world := w1\<rparr>) (pl0\<lparr>pl_world := w2\<rparr>)"
  proof -
    have "JobStream_recv ref_redis (\<lambda>_ _ _. True) se 0 (w_sessions w1 ! 0)
        (MinerMessage_Register \<lparr>mr_NodeId = demo_key, mr_Version = [], mr_TimestampMs = 0\<rparr>) (w_grpc w1)
      = (AwaitAuth demo_key [], w_grpc w1, [ServerMessage_AuthChallenge []])"
      by (simp add: JobStream_recv_def w1_def se_def)
    from plant_step.receive [where pl = "pl0\<lparr>pl_world := w1\<rparr>", OF _ _ this, of demo_host Some "1 / 100"] show ?thesis
      by (simp add: route_nothing) (simp add: w1_def w2_def handshake_def demo_pipe_world_def)
  qed
  moreover have "?S (pl0\<lparr>pl_world := w2\<rparr>) (pl0\<lparr>pl_world := demo_session 0 demo_pipe_world\<rparr>)"
  proof -
    obtain resp where resp: "GetByNodePubKey True demo_key demo_node_db = Inr resp" "rr_OwnerPubkey resp = ''r''"
      "rr_Latitude resp = 0" "rr_Longitude resp = 0" "rr_Region resp = ''eu''" using demo_lookup by blast
    have "GetByNodePubKey True demo_key demo_pipe_db = GetByNodePubKey True demo_key demo_node_db"
      by (simp add: GetByNodePubKey_def FindByNodePubKey_def runner_by_def demo_pipe_db_def)
    with resp have "JobStream_recv ref_redis (\<lambda>_ _ _. True) se 0 (w_sessions w2 ! 0) (MinerMessage_AuthResponse demo_sig) (w_grpc w2)
      = (Active demo_key ''r'', w_grpc (demo_session 0 demo_pipe_world), [])"
      by (simp add: JobStream_recv_def w2_def se_def demo_key_verifies demo_session_def demo_miner_def demo_pipe_world_def demo_grpc_def)
    from plant_step.receive [where pl = "pl0\<lparr>pl_world := w2\<rparr>", OF _ _ this, of demo_host Some "1 / 100"] show ?thesis
      by (simp add: route_nothing w2_def demo_session_def) (simp add: handshake_def demo_pipe_world_def)
  qed
  moreover have "plant_reach ref_redis (\<lambda>_ _ _. True) demo_host Some (1 / 100) demo_pipe_db pl0"
    unfolding pl0_def demo_pipe_world_def by (rule plant_reach.start) (simp_all add: demo_grpc_def)
  ultimately have "plant_reach ref_redis (\<lambda>_ _ _. True) demo_host Some (1 / 100) demo_pipe_db (pl0\<lparr>pl_world := demo_session 0 demo_pipe_world\<rparr>)"
    by (blast intro: plant_reach.step)
  then show ?thesis by (rule that) (simp_all add: pl0_def)
qed

lemma demo_report_facts:
  "result_accepted ref_redis (\<lambda>_ _ _. True) (demo_result_env 2) demo_key demo_report demo_nonce_state"
  "wf_db demo_pipe_db" "roomy demo_pipe_db"
  "row_error Some demo_pipe_db (build_log 5 ''r'' (result_item demo_key miner demo_report)) = None"
proof -
  show "result_accepted ref_redis (\<lambda>_ _ _. True) (demo_result_env 2) demo_key demo_report demo_nonce_state"
    using demo_accepted(1) by (simp add: result_accepted_def demo_report_def demo_probe_result_def demo_signature)
  show "wf_db demo_pipe_db"
    using wf_demo_db [of 3 0 20] by (simp add: wf_db_def demo_pipe_db_def demo_node_db_def demo_db_def demo_runner_def)
  show "roomy demo_pipe_db"
    by (simp add: roomy_def roomy_runners_def demo_pipe_db_def demo_node_db_def demo_db_def demo_monitor_row_def demo_runner_def)
  have "pr_TimestampMs (result_item demo_key miner demo_report) = 0"
    "map (\<lambda>f. f (result_item demo_key miner demo_report)) [pr_DnsUs, pr_TcpUs, pr_TlsUs, pr_TtfbUs, pr_TotalUs]
      = [1, 1, 1, 1, 42000]" "pr_StatusCode (result_item demo_key miner demo_report) = 200"
    by (simp_all add: result_item_def demo_report_def demo_probe_result_def Let_def split: option.splits)
  then show "row_error Some demo_pipe_db (build_log 5 ''r'' (result_item demo_key miner demo_report)) = None"
    by (simp add: row_error_def build_log_def bigint_ok_def int4_def in_partition_def demo_pipe_db_def)
qed

lemma demo_ledger:
  obtains L where "settle_spec (1 / 100) (1 / 100) ''m'' ''r'' (ledger_of demo_pipe_db) = Some L" "lg_queued L ''r'' \<noteq> []"
proof -
  have "new_reward 20 = 3 / 200" by (simp add: new_reward_stake)
  then have "map_option (\<lambda>L. lg_queued L ''r'') (settle_spec (1 / 100) (1 / 100) ''m'' ''r'' (ledger_of demo_pipe_db)) = Some [3 / 200]"
    by (simp add: settle_spec_def ledger_of_def demo_pipe_db_def demo_node_db_def demo_db_def demo_user_def
        demo_monitor_row_def demo_runner_def Let_def queued_def)
  then show ?thesis using that by auto
qed

lemma demo_conditions:
  assumes "pl_world pl = demo_session 0 demo_pipe_world"
  shows "0 < length (w_sessions (pl_world pl))" "w_sessions (pl_world pl) ! 0 = Active demo_key ''r''"
    "g_rdb (w_grpc (pl_world pl)) = demo_nonce_state" "g_db (w_grpc (pl_world pl)) = demo_pipe_db"
    "pb_JobId demo_report = job_id ''m'' ''r'' 1" "CHR '':'' \<notin> set ''m''" "re_open (demo_result_env 2)"
    "re_publish (demo_result_env 2) \<noteq> RequestLost"
  using assms by (simp_all add: demo_session_def demo_pipe_world_def demo_grpc_def demo_report_def demo_result_env_def)

theorem honest_work_is_paid_witness:
  "\<exists>pl pl' pl'' :: ref_state plant. plant_step ref_redis (\<lambda>_ _ _. True) demo_host Some (1 / 100) pl pl'
     \<and> plant_step ref_redis (\<lambda>_ _ _. True) demo_host Some (1 / 100) pl' pl''
     \<and> lg_queued (ledger_of (g_db (w_grpc (pl_world pl'')))) ''r'' \<noteq> []"
proof -
  obtain pl :: "ref_state plant" where pl: "pl_world pl = demo_session 0 demo_pipe_world" "pl_results pl = []"
    using demo_connected by blast
  note c = demo_conditions [OF pl(1)]
  obtain L where L: "settle_spec (1 / 100) (1 / 100) ''m'' ''r'' (ledger_of demo_pipe_db) = Some L" "lg_queued L ''r'' \<noteq> []"
    by (rule demo_ledger)
  have "\<exists>pl' pl'' l. plant_step ref_redis (\<lambda>_ _ _. True) demo_host Some (1 / 100) pl pl'
     \<and> plant_step ref_redis (\<lambda>_ _ _. True) demo_host Some (1 / 100) pl' pl''
     \<and> pl_results pl'' = [] \<and> ledger_of (g_db (w_grpc (pl_world pl''))) = L
     \<and> t_ping_logs (g_db (w_grpc (pl_world pl''))) = t_ping_logs (g_db (w_grpc (pl_world pl))) @ [l]
     \<and> p_MonitorID l = ''m'' \<and> p_RunnerPubkey l = ''r'' \<and> p_Success l = pb_Success demo_report
     \<and> p_TotalUs l = pb_TotalUs demo_report"
    by (rule honest_work_is_paid [where re = "demo_result_env 2" and now = 5, OF c(1,2) refl _ _ c(8) pl(2) c(5,6) _ _ _ _ _ refl])
       (use demo_report_facts L(1) in \<open>simp_all add: c\<close>)
  with L(2) show ?thesis by metis
qed

theorem only_authenticated_runners_earn_witness:
  "\<exists>pl. plant_reach ref_redis (\<lambda>_ _ _. True) demo_host Some (1 / 100) demo_pipe_db pl
     \<and> runner_account ''r'' (g_db (w_grpc (pl_world pl))) \<noteq> runner_account ''r'' demo_pipe_db
     \<and> (\<exists>node. credentialed (\<lambda>_ _ _. True) (w_log (pl_world pl)) node ''r'')"
proof -
  obtain pl where pl: "plant_reach ref_redis (\<lambda>_ _ _. True) demo_host Some (1 / 100) demo_pipe_db pl"
    "pl_world pl = demo_session 0 demo_pipe_world" "pl_results pl = []" by (rule demo_connected)
  note c = demo_conditions [OF pl(2)]
  obtain L where L: "settle_spec (1 / 100) (1 / 100) ''m'' ''r'' (ledger_of demo_pipe_db) = Some L" "lg_queued L ''r'' \<noteq> []"
    by (rule demo_ledger)
  obtain pl' pl'' where s: "plant_step ref_redis (\<lambda>_ _ _. True) demo_host Some (1 / 100) pl pl'"
    "plant_step ref_redis (\<lambda>_ _ _. True) demo_host Some (1 / 100) pl' pl''"
    "ledger_of (g_db (w_grpc (pl_world pl''))) = L"
    by (rule report_paid [where re = "demo_result_env 2" and now = 5 and hostname = demo_host and uuid_in = Some and threshold = "1 / 100"
        and pl = pl and R = ref_redis and verify = "\<lambda>_ _ _. True" and r = demo_report and L = L and c = "''m''",
        OF c(1,2) refl _ _ c(8) pl(3) c(5,6) _ _ _ _ _ refl])
       (use demo_report_facts L(1) in \<open>simp_all add: c\<close>)
  have reach: "plant_reach ref_redis (\<lambda>_ _ _. True) demo_host Some (1 / 100) demo_pipe_db pl''"
    using pl(1) s(1,2) by (blast intro: plant_reach.step)
  have "queued ''r'' (t_sync_events (g_db (w_grpc (pl_world pl'')))) \<noteq> []"
    using L(2) s(3) by (auto simp: ledger_of_def)
  then have "runner_account ''r'' (g_db (w_grpc (pl_world pl''))) \<noteq> runner_account ''r'' demo_pipe_db"
    by (simp add: runner_account_def Let_def demo_pipe_db_def demo_node_db_def demo_db_def queued_def)
  with only_authenticated_runners_earn [OF reach] reach show ?thesis by metis
qed

end
