(* ===== verification/Payouts.thy ===== *)
theory Payouts
  imports SyncEvents
begin

text \<open>
  What the payouts are worth: the amounts that the worker of \<^verbatim>\<open>workers/solana_sync.go\<close> puts on chain against the
  amounts of the events in the table. The first part follows the amounts through the steps of any number of
  workers, the second adds them up for one worker.
\<close>

subsection \<open>Amounts\<close>

text \<open>The raw amount in a transaction, where the program on chain and \<^verbatim>\<open>ValidateOnChainAmount\<close> read it.\<close>

definition chain_amount :: "transaction \<Rightarrow> u64" where
  "chain_amount tx = get_uint64 (drop 8 (in_data (hd (tx_instructions tx))))"

text \<open>Whom an event pays, and how much.\<close>

abbreviation payee :: "SolanaSyncEvent \<Rightarrow> pubkey \<times> rat" where
  "payee e \<equiv> (e_RunnerPubkey e, e_Amount e)"

definition payout_rows :: "sync_table \<Rightarrow> (string \<times> pubkey \<times> rat) list" where
  "payout_rows tbl = (case tbl of SolanaSql es \<Rightarrow> map (\<lambda>e. (e_ID e, payee e)) es | SchemaSql _ \<Rightarrow> [])"

definition payout_of :: "sync_table \<Rightarrow> string \<Rightarrow> (pubkey \<times> rat) option" where
  "payout_of tbl = map_of (payout_rows tbl)"

lemma payout_of_SolanaSql: "payout_of (SolanaSql es) = column e_ID payee es"
  by (simp add: payout_of_def payout_rows_def column_def)

lemma event_ids_rows: "event_ids tbl = map fst (payout_rows tbl)"
  by (cases tbl) (simp_all add: event_ids_def payout_rows_def)

text \<open>The events a worker has in hand, with their amounts.\<close>

fun held :: "worker \<Rightarrow> pending_event list" where
  "held Idle = []"
| "held Crashed = []"
| "held (Batch es) = es"
| "held (Marked e es) = e # es"
| "held (Refused e es) = e # es"
| "held (Sent e sig es) = e # es"

definition carries :: "solana_lib \<Rightarrow> sync_table \<Rightarrow> transaction \<Rightarrow> string \<Rightarrow> bool" where
  "carries L tbl tx i \<longleftrightarrow> (\<exists>pk a. payout_of tbl i = Some (pk, a)
     \<and> node_address L pk = Some (recipient tx) \<and> chain_amount tx = amount_raw (fl a))"

definition scanned :: "sync_table \<Rightarrow> pending_event \<Rightarrow> bool" where
  "scanned tbl e \<longleftrightarrow> (\<exists>a. payout_of tbl (ev_ID e) = Some (ev_RunnerPubkey e, a) \<and> ev_Amount e = fl a)"

definition chain_ok :: "solana_lib \<Rightarrow> sync_state \<Rightarrow> bool" where
  "chain_ok L s \<longleftrightarrow> distinct (event_ids (sy_table s)) \<and> list_all2 (carries L (sy_table s)) (sy_chain s) (sy_paid s)"

definition carried :: "solana_lib \<Rightarrow> system \<Rightarrow> bool" where
  "carried L y \<longleftrightarrow> chain_ok L (sm_state y)
     \<and> (\<forall>w \<in> set (sm_workers y). \<forall>e \<in> set (held w). scanned (sy_table (sm_state y)) e)"

subsection \<open>Steps keep the amounts\<close>

lemma sync_exec_rows:
  assumes "\<And>e. e_ID (g e) = e_ID e" "\<And>e. payee (g e) = payee e"
  shows "payout_rows (fst (sync_exec f (update_where (\<lambda>e. e_ID e = i) g) tbl)) = payout_rows tbl"
  using assms by (cases tbl; cases f) (simp_all add: sync_exec_def payout_rows_def map_update_where)

lemma mark_rows [simp]:
  "payout_rows (fst (MarkProcessing f i tbl)) = payout_rows tbl"
  "payout_rows (fst (MarkDone now f i tx tbl)) = payout_rows tbl"
  "payout_rows (fst (MarkPendingAgain now f i tbl)) = payout_rows tbl"
  unfolding MarkProcessing_def MarkDone_def MarkPendingAgain_def by (rule sync_exec_rows; simp)+

lemma send_reward_table: "send_reward L key ve e s = (s', r) \<Longrightarrow> sy_table s' = sy_table s"
  by (auto simp: send_reward_def split: prod.splits)

lemma worker_step_rows:
  assumes "worker_step L key ve (w, s) = (w', s')"
  shows "payout_rows (sy_table s') = payout_rows (sy_table s)"
proof (cases w)
  case (Batch es)
  with assms show ?thesis
    using mark_rows(1) [of "ve_mark ve" "ev_ID (hd es)" "sy_table s"]
    by (cases es) (auto simp del: mark_rows split: prod.splits sum.splits)
next
  case (Marked e es)
  with assms show ?thesis by (auto split: prod.splits tx_result.splits dest: send_reward_table)
qed (use assms in \<open>auto split: sum.splits if_splits\<close>)

lemma fetched_scanned:
  assumes "FetchPending up rows limit tbl = Inr evs" "distinct (event_ids tbl)" "e \<in> set evs"
  shows "scanned tbl e"
proof -
  from assms(1) obtain es where es: "tbl = SolanaSql es" and
    evs: "evs = map scan_event (take rows (take limit (sort_key e_CreatedAt (filter (\<lambda>e. e_Status e = PENDING) es))))"
    by (auto simp: FetchPending_def query_Inr_iff split: sync_table.splits)
  from assms(3) obtain x where x: "x \<in> set es" "e = scan_event x"
    by (auto simp: evs dest!: in_set_takeD)
  have "distinct (map e_ID es)" using assms(2) by (simp add: es event_ids_def)
  from column_unique [OF this x(1), of payee] show ?thesis
    by (simp add: scanned_def x(2) scan_event_def es payout_of_SolanaSql)
qed

text \<open>A table with the same payouts keeps what was said of the old one.\<close>

lemma chain_ok_table:
  assumes "chain_ok L s" "payout_rows t = payout_rows (sy_table s)"
  shows "chain_ok L (s\<lparr>sy_table := t\<rparr>)"
proof -
  have "payout_of t = payout_of (sy_table s)" "event_ids t = event_ids (sy_table s)"
    by (simp_all only: payout_of_def event_ids_rows assms(2))
  with assms(1) show ?thesis by (simp add: chain_ok_def carries_def [abs_def])
qed

lemma reward_data_amount:
  "8 \<le> length (sl_sha256 L (bytes ''global:add_reward'')) \<Longrightarrow>
     get_uint64 (drop 8 (reward_data L amount)) = amount_raw amount"
  using get_put_uint64 [of "amount_raw amount" "[]"] by (simp add: reward_data_def)

lemma chain_ok_send:
  assumes "8 \<le> length (sl_sha256 L (bytes ''global:add_reward''))"
    and "chain_ok L s" "scanned (sy_table s) e" "send_reward L key ve e s = (s', r)"
  shows "chain_ok L s'"
proof -
  obtain ch where c: "executeRewardTx L key (ve_rpc ve) (ev_RunnerPubkey e) (ev_Amount e) (sy_chain s) = (ch, r)"
    using assms(4) by (auto simp: send_reward_def split: prod.splits)
  then have s': "s' = s\<lparr>sy_chain := ch,
      sy_paid := sy_paid s @ (if length (sy_chain s) < length ch then [ev_ID e] else [])\<rparr>"
    using assms(4) by (simp add: send_reward_def)
  from c show ?thesis
  proof (cases rule: executeRewardTx_cases)
    case none
    with assms(2) show ?thesis by (simp add: s' chain_ok_def)
  next
    case (sent tx)
    have "chain_amount tx = amount_raw (ev_Amount e)"
      using reward_data_amount [OF assms(1)] by (simp add: chain_amount_def sent(2))
    moreover have "node_address L (ev_RunnerPubkey e) = Some (recipient tx)"
      using executeRewardTx_recipient c sent(1) by blast
    ultimately show ?thesis using assms(2,3) sent(1)
      by (auto simp: s' chain_ok_def carries_def scanned_def intro!: list_all2_appendI)
  qed
qed

text \<open>Every step of a worker keeps the transactions right, and the events in its hand as the table has them.\<close>

lemma carried_worker:
  assumes "8 \<le> length (sl_sha256 L (bytes ''global:add_reward''))"
    and "worker_step L key ve (w, s) = (w', s')" "chain_ok L s" "\<forall>e \<in> set (held w). scanned (sy_table s) e"
  shows "chain_ok L s' \<and> (\<forall>e \<in> set (held w'). scanned (sy_table s) e)"
proof (cases w)
  case Idle
  have "distinct (event_ids (sy_table s))" using assms(3) by (simp add: chain_ok_def)
  with assms(2,3) Idle fetched_scanned show ?thesis by (auto split: sum.splits if_splits)
next
  case (Batch es)
  show ?thesis
  proof (cases es)
    case Nil
    with Batch assms(2,3) show ?thesis by auto
  next
    case (Cons e es')
    obtain t r where m: "MarkProcessing (ve_mark ve) (ev_ID e) (sy_table s) = (t, r)" by fastforce
    then have "chain_ok L (s\<lparr>sy_table := t\<rparr>)"
      using mark_rows(1) [of "ve_mark ve" "ev_ID e" "sy_table s"] by (intro chain_ok_table [OF assms(3)]) simp
    with m Batch Cons assms(2,4) show ?thesis by (auto split: sum.splits)
  qed
next
  case (Marked e es)
  obtain s1 r where c: "send_reward L key ve e s = (s1, r)" by fastforce
  have "scanned (sy_table s) e" using assms(4) Marked by simp
  from chain_ok_send [OF assms(1,3) this c] c Marked assms(2,4) show ?thesis
    by (auto split: tx_result.splits)
qed (use assms chain_ok_table in auto)

text \<open>A payout queued meanwhile has an identifier of its own, so the known ones keep their amounts.\<close>

lemma payout_enqueue:
  "payout_of (SolanaSql es) i = Some x \<Longrightarrow> payout_of (SolanaSql (es @ [e])) i = Some x"
  by (simp add: payout_of_SolanaSql column_append)

lemma chain_ok_enqueue:
  assumes "chain_ok L s" "sy_table s = SolanaSql es" "e_ID e \<notin> set (map e_ID es)"
  shows "chain_ok L (s\<lparr>sy_table := SolanaSql (es @ [e])\<rparr>)"
proof -
  have "carries L (SolanaSql (es @ [e])) tx i" if "carries L (SolanaSql es) tx i" for tx i
    using that payout_enqueue unfolding carries_def by blast
  with assms show ?thesis
    by (auto simp: chain_ok_def event_ids_def elim: list_all2_mono)
qed

lemma carried_step:
  assumes "8 \<le> length (sl_sha256 L (bytes ''global:add_reward''))" "sync_step L key ok y y'" "carried L y"
  shows "carried L y'"
proof -
  have ok: "chain_ok L (sm_state y)"
    and hands: "\<forall>w \<in> set (sm_workers y). \<forall>e \<in> set (held w). scanned (sy_table (sm_state y)) e"
    using assms(3) by (simp_all add: carried_def)
  from assms(2) show ?thesis
  proof (cases rule: sync_step.cases)
    case (work i ve w' s')
    have "\<forall>e \<in> set (held (sm_workers y ! i)). scanned (sy_table (sm_state y)) e"
      using hands nth_mem [OF work(2)] by blast
    note c = carried_worker [OF assms(1) work(4) ok this]
    have "scanned (sy_table s') e" if "w \<in> set ((sm_workers y)[i := w'])" "e \<in> set (held w)" for w e
    proof -
      have "w = w' \<or> w \<in> set (sm_workers y)"
        using that(1) set_update_subset_insert [of "sm_workers y" i w'] by blast
      with hands c that(2) have "scanned (sy_table (sm_state y)) e" by blast
      with worker_step_rows [OF work(4)] show ?thesis by (simp add: scanned_def payout_of_def)
    qed
    with c show ?thesis by (simp add: work(1) carried_def)
  next
    case (restart i)
    have "scanned (sy_table (sm_state y)) e"
      if "w \<in> set ((sm_workers y)[i := Idle])" "e \<in> set (held w)" for w e
      using that hands set_update_subset_insert [of "sm_workers y" i Idle] by auto
    with ok show ?thesis by (simp add: restart(1) carried_def)
  next
    case (enqueue es e)
    have "scanned (SolanaSql (es @ [e])) x" if "scanned (sy_table (sm_state y)) x" for x
      using that payout_enqueue unfolding scanned_def enqueue(2) by blast
    with hands chain_ok_enqueue [OF ok enqueue(2,3)] show ?thesis
      by (simp add: enqueue(1) carried_def)
  qed
qed

lemma carried_reach:
  assumes "8 \<le> length (sl_sha256 L (bytes ''global:add_reward''))" "sync_reach L key ok n y"
  shows "carried L y"
  using assms(2)
proof (induction rule: sync_reach.induct)
  case (start es)
  then show ?case by (simp add: carried_def chain_ok_def event_ids_def)
next
  case (step y y')
  from carried_step [OF assms(1) step.hyps(2) step.IH] show ?case .
qed

subsection \<open>Totals\<close>

definition onchain :: "transaction list \<Rightarrow> rat" where
  "onchain txs = (\<Sum>tx\<leftarrow>txs. of_nat (unat (chain_amount tx)))"

definition payable :: "rat \<Rightarrow> bool" where
  "payable a \<longleftrightarrow> decimal4 a \<and> 0 \<le> a \<and> a \<le> 1000000"

definition amount_of :: "SolanaSyncEvent list \<Rightarrow> string \<Rightarrow> rat" where
  "amount_of es i = (case payout_of (SolanaSql es) i of None \<Rightarrow> 0 | Some (pk, a) \<Rightarrow> a)"

lemma payout_row: "distinct (map e_ID es) \<Longrightarrow> e \<in> set es \<Longrightarrow> payout_of (SolanaSql es) (e_ID e) = Some (payee e)"
  by (simp add: payout_of_SolanaSql column_unique)

lemma payout_rowE:
  assumes "payout_of (SolanaSql es) i = Some x"
  obtains e where "e \<in> set es" "e_ID e = i" "payee e = x"
  using column_Some [of e_ID payee es i x] assms that by (auto simp: payout_of_SolanaSql)

lemma onchain_near:
  assumes "list_all2 (carries L (SolanaSql es)) txs ids" "\<forall>e \<in> set es. payable (e_Amount e)"
  shows "onchain txs \<le> 1000000000 * (\<Sum>i\<leftarrow>ids. amount_of es i)
    \<and> 1000000000 * (\<Sum>i\<leftarrow>ids. amount_of es i) \<le> onchain txs + of_nat (length txs)"
  using assms(1)
proof (induction rule: list_all2_induct)
  case (Cons tx txs i ids)
  then obtain pk a where a: "payout_of (SolanaSql es) i = Some (pk, a)" "chain_amount tx = amount_raw (fl a)"
    by (auto simp: carries_def)
  then have "payable a" using assms(2) by (auto elim: payout_rowE)
  then have "of_nat (unat (amount_raw (fl a))) = a * 1000000000
      \<or> of_nat (unat (amount_raw (fl a))) = a * 1000000000 - 1"
    unfolding payable_def using amount_raw_near by blast
  with Cons.IH a show ?case by (auto simp: onchain_def amount_of_def distrib_left)
qed (simp add: onchain_def)

text \<open>The worth of some rows, and of identifiers among them.\<close>

lemma rows_total:
  assumes "distinct (map e_ID es)"
  shows "(\<Sum>e\<leftarrow>filter P es. e_Amount e) = (\<Sum>i \<in> e_ID ` set (filter P es). amount_of es i)"
proof -
  have "amount_of es (e_ID e) = e_Amount e" if "e \<in> set (filter P es)" for e
    using payout_row [OF assms] that by (simp add: amount_of_def)
  then have "(\<Sum>e\<leftarrow>filter P es. e_Amount e) = sum_list (map (amount_of es) (map e_ID (filter P es)))"
    unfolding map_map by (intro arg_cong [where f = sum_list] map_cong) auto
  also have "\<dots> = (\<Sum>i \<in> set (map e_ID (filter P es)). amount_of es i)"
    by (intro sum_list_distinct_conv_sum_set distinct_map_filter assms)
  finally show ?thesis by simp
qed

lemma amount_of_nonneg: "\<forall>e \<in> set es. payable (e_Amount e) \<Longrightarrow> 0 \<le> amount_of es i"
  by (auto simp: amount_of_def payable_def split: option.splits elim!: payout_rowE)

lemma paid_at_most:
  assumes "distinct (map e_ID es)" "\<forall>e \<in> set es. payable (e_Amount e)" "distinct ids"
    and "set ids \<subseteq> e_ID ` set (filter P es)"
  shows "(\<Sum>i\<leftarrow>ids. amount_of es i) \<le> (\<Sum>e\<leftarrow>filter P es. e_Amount e)"
  unfolding rows_total [OF assms(1)] sum_list_distinct_conv_sum_set [OF assms(3)]
  by (rule sum_mono2 [OF _ assms(4)]) (use amount_of_nonneg [OF assms(2)] in auto)

lemma paid_at_least:
  assumes "distinct (map e_ID es)" "\<forall>e \<in> set es. payable (e_Amount e)" "distinct ids"
    and "e_ID ` set (filter P es) \<subseteq> set ids"
  shows "(\<Sum>e\<leftarrow>filter P es. e_Amount e) \<le> (\<Sum>i\<leftarrow>ids. amount_of es i)"
  unfolding rows_total [OF assms(1)] sum_list_distinct_conv_sum_set [OF assms(3)]
  by (rule sum_mono2 [OF _ assms(4)]) (use amount_of_nonneg [OF assms(2)] in auto)

lemma status_row: "distinct (map e_ID es) \<Longrightarrow> e \<in> set es \<Longrightarrow> status_of (SolanaSql es) (e_ID e) = Some (e_Status e)"
  by (simp add: status_of_def column_unique)

text \<open>The transactions to one address, and the identifiers behind them.\<close>

definition chain_to :: "byte list \<Rightarrow> transaction list \<Rightarrow> transaction list" where
  "chain_to addr txs = filter (\<lambda>tx. recipient tx = addr) txs"

lemma carries_to:
  assumes "list_all2 (carries L tbl) txs ids"
  obtains ids' where "list_all2 (carries L tbl) (chain_to addr txs) ids'" "set ids' \<subseteq> set ids"
    "distinct ids \<Longrightarrow> distinct ids'"
    "\<And>i. i \<in> set ids' \<Longrightarrow> \<exists>pk a. payout_of tbl i = Some (pk, a) \<and> node_address L pk = Some addr"
  using assms
proof (induction txs ids arbitrary: thesis rule: list_all2_induct)
  case Nil
  show ?case by (rule Nil.prems [of "[]"]) (simp_all add: chain_to_def)
next
  case (Cons tx txs i ids)
  obtain ids' where ids': "list_all2 (carries L tbl) (chain_to addr txs) ids'" "set ids' \<subseteq> set ids"
    "distinct ids \<Longrightarrow> distinct ids'"
    "\<And>i. i \<in> set ids' \<Longrightarrow> \<exists>pk a. payout_of tbl i = Some (pk, a) \<and> node_address L pk = Some addr"
    by (rule Cons.IH) blast
  have "\<exists>pk a. payout_of tbl i = Some (pk, a) \<and> node_address L pk = Some (recipient tx)"
    using Cons.hyps(1) by (auto simp: carries_def)
  with ids' Cons.hyps(1) show ?case
    by (intro Cons.prems [of "if recipient tx = addr then i # ids' else ids'"])
       (auto simp: chain_to_def split: if_splits)
qed

text \<open>What the transactions of a single worker stand for.\<close>

lemma sole_paid:
  assumes "8 \<le> length (sl_sha256 L (bytes ''global:add_reward''))"
    and "sync_reach L key ok 1 y" "\<And>ve. ok ve \<Longrightarrow> xe_send (ve_rpc ve) \<noteq> ReplyLost"
    and "sy_table (sm_state y) = SolanaSql es"
  shows "distinct (map e_ID es)" "distinct (sy_paid (sm_state y))"
    "list_all2 (carries L (SolanaSql es)) (sy_chain (sm_state y)) (sy_paid (sm_state y))"
    "set (sy_paid (sm_state y)) \<subseteq> e_ID ` set (filter (\<lambda>e. e_Status e \<noteq> PENDING) es)"
    "e_ID ` set (filter (\<lambda>e. e_Status e = DONE) es) \<subseteq> set (sy_paid (sm_state y))"
proof -
  have "carried L y" by (rule carried_reach [OF assms(1,2)])
  then show d: "distinct (map e_ID es)"
    and "list_all2 (carries L (SolanaSql es)) (sy_chain (sm_state y)) (sy_paid (sm_state y))"
    by (simp_all add: carried_def chain_ok_def assms(4) event_ids_def)
  have "\<exists>w. sm_workers y = [w] \<and> sole_inv w (sm_state y)" using sole_inv_reach assms(2,3) by simp
  then have p: "paid_once (sm_state y)" by (auto simp: sole_inv_def)
  then show "distinct (sy_paid (sm_state y))" by (simp add: paid_once_def)
  show "set (sy_paid (sm_state y)) \<subseteq> e_ID ` set (filter (\<lambda>e. e_Status e \<noteq> PENDING) es)"
  proof
    fix i assume "i \<in> set (sy_paid (sm_state y))"
    with p have i: "status_of (SolanaSql es) i \<in> {Some PROCESSING, Some DONE}"
      by (simp add: paid_once_def assms(4))
    then have "i \<in> set (map e_ID es)"
      using status_of_ids [of "SolanaSql es" i] by (auto simp: event_ids_def)
    then obtain e where "e \<in> set es" "i = e_ID e" by auto
    with i status_row [OF d] show "i \<in> e_ID ` set (filter (\<lambda>e. e_Status e \<noteq> PENDING) es)" by auto
  qed
  show "e_ID ` set (filter (\<lambda>e. e_Status e = DONE) es) \<subseteq> set (sy_paid (sm_state y))"
    using p status_row [OF d] by (auto simp: paid_once_def assms(4))
qed

text \<open>What reached one address is covered by the events of the one owner who has it.\<close>

lemma sole_paid_to:
  assumes "8 \<le> length (sl_sha256 L (bytes ''global:add_reward''))"
    and "sync_reach L key ok 1 y" "\<And>ve. ok ve \<Longrightarrow> xe_send (ve_rpc ve) \<noteq> ReplyLost"
    and "sy_table (sm_state y) = SolanaSql es" "\<forall>e \<in> set es. payable (e_Amount e)"
    and "\<forall>e \<in> set es. node_address L (e_RunnerPubkey e) = Some addr \<longrightarrow> e_RunnerPubkey e = pk"
  shows "onchain (chain_to addr (sy_chain (sm_state y)))
    \<le> 1000000000 * (\<Sum>e\<leftarrow>filter (\<lambda>e. e_RunnerPubkey e = pk) es. e_Amount e)"
proof -
  note p = sole_paid [OF assms(1-4)]
  obtain ids where ids: "list_all2 (carries L (SolanaSql es)) (chain_to addr (sy_chain (sm_state y))) ids" "distinct ids"
    and to: "\<And>i. i \<in> set ids \<Longrightarrow> \<exists>pk a. payout_of (SolanaSql es) i = Some (pk, a) \<and> node_address L pk = Some addr"
    using carries_to [OF p(3)] p(2) by metis
  have "i \<in> e_ID ` set (filter (\<lambda>e. e_RunnerPubkey e = pk) es)" if "i \<in> set ids" for i
  proof -
    from to [OF that] obtain q a where q: "payout_of (SolanaSql es) i = Some (q, a)" "node_address L q = Some addr"
      by blast
    from q(1) obtain e where e: "e \<in> set es" "e_ID e = i" "payee e = (q, a)" by (rule payout_rowE)
    with assms(6) q(2) have "e_RunnerPubkey e = pk" by simp
    with e show ?thesis by auto
  qed
  then have "set ids \<subseteq> e_ID ` set (filter (\<lambda>e. e_RunnerPubkey e = pk) es)" by blast
  from paid_at_most [OF p(1) assms(5) ids(2) this] onchain_near [OF ids(1) assms(5)] show ?thesis by linarith
qed

subsection \<open>Properties\<close>

text \<open>
  The payouts balance: a single worker that loses no reply of the chain never puts more on chain than the events it
  has taken are worth, in raw units, and all that its finished events are worth but for less than one unit a
  transaction, through lost database requests, restarts at any point and payouts queued meanwhile.
\<close>
theorem payouts_balance:
  assumes "length (sl_sha256 L (bytes ''global:add_reward'')) = 32"
    and "sync_reach L key ok 1 y" "\<And>ve. ok ve \<Longrightarrow> xe_send (ve_rpc ve) \<noteq> ReplyLost"
    and "sy_table (sm_state y) = SolanaSql es" "\<forall>e \<in> set es. payable (e_Amount e)"
  shows "onchain (sy_chain (sm_state y)) \<le> 1000000000 * (\<Sum>e\<leftarrow>filter (\<lambda>e. e_Status e \<noteq> PENDING) es. e_Amount e)
    \<and> 1000000000 * (\<Sum>e\<leftarrow>filter (\<lambda>e. e_Status e = DONE) es. e_Amount e)
      \<le> onchain (sy_chain (sm_state y)) + of_nat (length (sy_chain (sm_state y)))"
proof -
  have "8 \<le> length (sl_sha256 L (bytes ''global:add_reward''))" using assms(1) by simp
  note p = sole_paid [OF this assms(2,3,4)]
  show ?thesis
    using onchain_near [OF p(3) assms(5)] paid_at_most [OF p(1) assms(5) p(2,4)] paid_at_least [OF p(1) assms(5) p(2,5)]
    by linarith
qed

theorem payouts_balance_witness:
  "\<exists>y e. sync_reach demo_lib ''key'' reliable 1 y \<and> sy_table (sm_state y) = SolanaSql [e] \<and> e_Status e = DONE
     \<and> e_Amount e = 10 \<and> length (sy_chain (sm_state y)) = 1
     \<and> onchain (sy_chain (sm_state y)) \<in> {9999999999..10000000000}"
proof -
  let ?y = "fold act (replicate 4 (0, demo_step_env Delivered)) (demo_system 1 ''r'')"
  let ?e = "(demo_event ''e'' ''r'')\<lparr>e_Status := DONE, e_TxSignature := Some ''sig'', e_UpdatedAt := 1\<rparr>"
  have r: "sync_reach demo_lib ''key'' reliable 1 ?y"
    by (rule act_run [OF demo_start]) (simp add: reliable_def demo_step_env_def demo_rpc_def demo_system_def)
  have t: "sy_table (sm_state ?y) = SolanaSql [?e]" "length (sy_chain (sm_state ?y)) = 1"
    by (simp_all add: demo_run_simps eval_nat_numeral)
  have l: "length (sl_sha256 demo_lib (bytes ''global:add_reward'')) = 32" by (simp add: demo_lib_def)
  have k: "\<And>ve. reliable ve \<Longrightarrow> xe_send (ve_rpc ve) \<noteq> ReplyLost" by (simp add: reliable_def)
  have a: "\<forall>e \<in> set [?e]. payable (e_Amount e)" by (simp add: payable_def demo_event_def decimal4_def)
  from payouts_balance [OF l r k t(1) a] r t show ?thesis
    by (intro exI [of _ ?y] exI [of _ ?e]) (simp add: demo_event_def)
qed

end
