(* ===== verification/Treasury.thy ===== *)
theory Treasury
  imports Settlement Payouts
begin

text \<open>
  Earning and paying together: the settlements of \<^verbatim>\<open>storage.go\<close> queue payouts in the table that the worker of
  \<^verbatim>\<open>solana_sync.go\<close> empties. The state is the database, the chain and the worker; a run of it is, seen from the
  worker, a run of \<open>sync_step\<close> in which the settlements are the ones who queue.
\<close>

subsection \<open>The system\<close>

record treasury =
  ty_db :: db
  ty_chain :: "transaction list"
  ty_paid :: "string list"
  ty_worker :: worker

definition sync_view :: "treasury \<Rightarrow> sync_state" where
  "sync_view t = \<lparr>sy_table = SolanaSql (t_sync_events (ty_db t)), sy_chain = ty_chain t, sy_paid = ty_paid t\<rparr>"

definition worker_view :: "treasury \<Rightarrow> system" where
  "worker_view t = \<lparr>sm_state = sync_view t, sm_workers = [ty_worker t]\<rparr>"

inductive treasury_step ::
  "(string \<Rightarrow> string option) \<Rightarrow> rat \<Rightarrow> solana_lib \<Rightarrow> string \<Rightarrow> (step_env \<Rightarrow> bool) \<Rightarrow> treasury \<Rightarrow> treasury \<Rightarrow> bool"
  for uuid_in threshold L key ok
where
  settles: "settle_job uuid_in threshold j (ty_db t) = (db', r) \<Longrightarrow>
    j_uuid j \<notin> set (map e_ID (t_sync_events (ty_db t))) \<Longrightarrow>
    treasury_step uuid_in threshold L key ok t (t\<lparr>ty_db := db'\<rparr>)"
| pays: "ok ve \<Longrightarrow> worker_step L key ve (ty_worker t, sync_view t) = (w', s') \<Longrightarrow> sy_table s' = SolanaSql es' \<Longrightarrow>
    treasury_step uuid_in threshold L key ok t
      \<lparr>ty_db = (ty_db t)\<lparr>t_sync_events := es'\<rparr>, ty_chain = sy_chain s', ty_paid = sy_paid s', ty_worker = w'\<rparr>"
| restarts: "treasury_step uuid_in threshold L key ok t (t\<lparr>ty_worker := Idle\<rparr>)"

text \<open>A run starts with an empty queue and balances below the threshold.\<close>

inductive treasury_reach ::
  "(string \<Rightarrow> string option) \<Rightarrow> rat \<Rightarrow> solana_lib \<Rightarrow> string \<Rightarrow> (step_env \<Rightarrow> bool) \<Rightarrow> db \<Rightarrow> treasury \<Rightarrow> bool"
  for uuid_in threshold L key ok db
where
  start: "wf_db db \<Longrightarrow> below threshold db \<Longrightarrow> t_sync_events db = [] \<Longrightarrow>
    treasury_reach uuid_in threshold L key ok db \<lparr>ty_db = db, ty_chain = [], ty_paid = [], ty_worker = Idle\<rparr>"
| step: "treasury_reach uuid_in threshold L key ok db t \<Longrightarrow> treasury_step uuid_in threshold L key ok t t' \<Longrightarrow>
    treasury_reach uuid_in threshold L key ok db t'"

subsection \<open>A settlement queues at most one payout\<close>

lemma create_payout_event:
  assumes "create_payout_event_if_threshold uuid now pk threshold db = Inr (db', p)"
  shows "t_sync_events db' = t_sync_events db
    \<or> (\<exists>n e. n \<in> set (t_runner_nodes db) \<and> t_sync_events db' = t_sync_events db @ [e] \<and> e_ID e = uuid \<and> e_Status e = PENDING
        \<and> threshold \<le> e_Amount e \<and> e_Amount e = r_OffchainAccumulatedTokens n + new_reward (r_StakedAmount n))"
proof (cases "filter (\<lambda>n. r_OwnerPubkey n = pk) (t_runner_nodes db)")
  case (Cons n ns)
  then have "n \<in> set (t_runner_nodes db)" by (auto simp: filter_eq_Cons_iff)
  with assms Cons show ?thesis
    by (auto simp: create_payout_event_if_threshold_def Let_def split: if_splits)
qed (use assms in \<open>simp add: create_payout_event_if_threshold_def\<close>)

lemma settle_job_appends:
  assumes "settle_job uuid_in threshold j db = (db', r)"
  shows "t_sync_events db' = t_sync_events db
    \<or> (\<exists>n e. n \<in> set (t_runner_nodes db) \<and> t_sync_events db' = t_sync_events db @ [e] \<and> e_ID e = j_uuid j \<and> e_Status e = PENDING
        \<and> threshold \<le> e_Amount e \<and> e_Amount e = r_OffchainAccumulatedTokens n + new_reward (r_StakedAmount n))"
  using assms [unfolded settle_job_def]
proof (cases rule: settlement_cases)
  case (committed res)
  then obtain c db1 db2 p where
    1: "deduct_credit c db = Inr db1" "add_spent c (1 / 100) db1 = Inr db2"
    and 3: "create_payout_event_if_threshold (j_uuid j) (j_now j) (j_runner j) threshold db2 = Inr (db', p)"
    by (auto simp: settlement_statements_def query_Inr_iff split: option.splits sum.splits)
  have same: "t_sync_events db2 = t_sync_events db" "t_runner_nodes db2 = t_runner_nodes db"
    using 1 by (auto simp: deduct_credit_def add_spent_def Let_def split: if_splits)
  from create_payout_event [OF 3] show ?thesis unfolding same .
qed simp

lemma settle_job_event:
  assumes "wf_db db" "below threshold db" "settle_job uuid_in threshold j db = (db', r)"
  shows "t_sync_events db' = t_sync_events db
    \<or> (\<exists>e. t_sync_events db' = t_sync_events db @ [e] \<and> e_ID e = j_uuid j \<and> e_Status e = PENDING
        \<and> threshold \<le> e_Amount e \<and> e_Amount e < threshold + 1 / 20 \<and> decimal4 (e_Amount e))"
proof -
  have "r_OffchainAccumulatedTokens n + new_reward (r_StakedAmount n) < threshold + 1 / 20
      \<and> decimal4 (r_OffchainAccumulatedTokens n + new_reward (r_StakedAmount n))"
    if "n \<in> set (t_runner_nodes db)" for n
    using assms(1,2) that new_reward_bounds [of "r_StakedAmount n"] new_reward_decimal
    by (force simp: wf_db_def below_def decimal4_add)
  with settle_job_appends [OF assms(3)] show ?thesis by metis
qed

subsection \<open>The money supply\<close>

text \<open>What the runners hold and what was queued for them; a settlement adds at most its reward, for one credit.\<close>

definition money :: "db \<Rightarrow> rat" where
  "money db = (\<Sum>n\<leftarrow>t_runner_nodes db. r_OffchainAccumulatedTokens n) + (\<Sum>e\<leftarrow>t_sync_events db. e_Amount e)"

lemma create_payout_money:
  assumes "distinct (map r_OwnerPubkey (t_runner_nodes db))" "\<forall>n \<in> set (t_runner_nodes db). decimal4 (r_OffchainAccumulatedTokens n)"
    and "create_payout_event_if_threshold uuid now pk threshold db = Inr (db', p)"
  shows "money db' \<le> money db + 1 / 20"
proof (cases "filter (\<lambda>n. r_OwnerPubkey n = pk) (t_runner_nodes db)")
  case Nil
  with assms(3) show ?thesis by (simp add: create_payout_event_if_threshold_def)
next
  case (Cons n ns)
  then have n: "n \<in> set (t_runner_nodes db)" "r_OwnerPubkey n = pk" by (auto simp: filter_eq_Cons_iff)
  let ?b = "r_OffchainAccumulatedTokens n + new_reward (r_StakedAmount n)"
  let ?off = "if ?b \<ge> threshold then 0 else ?b"
  let ?f = "\<lambda>x :: runner_row. x\<lparr>r_OffchainAccumulatedTokens := the (numeric_12_4 ?off),
      r_TotalEarnedTokensAllTime := the (numeric_12_4 (r_TotalEarnedTokensAllTime x + new_reward (r_StakedAmount n))),
      r_UpdatedAt := now\<rparr>"
  have "numeric_12_4 ?off \<noteq> None"
    using assms(3) n Cons by (auto simp: create_payout_event_if_threshold_def Let_def list_ex_iff split: if_splits)
  moreover have "decimal4 ?off" using assms(2) n new_reward_decimal by (simp add: decimal4_add)
  ultimately have off: "the (numeric_12_4 ?off) = ?off" by (rule numeric_12_4_the)
  have db': "t_runner_nodes db' = update_where (\<lambda>x. r_OwnerPubkey x = pk) ?f (t_runner_nodes db)"
    "(\<Sum>e\<leftarrow>t_sync_events db'. e_Amount e) = (\<Sum>e\<leftarrow>t_sync_events db. e_Amount e) + (if ?b \<ge> threshold then ?b else 0)"
    using assms(3) Cons by (auto simp: create_payout_event_if_threshold_def Let_def split: if_splits)
  obtain a b where ab: "t_runner_nodes db = a @ n # b"
    "update_where (\<lambda>x. r_OwnerPubkey x = pk) ?f (t_runner_nodes db) = a @ ?f n # b"
    using update_where_split [OF assms(1) n(1), of ?f] n(2) by auto
  have "(\<Sum>x\<leftarrow>t_runner_nodes db'. r_OffchainAccumulatedTokens x)
      = (\<Sum>x\<leftarrow>t_runner_nodes db. r_OffchainAccumulatedTokens x) - r_OffchainAccumulatedTokens n + ?off"
    unfolding db'(1) ab(2) by (simp add: ab(1) off)
  then have "money db' = money db + new_reward (r_StakedAmount n)" unfolding money_def db'(2) by simp
  then show ?thesis using new_reward_bounds [of "r_StakedAmount n"] by simp
qed

lemma settle_job_money:
  assumes "wf_db db" "settle_job uuid_in threshold j db = (db', r)"
  shows "money db' - money db \<le> of_int (credits db - credits db') / 20"
  using assms(2) [unfolded settle_job_def]
proof (cases rule: settlement_cases)
  case (committed res)
  then obtain c db1 db2 p where
    1: "deduct_credit c db = Inr db1" "add_spent c (1 / 100) db1 = Inr db2"
    and 3: "create_payout_event_if_threshold (j_uuid j) (j_now j) (j_runner j) threshold db2 = Inr (db', p)"
    by (auto simp: settlement_statements_def query_Inr_iff split: option.splits sum.splits)
  have same: "t_sync_events db2 = t_sync_events db" "t_runner_nodes db2 = t_runner_nodes db"
    using 1 by (auto simp: deduct_credit_def add_spent_def Let_def split: if_splits)
  then have "money db2 = money db" by (simp add: money_def)
  with create_payout_money [OF _ _ 3] assms(1) same(2) have "money db' \<le> money db + 1 / 20"
    by (simp add: wf_db_def)
  moreover have "credits db' = credits db - 1"
    using settlement_statements_Inr [OF assms(1) decimal4_cent committed(1)] by blast
  ultimately show ?thesis by simp
qed simp

subsection \<open>The books\<close>

text \<open>
  The tables are in order when they satisfy the constraints of the schema, hold balances below the threshold and queue
  amounts that can be paid.
\<close>

definition in_order :: "rat \<Rightarrow> db \<Rightarrow> bool" where
  "in_order threshold db \<longleftrightarrow>
     wf_db db \<and> below threshold db \<and> (\<forall>e \<in> set (t_sync_events db). payable (e_Amount e))"

lemma in_orderD:
  "in_order threshold db \<Longrightarrow> wf_db db" "in_order threshold db \<Longrightarrow> below threshold db"
  "in_order threshold db \<Longrightarrow> e \<in> set (t_sync_events db) \<Longrightarrow> payable (e_Amount e)"
  by (simp_all add: in_order_def)

lemma settle_job_in_order:
  assumes "0 < threshold" "threshold \<le> 999999" "in_order threshold db"
  shows "in_order threshold (fst (settle_job uuid_in threshold j db))"
proof -
  obtain db' r where s: "settle_job uuid_in threshold j db = (db', r)" by fastforce
  note o = in_orderD [OF assms(3)]
  have "wf_db db'" using settled.keep [OF o(1), of uuid_in threshold j] s by simp
  moreover have "below threshold db'" using settle_job_below [OF o(1) assms(1) o(2), of uuid_in j] s by simp
  moreover have "payable (e_Amount e)" if "e \<in> set (t_sync_events db')" for e
    using settle_job_event [OF o(1,2) s] o(3) that assms(1,2) by (auto simp: payable_def)
  ultimately show ?thesis by (simp add: in_order_def s)
qed

subsection \<open>The invariant of a run\<close>

definition treasury_inv ::
  "rat \<Rightarrow> solana_lib \<Rightarrow> string \<Rightarrow> (step_env \<Rightarrow> bool) \<Rightarrow> db \<Rightarrow> treasury \<Rightarrow> bool" where
  "treasury_inv threshold L key ok db0 t \<longleftrightarrow>
     in_order threshold (ty_db t) \<and> (\<forall>pk. account_worth pk (ty_db t) = account_worth pk db0)
     \<and> sync_reach L key ok 1 (worker_view t)"

text \<open>Only the amounts and owners of the queue matter for the accounts.\<close>

lemma queued_payees: "map payee es' = map payee es \<Longrightarrow> queued pk es' = queued pk es"
proof -
  have q: "queued pk xs = map snd (filter (\<lambda>p. fst p = pk) (map payee xs))" for xs
    by (simp add: queued_def filter_map o_def)
  show "map payee es' = map payee es \<Longrightarrow> queued pk es' = queued pk es" unfolding q by simp
qed

lemma db_with_events:
  assumes "map payee es = map payee (t_sync_events db)"
  shows "wf_db (db\<lparr>t_sync_events := es\<rparr>) = wf_db db" "below threshold (db\<lparr>t_sync_events := es\<rparr>) = below threshold db"
    "account_worth pk (db\<lparr>t_sync_events := es\<rparr>) = account_worth pk db"
  using queued_payees [OF assms] by (simp_all add: wf_db_def below_def account_worth_def ledger_of_def)

lemma worker_in_order:
  assumes "map payee es = map payee (t_sync_events db)"
  shows "in_order threshold (db\<lparr>t_sync_events := es\<rparr>) = in_order threshold db"
proof -
  have "e_Amount ` set es = e_Amount ` set (t_sync_events db)"
    using arg_cong [OF assms, of "\<lambda>xs. snd ` set xs"] by (simp add: image_image)
  then have "(\<forall>e \<in> set es. payable (e_Amount e)) = (\<forall>e \<in> set (t_sync_events db). payable (e_Amount e))"
    by (metis (no_types, lifting) image_iff)
  with db_with_events [OF assms] show ?thesis by (simp add: in_order_def)
qed

lemma view_enqueue:
  assumes "sync_reach L key ok 1 (worker_view t)" "t_sync_events db' = t_sync_events (ty_db t) @ [e]"
    and "e_ID e \<notin> set (map e_ID (t_sync_events (ty_db t)))" "e_Status e = PENDING"
  shows "sync_reach L key ok 1 (worker_view (t\<lparr>ty_db := db'\<rparr>))"
proof -
  have "sync_step L key ok (worker_view t) (worker_view (t\<lparr>ty_db := db'\<rparr>))"
    using enqueue [where y = "worker_view t" and es = "t_sync_events (ty_db t)" and e = e and L = L and key = key and ok = ok]
      assms(2-4) by (simp add: worker_view_def sync_view_def)
  with assms(1) show ?thesis by (rule sync_reach.step)
qed

lemma treasury_settles:
  assumes "treasury_inv threshold L key ok db0 t" "0 < threshold" "threshold \<le> 999999"
    and "settle_job uuid_in threshold j (ty_db t) = (db', r)" "j_uuid j \<notin> set (map e_ID (t_sync_events (ty_db t)))"
  shows "treasury_inv threshold L key ok db0 (t\<lparr>ty_db := db'\<rparr>)"
proof -
  have inv: "in_order threshold (ty_db t)" and run: "sync_reach L key ok 1 (worker_view t)"
    using assms(1) by (simp_all add: treasury_inv_def)
  have kept: "in_order threshold db'" "account_worth pk db' = account_worth pk (ty_db t)" for pk
    using settle_job_in_order [OF assms(2,3) inv, of uuid_in j]
      settled.worth [OF in_orderD(1) [OF inv], of pk uuid_in threshold j] by (simp_all add: assms(4))
  have "sync_reach L key ok 1 (worker_view (t\<lparr>ty_db := db'\<rparr>))"
    using settle_job_appends [OF assms(4)]
  proof
    assume "t_sync_events db' = t_sync_events (ty_db t)"
    then have "worker_view (t\<lparr>ty_db := db'\<rparr>) = worker_view t" by (simp add: worker_view_def sync_view_def)
    with run show ?thesis by simp
  qed (use view_enqueue [OF run] assms(5) in auto)
  with assms(1) kept show ?thesis by (simp add: treasury_inv_def)
qed

text \<open>A worker changes neither the owners nor the amounts of the queue.\<close>

lemma worker_payees:
  assumes "worker_step L key ve (w, sync_view t) = (w', s')" "sy_table s' = SolanaSql es'"
  shows "map payee es' = map payee (t_sync_events (ty_db t))" "map e_Amount es' = map e_Amount (t_sync_events (ty_db t))"
proof -
  have "map (\<lambda>e. (e_ID e, payee e)) es' = map (\<lambda>e. (e_ID e, payee e)) (t_sync_events (ty_db t))"
    using worker_step_rows [OF assms(1)] by (simp add: assms(2) sync_view_def payout_rows_def)
  from arg_cong [OF this, of "map snd"] show p: "map payee es' = map payee (t_sync_events (ty_db t))"
    by (simp add: o_def)
  from arg_cong [OF p, of "map snd"] show "map e_Amount es' = map e_Amount (t_sync_events (ty_db t))"
    by (simp add: o_def)
qed

lemma treasury_pays:
  assumes "treasury_inv threshold L key ok db0 t" "ok ve"
    and "worker_step L key ve (ty_worker t, sync_view t) = (w', s')" "sy_table s' = SolanaSql es'"
    and "t' = \<lparr>ty_db = (ty_db t)\<lparr>t_sync_events := es'\<rparr>, ty_chain = sy_chain s', ty_paid = sy_paid s', ty_worker = w'\<rparr>"
  shows "treasury_inv threshold L key ok db0 t'"
proof -
  note p = worker_payees(1) [OF assms(3,4)]
  have "worker_view t' = \<lparr>sm_state = s', sm_workers = (sm_workers (worker_view t))[0 := w']\<rparr>"
    by (simp add: worker_view_def sync_view_def assms(5) flip: assms(4))
  moreover have "sync_step L key ok (worker_view t) \<lparr>sm_state = s', sm_workers = (sm_workers (worker_view t))[0 := w']\<rparr>"
    by (rule work [where ok = ok and ve = ve]) (simp_all add: worker_view_def assms(2,3))
  ultimately have "sync_reach L key ok 1 (worker_view t')"
    using assms(1) sync_reach.step by (auto simp: treasury_inv_def)
  with assms(1,5) show ?thesis by (simp add: treasury_inv_def worker_in_order [OF p] db_with_events(3) [OF p])
qed

lemma treasury_reach_inv:
  assumes "treasury_reach uuid_in threshold L key ok db0 t" "0 < threshold" "threshold \<le> 999999"
  shows "treasury_inv threshold L key ok db0 t \<and> t_sync_events db0 = []"
  using assms(1)
proof (induction rule: treasury_reach.induct)
  case start
  have "worker_view \<lparr>ty_db = db0, ty_chain = [], ty_paid = [], ty_worker = Idle\<rparr>
      = \<lparr>sm_state = \<lparr>sy_table = SolanaSql [], sy_chain = [], sy_paid = []\<rparr>, sm_workers = replicate 1 Idle\<rparr>"
    using start(3) by (simp add: worker_view_def sync_view_def)
  with start sync_reach.start [of "[]" L key ok 1] show ?case by (simp add: treasury_inv_def in_order_def)
next
  case (step t t')
  from step.hyps(2) show ?case
  proof (cases rule: treasury_step.cases)
    case (settles j db' r)
    with treasury_settles [OF _ assms(2,3)] step.IH show ?thesis by blast
  next
    case (pays ve w' s' es')
    with treasury_pays step.IH show ?thesis by blast
  next
    case restarts
    have "sync_step L key ok (worker_view t) ((worker_view t)\<lparr>sm_workers := (sm_workers (worker_view t))[0 := Idle]\<rparr>)"
      by (rule sync_step.restart) (simp add: worker_view_def)
    then have "sync_reach L key ok 1 (worker_view t')"
      using step.IH sync_reach.step by (auto simp: treasury_inv_def worker_view_def sync_view_def restarts)
    with step.IH show ?thesis by (simp add: treasury_inv_def restarts)
  qed
qed

lemma treasury_paid:
  assumes "length (sl_sha256 L (bytes ''global:add_reward'')) = 32"
    and "treasury_reach uuid_in threshold L key ok db0 t" "0 < threshold" "threshold \<le> 999999"
    and "\<forall>ve. ok ve \<longrightarrow> xe_send (ve_rpc ve) \<noteq> ReplyLost"
  shows "distinct (map e_ID (t_sync_events (ty_db t)))" "distinct (ty_paid t)"
    "list_all2 (carries L (SolanaSql (t_sync_events (ty_db t)))) (ty_chain t) (ty_paid t)"
    "set (ty_paid t) \<subseteq> e_ID ` set (filter (\<lambda>e. e_Status e \<noteq> PENDING) (t_sync_events (ty_db t)))"
proof -
  have run: "sync_reach L key ok 1 (worker_view t)"
    using treasury_reach_inv [OF assms(2-4)] by (simp add: treasury_inv_def)
  have view: "sm_state (worker_view t) = sync_view t" "sy_table (sync_view t) = SolanaSql (t_sync_events (ty_db t))"
    "sy_chain (sync_view t) = ty_chain t" "sy_paid (sync_view t) = ty_paid t"
    by (simp_all add: worker_view_def sync_view_def)
  have sha: "8 \<le> length (sl_sha256 L (bytes ''global:add_reward''))" using assms(1) by simp
  have "\<And>ve. ok ve \<Longrightarrow> xe_send (ve_rpc ve) \<noteq> ReplyLost" using assms(5) by blast
  from sole_paid [OF sha run this, unfolded view, OF _ refl]
  show "distinct (map e_ID (t_sync_events (ty_db t)))" "distinct (ty_paid t)"
    "list_all2 (carries L (SolanaSql (t_sync_events (ty_db t)))) (ty_chain t) (ty_paid t)"
    "set (ty_paid t) \<subseteq> e_ID ` set (filter (\<lambda>e. e_Status e \<noteq> PENDING) (t_sync_events (ty_db t)))" by blast+
qed

lemma treasury_money:
  assumes "treasury_reach uuid_in threshold L key ok db0 t" "0 < threshold" "threshold \<le> 999999"
  shows "money (ty_db t) - money db0 \<le> of_int (credits db0 - credits (ty_db t)) / 20"
  using assms(1)
proof (induction rule: treasury_reach.induct)
  case start
  then show ?case by simp
next
  case (step t t')
  from step.hyps(2) show ?case
  proof (cases rule: treasury_step.cases)
    case (settles j db' r)
    have "wf_db (ty_db t)" using treasury_reach_inv [OF step.hyps(1) assms(2,3)] by (simp add: treasury_inv_def in_order_def)
    from settle_job_money [OF this settles(2)] step.IH show ?thesis by (simp add: settles(1))
  next
    case (pays ve w' s' es')
    from worker_payees(2) [OF pays(3,4)] step.IH show ?thesis by (simp add: pays(1) money_def credits_def)
  next
    case restarts
    with step.IH show ?thesis by simp
  qed
qed

text \<open>What a runner earned beyond its balance, which is what was queued for it.\<close>

definition drawn :: "pubkey \<Rightarrow> db \<Rightarrow> rat" where
  "drawn pk db =
     (case lg_earned (ledger_of db) pk of None \<Rightarrow> 0 | Some x \<Rightarrow> x)
     - (case lg_balance (ledger_of db) pk of None \<Rightarrow> 0 | Some x \<Rightarrow> x)"

lemma drawn_queued: "drawn pk db = account_worth pk db + (\<Sum>e\<leftarrow>filter (\<lambda>e. e_RunnerPubkey e = pk) (t_sync_events db). e_Amount e)"
  by (simp add: drawn_def account_worth_def ledger_of_def queued_def)

subsection \<open>A sample run\<close>

lemma sync_exec_SolanaSql: "\<exists>es. fst (sync_exec f g (SolanaSql xs)) = SolanaSql es"
  by (cases f) (simp_all add: sync_exec_def)

lemma worker_step_SolanaSql:
  assumes "worker_step L key ve (w, s) = (w', s')" "sy_table s = SolanaSql xs"
  shows "\<exists>es. sy_table s' = SolanaSql es"
proof (cases w)
  case (Batch es)
  with assms sync_exec_SolanaSql [of "ve_mark ve" "update_where (\<lambda>e. e_ID e = ev_ID (hd es)) (\<lambda>e. e\<lparr>e_Status := PROCESSING\<rparr>)" xs]
  show ?thesis by (cases es) (auto simp: MarkProcessing_def split: prod.splits sum.splits)
next
  case (Marked e es)
  with assms show ?thesis by (auto split: prod.splits tx_result.splits dest: send_reward_table)
next
  case (Refused x es)
  have "sy_table s' = fst (MarkPendingAgain (ve_now ve) (ve_final ve) (ev_ID x) (SolanaSql xs))"
    using assms Refused by auto
  then show ?thesis unfolding MarkPendingAgain_def by (simp only: sync_exec_SolanaSql)
next
  case (Sent x sig es)
  have "sy_table s' = fst (MarkDone (ve_now ve) (ve_final ve) (ev_ID x) sig (SolanaSql xs))"
    using assms Sent by auto
  then show ?thesis unfolding MarkDone_def by (simp only: sync_exec_SolanaSql)
qed (use assms in \<open>auto split: sum.splits if_splits\<close>)

definition pay :: "step_env \<Rightarrow> treasury \<Rightarrow> treasury" where
  "pay ve t = (case worker_step demo_lib ''key'' ve (ty_worker t, sync_view t) of (w', s') \<Rightarrow>
     \<lparr>ty_db = (ty_db t)\<lparr>t_sync_events := (case sy_table s' of SolanaSql es \<Rightarrow> es | SchemaSql _ \<Rightarrow> [])\<rparr>,
        ty_chain = sy_chain s', ty_paid = sy_paid s', ty_worker = w'\<rparr>)"

lemma pay_run:
  "treasury_reach uuid_in threshold demo_lib ''key'' ok db0 t \<Longrightarrow> \<forall>ve \<in> set ves. ok ve \<Longrightarrow>
     treasury_reach uuid_in threshold demo_lib ''key'' ok db0 (fold pay ves t)"
proof (induction ves arbitrary: t)
  case (Cons ve ves)
  obtain w' s' where st: "worker_step demo_lib ''key'' ve (ty_worker t, sync_view t) = (w', s')" by fastforce
  obtain es' where es': "sy_table s' = SolanaSql es'"
    using worker_step_SolanaSql [OF st, of "t_sync_events (ty_db t)"] by (auto simp: sync_view_def)
  have "treasury_step uuid_in threshold demo_lib ''key'' ok t (pay ve t)"
    using pays [where ok = ok and ve = ve, OF _ st es'] Cons.prems(2) by (simp add: pay_def st es')
  with Cons.prems(1) have "treasury_reach uuid_in threshold demo_lib ''key'' ok db0 (pay ve t)"
    by (rule treasury_reach.step)
  with Cons.IH Cons.prems(2) show ?case by simp
qed simp

definition demo_treasury :: treasury where
  "demo_treasury = \<lparr>ty_db = demo_db 3 20 (99 / 100), ty_chain = [], ty_paid = [], ty_worker = Idle\<rparr>"

definition demo_settled :: treasury where
  "demo_settled = demo_treasury\<lparr>ty_db := fst (settle_job Some 1 (demo_job ''e'') (ty_db demo_treasury))\<rparr>"

lemma demo_settled_reach: "treasury_reach Some 1 demo_lib ''key'' reliable (demo_db 3 20 (99 / 100)) demo_settled"
proof (rule treasury_reach.step)
  have "decimal4 (99 / 100)" by (simp add: decimal4_def)
  then show "treasury_reach Some 1 demo_lib ''key'' reliable (demo_db 3 20 (99 / 100)) demo_treasury"
    unfolding demo_treasury_def
    by (intro treasury_reach.start wf_demo_db) (simp_all add: below_def demo_db_def demo_runner_def)
  show "treasury_step Some 1 demo_lib ''key'' reliable demo_treasury demo_settled"
    unfolding demo_settled_def
    by (rule settles [OF prod.collapse [symmetric]]) (simp add: demo_treasury_def demo_db_def)
qed

lemma demo_settled_events:
  "\<exists>e. t_sync_events (ty_db demo_settled) = [e] \<and> e_ID e = ''e'' \<and> e_RunnerPubkey e = ''r'' \<and> e_Amount e = 1005 / 1000
     \<and> e_Status e = PENDING"
  by (simp add: demo_settled_def demo_treasury_def settle_job_def demo_job_def demo_settlement new_reward_stake
      numeric_small round4_def)

definition demo_paid :: treasury where
  "demo_paid = fold pay (replicate 4 (demo_step_env Delivered)) demo_settled"

lemma demo_paid_reach: "treasury_reach Some 1 demo_lib ''key'' reliable (demo_db 3 20 (99 / 100)) demo_paid"
  unfolding demo_paid_def
  by (rule pay_run [OF demo_settled_reach]) (simp add: reliable_def demo_step_env_def demo_rpc_def)

lemma demo_paid_facts:
  "\<exists>tx. ty_chain demo_paid = [tx] \<and> node_address demo_lib ''r'' = Some (recipient tx)"
  "\<forall>x \<in> set (t_sync_events (ty_db demo_paid)). e_RunnerPubkey x = ''r''"
  "credits (ty_db demo_paid) = credits (ty_db demo_settled)"
proof -
  obtain e where e: "t_sync_events (ty_db demo_settled) = [e]" "e_ID e = ''e''" "e_RunnerPubkey e = ''r''"
    "e_Status e = PENDING" using demo_settled_events by blast
  have d: "ty_chain demo_settled = []" "ty_worker demo_settled = Idle"
    by (simp_all add: demo_settled_def demo_treasury_def)
  show "\<exists>tx. ty_chain demo_paid = [tx] \<and> node_address demo_lib ''r'' = Some (recipient tx)"
    "\<forall>x \<in> set (t_sync_events (ty_db demo_paid)). e_RunnerPubkey x = ''r''"
    "credits (ty_db demo_paid) = credits (ty_db demo_settled)"
    by (simp_all add: demo_paid_def pay_def sync_view_def e d demo_run_simps eval_nat_numeral recipient_def
        node_address_def credits_def)
qed

lemma demo_lib_facts:
  "length (sl_sha256 demo_lib (bytes ''global:add_reward'')) = 32"
  "reliable ve \<Longrightarrow> xe_send (ve_rpc ve) \<noteq> ReplyLost"
  by (simp_all add: demo_lib_def reliable_def)

subsection \<open>Properties\<close>

text \<open>
  C6. The supply is bounded: as long as the chain loses no reply, whatever else fails or restarts meanwhile, all the raw units
  that a single worker ever puts on chain are covered by what the runners held at the start and a twentieth of a token for
  each credit that the users were charged since.
\<close>
theorem supply_bounded:
  assumes "length (sl_sha256 L (bytes ''global:add_reward'')) = 32"
    and "treasury_reach uuid_in threshold L key ok db0 t" "0 < threshold" "threshold \<le> 999999"
    and "\<And>ve. ok ve \<Longrightarrow> xe_send (ve_rpc ve) \<noteq> ReplyLost"
  shows "onchain (ty_chain t) \<le> 1000000000 * ((\<Sum>n\<leftarrow>t_runner_nodes db0. r_OffchainAccumulatedTokens n)
    + of_int (credits db0 - credits (ty_db t)) / 20)"
proof -
  let ?es = "t_sync_events (ty_db t)"
  from treasury_reach_inv [OF assms(2-4)] have w: "wf_db (ty_db t)" and "t_sync_events db0 = []"
    and payables: "\<forall>e \<in> set ?es. payable (e_Amount e)" by (simp_all add: treasury_inv_def in_order_def)
  then have "money db0 = (\<Sum>n\<leftarrow>t_runner_nodes db0. r_OffchainAccumulatedTokens n)" by (simp add: money_def)
  with treasury_money [OF assms(2-4)] have m: "money (ty_db t)
      \<le> (\<Sum>n\<leftarrow>t_runner_nodes db0. r_OffchainAccumulatedTokens n) + of_int (credits db0 - credits (ty_db t)) / 20"
    by linarith
  have "0 \<le> (\<Sum>n\<leftarrow>t_runner_nodes (ty_db t). r_OffchainAccumulatedTokens n)"
    using w by (auto simp: wf_db_def intro!: sum_list_nonneg)
  with m have s: "(\<Sum>e\<leftarrow>filter (\<lambda>_. True) ?es. e_Amount e)
      \<le> (\<Sum>n\<leftarrow>t_runner_nodes db0. r_OffchainAccumulatedTokens n) + of_int (credits db0 - credits (ty_db t)) / 20"
    by (simp add: money_def)
  have "\<forall>ve. ok ve \<longrightarrow> xe_send (ve_rpc ve) \<noteq> ReplyLost" using assms(5) by blast
  note p = treasury_paid [OF assms(1-4) this]
  have "set (ty_paid t) \<subseteq> e_ID ` set (filter (\<lambda>_. True) ?es)" using p(4) by auto
  note b = order_trans [OF paid_at_most [OF p(1) payables p(2) this] s]
  have "onchain (ty_chain t) \<le> 1000000000 * (\<Sum>i\<leftarrow>ty_paid t. amount_of ?es i)"
    using onchain_near [OF p(3) payables] by blast
  also have "\<dots> \<le> 1000000000 * ((\<Sum>n\<leftarrow>t_runner_nodes db0. r_OffchainAccumulatedTokens n)
      + of_int (credits db0 - credits (ty_db t)) / 20)"
    by (rule mult_left_mono [OF b]) simp
  finally show ?thesis .
qed

text \<open>
  The chain pays only what was earned: while settlements queue payouts and a single worker sends them, through lost
  requests, errors and restarts at any point, the raw units sent to a runner's address never exceed what the
  runner has earned since the start beyond its balance, as long as the chain loses no reply and no other queued
  owner has that address.
\<close>
theorem chain_pays_earnings:
  assumes "length (sl_sha256 L (bytes ''global:add_reward'')) = 32"
    and "treasury_reach uuid_in threshold L key ok db0 t" "0 < threshold" "threshold \<le> 999999"
    and "\<And>ve. ok ve \<Longrightarrow> xe_send (ve_rpc ve) \<noteq> ReplyLost"
    and "\<forall>e \<in> set (t_sync_events (ty_db t)).
      node_address L (e_RunnerPubkey e) = Some addr \<longrightarrow> e_RunnerPubkey e = pk"
  shows "onchain (chain_to addr (ty_chain t)) \<le> 1000000000 * (drawn pk (ty_db t) - drawn pk db0)"
proof -
  let ?es = "t_sync_events (ty_db t)"
  from treasury_reach_inv [OF assms(2-4)] have payables: "\<forall>e \<in> set ?es. payable (e_Amount e)"
    and worth: "account_worth pk (ty_db t) = account_worth pk db0" and "t_sync_events db0 = []"
    by (simp_all add: treasury_inv_def in_order_def)
  then have d: "drawn pk (ty_db t) - drawn pk db0 = (\<Sum>e\<leftarrow>filter (\<lambda>e. e_RunnerPubkey e = pk) ?es. e_Amount e)"
    by (simp add: drawn_queued)
  have run: "sync_reach L key ok 1 (worker_view t)"
    using treasury_reach_inv [OF assms(2-4)] by (simp add: treasury_inv_def)
  have "8 \<le> length (sl_sha256 L (bytes ''global:add_reward''))" using assms(1) by simp
  from sole_paid_to [OF this run assms(5) _ payables assms(6)] show ?thesis
    unfolding d by (simp add: worker_view_def sync_view_def)
qed

theorem chain_pays_earnings_witness:
  "\<exists>t tx. treasury_reach Some 1 demo_lib ''key'' reliable (demo_db 3 20 (99 / 100)) t
     \<and> node_address demo_lib ''r'' = Some (recipient tx) \<and> chain_to (recipient tx) (ty_chain t) = [tx]
     \<and> onchain [tx] \<le> 1000000000 * (drawn ''r'' (ty_db t) - drawn ''r'' (demo_db 3 20 (99 / 100)))"
proof -
  obtain tx where tx: "ty_chain demo_paid = [tx]" "node_address demo_lib ''r'' = Some (recipient tx)"
    using demo_paid_facts(1) by blast
  then have c: "chain_to (recipient tx) (ty_chain demo_paid) = [tx]" by (simp add: chain_to_def)
  have "onchain (chain_to (recipient tx) (ty_chain demo_paid))
      \<le> 1000000000 * (drawn ''r'' (ty_db demo_paid) - drawn ''r'' (demo_db 3 20 (99 / 100)))"
    by (rule chain_pays_earnings [OF demo_lib_facts(1) demo_paid_reach _ _ demo_lib_facts(2)])
       (use demo_paid_facts(2) in auto)
  then show ?thesis using demo_paid_reach tx(2) c by auto
qed

theorem supply_bounded_witness:
  "\<exists>t tx. treasury_reach Some 1 demo_lib ''key'' reliable (demo_db 3 20 (99 / 100)) t \<and> ty_chain t = [tx]
     \<and> onchain [tx] \<le> 1040000000"
proof -
  obtain tx where tx: "ty_chain demo_paid = [tx]" using demo_paid_facts(1) by blast
  have "credits (ty_db demo_settled) = 2" "credits (demo_db 3 20 (99 / 100)) = 3"
    by (simp_all add: demo_settled_def demo_treasury_def settle_job_def demo_job_def demo_settlement new_reward_stake
        numeric_small round4_def credits_def)
  with supply_bounded [OF demo_lib_facts(1) demo_paid_reach _ _ demo_lib_facts(2)] tx demo_paid_facts(3)
  have "onchain [tx] \<le> 1040000000" by (simp add: demo_db_def demo_runner_def)
  with demo_paid_reach tx show ?thesis by auto
qed

end
