(* ===== verification/Books.thy ===== *)
theory Books
  imports Pipeline Treasury
begin

text \<open>
  The books through the whole program: the deliveries to the processor keep the tables in order and the worth of every
  account; so does any change of the tables that leaves the runners' accounts alone.
\<close>

subsection \<open>Settlements\<close>

lemma settle_all_in_order:
  assumes "0 < threshold" "threshold \<le> 999999"
  shows "in_order threshold db \<Longrightarrow> in_order threshold (fst (settle_all (settle_result uuid_in threshold) js db))"
proof (induction js arbitrary: db)
  case (Cons j js)
  have "in_order threshold (fst (settle_result uuid_in threshold j db))"
    unfolding settle_result_def by (rule settle_job_in_order [OF assms Cons.prems])
  from Cons.IH [OF this] show ?case by (simp only: fst_settle_all)
qed simp

lemma insert_in_order:
  "in_order threshold (fst (BulkInsert uuid_in f logs db)) = in_order threshold db"
  "account_worth pk (fst (BulkInsert uuid_in f logs db)) = account_worth pk db"
  by (cases "List.map_filter (row_error uuid_in db) logs"; cases f;
      simp add: BulkInsert_def in_order_def wf_db_def below_def account_worth_def ledger_of_def)+

text \<open>What a delivery does to the tables: its settlements, and perhaps the insertion of its logs.\<close>

lemma delivery_cases:
  assumes "handle_delivery decode uuid_in threshold ce b db = (db', a)"
  obtains js where "db' = fst (settle_all (settle_result uuid_in threshold) js db)"
  | js logs where "db' = fst (BulkInsert uuid_in (ce_insert ce) logs (fst (settle_all (settle_result uuid_in threshold) js db)))"
proof (cases "decode b")
  case None
  with assms that(1) [of "[]"] show ?thesis by (simp add: handle_delivery_def)
next
  case (Some packet)
  obtain d ok where s: "settle_all (settle_result uuid_in threshold) (packet_jobs (ce_settle ce) packet) db = (d, ok)"
    by fastforce
  have "db' = d \<or> (\<exists>logs. db' = fst (BulkInsert uuid_in (ce_insert ce) logs d))"
    using assms Some s by (auto simp: handle_delivery_def ProcessPacket_def Let_def
        split: sum.splits prod.splits if_splits) (metis fst_conv)+
  with that s show ?thesis by (metis fst_conv)
qed

lemma delivery_wf:
  assumes "wf_db db" "handle_delivery decode uuid_in threshold ce b db = (db', a)"
  shows "wf_db db'"
  using assms(2)
proof (cases rule: delivery_cases)
  case (1 js)
  with packet.all_keep [OF assms(1)] show ?thesis by blast
next
  case (2 js logs)
  have "wf_db (fst (BulkInsert uuid_in f logs d)) = wf_db d" for f d
    by (cases "List.map_filter (row_error uuid_in d) logs"; cases f) (simp_all add: BulkInsert_def wf_db_def)
  with 2 packet.all_keep [OF assms(1)] show ?thesis by blast
qed

lemma delivery_in_order:
  assumes "0 < threshold" "threshold \<le> 999999" "in_order threshold db"
    and "handle_delivery decode uuid_in threshold ce b db = (db', a)"
  shows "in_order threshold db' \<and> account_worth pk db' = account_worth pk db"
proof -
  have "in_order threshold (fst (settle_all (settle_result uuid_in threshold) js db))
      \<and> account_worth pk (fst (settle_all (settle_result uuid_in threshold) js db)) = account_worth pk db" for js
    using settle_all_in_order [OF assms(1-3)] packet.all_worth [OF in_orderD(1) [OF assms(3)]] by blast
  with assms(4) show ?thesis by (elim delivery_cases) (simp_all add: insert_in_order)
qed

subsection \<open>Everything else\<close>

lemma owner_row:
  assumes "distinct (map r_OwnerPubkey ns)" "n \<in> set ns"
  shows "filter (\<lambda>x. r_OwnerPubkey x = r_OwnerPubkey n) ns = [n]"
  using assms by (induction ns) (auto simp: filter_empty_conv image_iff)

lemma account_worth_of:
  assumes "wf_db db" "runner_account pk db = (balance, earned, due)"
  shows "account_worth pk db = earned - balance - sum_list due"
proof (cases "filter (\<lambda>n. r_OwnerPubkey n = pk) (t_runner_nodes db)")
  case Nil
  then have "column r_OwnerPubkey v (t_runner_nodes db) pk = None" for v :: "runner_row \<Rightarrow> rat"
    by (simp add: column_None)
  with Nil assms(2) show ?thesis by (auto simp: runner_account_def account_worth_def ledger_of_def Let_def)
next
  case (Cons n ns)
  then have n: "n \<in> set (t_runner_nodes db)" "r_OwnerPubkey n = pk" by (auto simp: filter_eq_Cons_iff)
  have "distinct (map r_OwnerPubkey (t_runner_nodes db))" using assms(1) by (simp add: wf_db_def)
  note row = owner_row [OF this n(1)] column_unique [OF this n(1), where v = r_TotalEarnedTokensAllTime]
    column_unique [OF this n(1), where v = r_OffchainAccumulatedTokens]
  from row assms(2) show ?thesis
    unfolding n(2) by (auto simp: runner_account_def account_worth_def ledger_of_def Let_def)
qed

lemma same_accounts_in_order:
  assumes "0 < threshold" "in_order threshold db" "wf_db db'" "\<forall>pk. runner_account pk db' = runner_account pk db"
  shows "in_order threshold db' \<and> account_worth pk db' = account_worth pk db"
proof -
  have d: "distinct (map r_OwnerPubkey (t_runner_nodes x))" if "wf_db x" for x using that by (simp add: wf_db_def)
  have "r_OffchainAccumulatedTokens n < threshold" if n: "n \<in> set (t_runner_nodes db')" for n
  proof -
    have "r_OffchainAccumulatedTokens n
        = sum_list (map r_OffchainAccumulatedTokens (filter (\<lambda>x. r_OwnerPubkey x = r_OwnerPubkey n) (t_runner_nodes db)))"
      using assms(4) [rule_format, of "r_OwnerPubkey n"] owner_row [OF d [OF assms(3)] n]
      by (simp add: runner_account_def Let_def)
    also have "\<dots> < threshold"
    proof (cases "filter (\<lambda>x. r_OwnerPubkey x = r_OwnerPubkey n) (t_runner_nodes db)")
      case (Cons m ms)
      then have m: "m \<in> set (t_runner_nodes db)" "r_OwnerPubkey m = r_OwnerPubkey n" by (auto simp: filter_eq_Cons_iff)
      from owner_row [OF d [OF in_orderD(1) [OF assms(2)]] m(1)] m(2) in_orderD(2) [OF assms(2)] m(1)
      show ?thesis by (simp add: below_def)
    qed (simp add: assms(1))
    finally show ?thesis .
  qed
  then have "below threshold db'" by (simp add: below_def)
  moreover have "payable (e_Amount e)" if "e \<in> set (t_sync_events db')" for e
  proof -
    have "e_Amount e \<in> set (queued (e_RunnerPubkey e) (t_sync_events db'))" using that by (auto simp: queued_def)
    also have "queued (e_RunnerPubkey e) (t_sync_events db') = queued (e_RunnerPubkey e) (t_sync_events db)"
      using assms(4) by (simp add: runner_account_def Let_def)
    finally show ?thesis using in_orderD(3) [OF assms(2)] by (auto simp: queued_def)
  qed
  moreover obtain balance earned due where a: "runner_account pk db = (balance, earned, due)" by (rule prod_cases3)
  with assms(4) have "runner_account pk db' = (balance, earned, due)" by simp
  with account_worth_of [OF assms(3) this] account_worth_of [OF in_orderD(1) [OF assms(2)] a]
  have "account_worth pk db' = account_worth pk db" by simp
  ultimately show ?thesis using assms(3) by (simp add: in_order_def)
qed

subsection \<open>A step of the plant\<close>

text \<open>Only a delivery to the processor touches an account.\<close>

lemma plant_step_accounts:
  assumes "plant_step R verify hostname uuid_in threshold pl pl'"
  shows "(\<forall>pk. runner_account pk (g_db (w_grpc (pl_world pl'))) = runner_account pk (g_db (w_grpc (pl_world pl))))
    \<or> (\<exists>ce b a. handle_delivery decode_packet uuid_in threshold ce b (g_db (w_grpc (pl_world pl)))
         = (g_db (w_grpc (pl_world pl')), a))"
  using assms
proof (cases rule: plant_step.cases)
  case (receive w i se msg ph' g' out)
  have "\<And>k. runner_account k (g_db g') = runner_account k (g_db (w_grpc w))"
    using JobStream_recv_adds [OF receive(4)] by blast
  with receive show ?thesis by simp
next
  case (finish w i c ph' g')
  then have "g_db g' = g_db (w_grpc w)" by (auto simp: JobStream_end_def split: phase.splits)
  with finish show ?thesis by simp
next
  case (send i g' out)
  then have "g_db g' = g_db (w_grpc (pl_world pl))" by (auto simp: bridge_send_def split: list.splits)
  with send show ?thesis by (simp add: set_grpc_def)
next
  case (consume b up g' a q)
  with ConsumeJob_db [OF consume(3)] show ?thesis by (simp add: set_grpc_def)
next
  case (settle g b ce db' a q)
  then show ?thesis by (auto simp: set_grpc_def)
qed (simp_all add: set_grpc_def)

lemma plant_step_in_order:
  assumes "0 < threshold" "threshold \<le> 999999" "in_order threshold (g_db (w_grpc (pl_world pl)))"
    and "plant_step R verify hostname uuid_in threshold pl pl'" "wf_db (g_db (w_grpc (pl_world pl')))"
  shows "in_order threshold (g_db (w_grpc (pl_world pl')))
    \<and> account_worth pk (g_db (w_grpc (pl_world pl'))) = account_worth pk (g_db (w_grpc (pl_world pl)))"
  using plant_step_accounts [OF assms(4)]
proof
  assume "\<forall>pk. runner_account pk (g_db (w_grpc (pl_world pl'))) = runner_account pk (g_db (w_grpc (pl_world pl)))"
  with same_accounts_in_order [OF assms(1,3,5)] show ?thesis by blast
next
  assume "\<exists>ce b a. handle_delivery decode_packet uuid_in threshold ce b (g_db (w_grpc (pl_world pl)))
         = (g_db (w_grpc (pl_world pl')), a)"
  then obtain ce b a where "handle_delivery decode_packet uuid_in threshold ce b (g_db (w_grpc (pl_world pl)))
      = (g_db (w_grpc (pl_world pl')), a)" by blast
  from delivery_in_order [OF assms(1-3) this] show ?thesis .
qed

end
