(* ===== verification/Network.thy ===== *)
theory Network
  imports Books
begin

text \<open>
  The whole program and the chain: the plant of \<open>Pipeline\<close> earns, its settlements queue payouts, and the sync workers send
  them. A run projects to a run of the plant, in which the workers are part of the environment, and to a run of the
  payout queue, in which the plant is the one who queues.
\<close>

subsection \<open>What the plant does to the queue of payouts\<close>

text \<open>New payouts come last, pending, under identifiers of their own.\<close>

definition queue_grows :: "SolanaSyncEvent list \<Rightarrow> SolanaSyncEvent list \<Rightarrow> bool" where
  "queue_grows es es' \<longleftrightarrow> (\<exists>new. es' = es @ new \<and> distinct (map e_ID new) \<and> e_ID ` set new \<inter> e_ID ` set es = {}
     \<and> (\<forall>e \<in> set new. e_Status e = PENDING))"

lemma queue_grows_refl: "queue_grows es es"
  by (auto simp: queue_grows_def)

lemma settle_all_appends:
  assumes "settle_all (settle_result uuid_in threshold) jobs db = (db', ok)"
  obtains new where "t_sync_events db' = t_sync_events db @ new" "\<forall>e \<in> set new. e_Status e = PENDING"
    "e_ID ` set new \<subseteq> j_uuid ` fst ` set jobs" "distinct (map (\<lambda>j. j_uuid (fst j)) jobs) \<longrightarrow> distinct (map e_ID new)"
  using assms
proof (induction jobs arbitrary: db db' ok thesis)
  case Nil
  from Nil.prems(2) show ?case by (intro Nil.prems(1) [of "[]"]) simp_all
next
  case (Cons j jobs)
  obtain d r where d: "settle_job uuid_in threshold (fst j) db = (d, r)" by fastforce
  then have "settle_result uuid_in threshold j db = (d, r)" by (simp add: settle_result_def)
  with Cons.prems(2) obtain ok' where rest: "settle_all (settle_result uuid_in threshold) jobs d = (db', ok')"
    by (auto simp: Let_def split: sum.splits prod.splits)
  obtain new where new: "t_sync_events db' = t_sync_events d @ new" "\<forall>e \<in> set new. e_Status e = PENDING"
    "e_ID ` set new \<subseteq> j_uuid ` fst ` set jobs" "distinct (map (\<lambda>j. j_uuid (fst j)) jobs) \<longrightarrow> distinct (map e_ID new)"
    using Cons.IH [OF _ rest] by metis
  from settle_job_appends [OF d] obtain old where
    old: "t_sync_events d = t_sync_events db @ old" "old = [] \<or> (\<exists>e. old = [e] \<and> e_ID e = j_uuid (fst j) \<and> e_Status e = PENDING)"
    by (metis append.right_neutral)
  have "e_ID ` set (old @ new) \<subseteq> j_uuid ` fst ` set (j # jobs)" using old(2) new(3) by auto
  moreover have "distinct (map e_ID (old @ new))" if "distinct (map (\<lambda>j. j_uuid (fst j)) (j # jobs))"
  proof -
    have j: "j_uuid (fst j) \<notin> j_uuid ` fst ` set jobs" "distinct (map (\<lambda>j. j_uuid (fst j)) jobs)"
      using that by (auto simp: image_iff)
    from j(1) new(3) have "j_uuid (fst j) \<notin> e_ID ` set new" by blast
    with new(4) j(2) old(2) show ?thesis by auto
  qed
  ultimately show ?case using old new(1,2) by (intro Cons.prems(1) [of "old @ new"]) auto
qed

text \<open>A delivery whose settlements take fresh identifiers.\<close>

lemma delivery_grows:
  assumes "handle_delivery decode_packet uuid_in threshold ce b db = (db', a)"
    and "inj (\<lambda>i. fst (ce_settle ce i))" "\<forall>i. fst (ce_settle ce i) \<notin> e_ID ` set (t_sync_events db)"
  shows "queue_grows (t_sync_events db) (t_sync_events db')"
proof (cases "decode_packet b")
  case None
  with assms(1) show ?thesis by (simp add: handle_delivery_def queue_grows_refl)
next
  case (Some packet)
  let ?jobs = "packet_jobs (ce_settle ce) packet"
  obtain d ok where s: "settle_all (settle_result uuid_in threshold) ?jobs db = (d, ok)" by fastforce
  have i: "t_sync_events (fst (BulkInsert uuid_in f logs x)) = t_sync_events x" for f logs x
    by (cases f) (auto simp: BulkInsert_def split: list.splits)
  have e: "t_sync_events db' = t_sync_events d"
    using assms(1) Some s i [of "ce_insert ce" "map (\<lambda>(j, r). build_log (ce_now ce) (rp_RunnerPubkey packet) r) ok" d]
    by (auto simp: handle_delivery_def ProcessPacket_def Let_def split: sum.splits prod.splits if_splits)
  have jobs: "map (\<lambda>j. j_uuid (fst j)) ?jobs
      = map (\<lambda>i. fst (ce_settle ce i)) (map fst (filter (\<lambda>(i, r). pr_MonitorID r \<noteq> []) (enumerate 0 (rp_Results packet))))"
    by (auto simp: packet_jobs_def)
  have "distinct (map fst (filter (\<lambda>(i, r). pr_MonitorID r \<noteq> []) (enumerate 0 (rp_Results packet))))"
    by (intro distinct_map_filter) simp
  then have dist: "distinct (map (\<lambda>j. j_uuid (fst j)) ?jobs)"
    unfolding jobs by (subst distinct_map) (use inj_on_subset [OF assms(2) subset_UNIV] in blast)
  have sub: "j_uuid ` fst ` set ?jobs \<subseteq> range (\<lambda>i. fst (ce_settle ce i))"
    by (auto simp: packet_jobs_def)
  obtain new where new: "t_sync_events d = t_sync_events db @ new" "\<forall>x \<in> set new. e_Status x = PENDING"
    "e_ID ` set new \<subseteq> j_uuid ` fst ` set ?jobs" "distinct (map (\<lambda>j. j_uuid (fst j)) ?jobs) \<longrightarrow> distinct (map e_ID new)"
    by (rule settle_all_appends [OF s])
  have "i \<notin> e_ID ` set (t_sync_events db)" if "i \<in> e_ID ` set new" for i
  proof -
    from that new(3) sub obtain k where "i = fst (ce_settle ce k)" by blast
    with assms(3) show ?thesis by simp
  qed
  then have "e_ID ` set new \<inter> e_ID ` set (t_sync_events db) = {}" by blast
  with new dist show ?thesis unfolding e queue_grows_def by blast
qed

subsection \<open>The system\<close>

record 's network =
  nt_plant :: "'s plant"
  nt_chain :: "transaction list"
  nt_paid :: "string list"
  nt_workers :: "worker list"

abbreviation plant_db :: "'s plant \<Rightarrow> db" where
  "plant_db pl \<equiv> g_db (w_grpc (pl_world pl))"

definition payouts :: "'s network \<Rightarrow> system" where
  "payouts n =
     \<lparr>sm_state = \<lparr>sy_table = SolanaSql (t_sync_events (plant_db (nt_plant n))), sy_chain = nt_chain n, sy_paid = nt_paid n\<rparr>,
      sm_workers = nt_workers n\<rparr>"

definition with_events :: "SolanaSyncEvent list \<Rightarrow> 's plant \<Rightarrow> 's plant" where
  "with_events es pl = (let g = w_grpc (pl_world pl) in set_grpc (g\<lparr>g_db := (g_db g)\<lparr>t_sync_events := es\<rparr>\<rparr>) pl)"

text \<open>
  Identifiers of new payouts are fresh, only settlements and workers write the table, and the rest of the program keeps
  the constraints of the schema. \<open>ok\<close> says what the requests of the workers may meet.
\<close>

inductive network_step ::
  "'s redis \<Rightarrow> (string \<Rightarrow> string \<Rightarrow> string \<Rightarrow> bool) \<Rightarrow> (string \<Rightarrow> string option) \<Rightarrow> (string \<Rightarrow> string option) \<Rightarrow> rat \<Rightarrow>
   solana_lib \<Rightarrow> string \<Rightarrow> (step_env \<Rightarrow> bool) \<Rightarrow> 's network \<Rightarrow> 's network \<Rightarrow> bool"
  for R verify hostname uuid_in threshold L key ok
where
  acts: "plant_step R verify hostname uuid_in threshold (nt_plant n) pl \<Longrightarrow>
    queue_grows (t_sync_events (plant_db (nt_plant n))) (t_sync_events (plant_db pl)) \<Longrightarrow>
    (wf_db (plant_db (nt_plant n)) \<Longrightarrow> wf_db (plant_db pl)) \<Longrightarrow>
    network_step R verify hostname uuid_in threshold L key ok n (n\<lparr>nt_plant := pl\<rparr>)"
| sends: "i < length (nt_workers n) \<Longrightarrow> ok ve \<Longrightarrow>
    worker_step L key ve (nt_workers n ! i, sm_state (payouts n)) = (w', s') \<Longrightarrow> sy_table s' = SolanaSql es' \<Longrightarrow>
    network_step R verify hostname uuid_in threshold L key ok n
      \<lparr>nt_plant = with_events es' (nt_plant n), nt_chain = sy_chain s', nt_paid = sy_paid s', nt_workers = (nt_workers n)[i := w']\<rparr>"
| restarts: "i < length (nt_workers n) \<Longrightarrow>
    network_step R verify hostname uuid_in threshold L key ok n (n\<lparr>nt_workers := (nt_workers n)[i := Idle]\<rparr>)"

inductive network_reach ::
  "'s redis \<Rightarrow> (string \<Rightarrow> string \<Rightarrow> string \<Rightarrow> bool) \<Rightarrow> (string \<Rightarrow> string option) \<Rightarrow> (string \<Rightarrow> string option) \<Rightarrow> rat \<Rightarrow>
   solana_lib \<Rightarrow> string \<Rightarrow> (step_env \<Rightarrow> bool) \<Rightarrow> db \<Rightarrow> nat \<Rightarrow> 's network \<Rightarrow> bool"
  for R verify hostname uuid_in threshold L key ok db0 k
where
  start: "plant_reach R verify hostname uuid_in threshold db0 pl \<Longrightarrow> plant_db pl = db0 \<Longrightarrow> t_sync_events db0 = [] \<Longrightarrow>
    network_reach R verify hostname uuid_in threshold L key ok db0 k
      \<lparr>nt_plant = pl, nt_chain = [], nt_paid = [], nt_workers = replicate k Idle\<rparr>"
| step: "network_reach R verify hostname uuid_in threshold L key ok db0 k n \<Longrightarrow>
    network_step R verify hostname uuid_in threshold L key ok n n' \<Longrightarrow>
    network_reach R verify hostname uuid_in threshold L key ok db0 k n'"

subsection \<open>The two projections\<close>

text \<open>For the plant, a worker's step is one of the environment.\<close>

lemma with_events_step:
  assumes "map payee es = map payee (t_sync_events (plant_db pl))"
  shows "plant_step R verify hostname uuid_in threshold pl (with_events es pl)"
proof -
  let ?g = "w_grpc (pl_world pl)"
  have "runner_account pk ((g_db ?g)\<lparr>t_sync_events := es\<rparr>) = runner_account pk (g_db ?g)" for pk
    using queued_payees [OF assms] by (simp add: runner_account_def Let_def)
  from environment [OF refl this, where s = "g_rdb ?g" and reg = "g_reg ?g"] show ?thesis
    by (simp add: with_events_def Let_def)
qed

lemma payout_rows_payees:
  "payout_rows (SolanaSql es) = payout_rows (SolanaSql es') \<Longrightarrow> map payee es = map payee es'"
  by (drule arg_cong [where f = "map snd"]) (simp add: payout_rows_def o_def)

lemma network_plant:
  "network_reach R verify hostname uuid_in threshold L key ok db0 k n \<Longrightarrow>
     plant_reach R verify hostname uuid_in threshold db0 (nt_plant n) \<and> t_sync_events db0 = []"
proof (induction rule: network_reach.induct)
  case (start pl)
  then show ?case by simp
next
  case (step n n')
  from step.hyps(2) show ?case
  proof (cases rule: network_step.cases)
    case (acts pl)
    with step.IH plant_reach.step show ?thesis by auto
  next
    case (sends i ve w' s' es')
    have "payout_rows (SolanaSql es') = payout_rows (SolanaSql (t_sync_events (plant_db (nt_plant n))))"
      using worker_step_rows [OF sends(4)] by (simp add: sends(5) payouts_def)
    from with_events_step [OF payout_rows_payees [OF this]] step.IH show ?thesis
      unfolding sends(1) by (auto intro: plant_reach.step)
  next
    case (restarts i)
    with step.IH show ?thesis by simp
  qed
qed

text \<open>For the queue, a step of the plant is a row of new payouts.\<close>

lemma enqueue_all:
  assumes "sync_reach L key ok k y" "sy_table (sm_state y) = SolanaSql es" "distinct (map e_ID new)"
    and "e_ID ` set new \<inter> e_ID ` set es = {}" "\<forall>e \<in> set new. e_Status e = PENDING"
  shows "sync_reach L key ok k (y\<lparr>sm_state := (sm_state y)\<lparr>sy_table := SolanaSql (es @ new)\<rparr>\<rparr>)"
  using assms
proof (induction new arbitrary: y es)
  case Nil
  then have "y\<lparr>sm_state := (sm_state y)\<lparr>sy_table := SolanaSql (es @ [])\<rparr>\<rparr> = y" by simp
  with Nil.prems(1) show ?case by metis
next
  case (Cons e new)
  let ?y = "y\<lparr>sm_state := (sm_state y)\<lparr>sy_table := SolanaSql (es @ [e])\<rparr>\<rparr>"
  have "sync_step L key ok y ?y" by (rule enqueue) (use Cons.prems in auto)
  with Cons.prems(1) have "sync_reach L key ok k ?y" by (rule sync_reach.step)
  from Cons.IH [OF this, of "es @ [e]"] Cons.prems(3-5) show ?case by auto
qed

lemma network_payouts:
  "network_reach R verify hostname uuid_in threshold L key ok db0 k n \<Longrightarrow> sync_reach L key ok k (payouts n)"
proof (induction rule: network_reach.induct)
  case (start pl)
  have "sync_reach L key ok k
      \<lparr>sm_state = \<lparr>sy_table = SolanaSql [], sy_chain = [], sy_paid = []\<rparr>, sm_workers = replicate k Idle\<rparr>"
    by (rule sync_reach.start) simp_all
  with start show ?case by (simp add: payouts_def)
next
  case (step n n')
  from step.hyps(2) show ?case
  proof (cases rule: network_step.cases)
    case (acts pl)
    then obtain new where new: "t_sync_events (plant_db pl) = t_sync_events (plant_db (nt_plant n)) @ new"
      "distinct (map e_ID new)" "e_ID ` set new \<inter> e_ID ` set (t_sync_events (plant_db (nt_plant n))) = {}"
      "\<forall>e \<in> set new. e_Status e = PENDING" by (auto simp: queue_grows_def)
    from enqueue_all [OF step.IH _ new(2-4)] show ?thesis
      by (simp add: acts(1) payouts_def new(1))
  next
    case (sends i ve w' s' es')
    have "sync_step L key ok (payouts n) \<lparr>sm_state = s', sm_workers = (sm_workers (payouts n))[i := w']\<rparr>"
      by (rule work [where ve = ve]) (use sends in \<open>simp_all add: payouts_def\<close>)
    with step.IH have "sync_reach L key ok k \<lparr>sm_state = s', sm_workers = (sm_workers (payouts n))[i := w']\<rparr>"
      by (rule sync_reach.step)
    moreover have "payouts n' = \<lparr>sm_state = s', sm_workers = (sm_workers (payouts n))[i := w']\<rparr>"
      by (simp add: sends(1) payouts_def with_events_def set_grpc_def Let_def flip: sends(5))
    ultimately show ?thesis by simp
  next
    case (restarts i)
    have "sync_step L key ok (payouts n) ((payouts n)\<lparr>sm_workers := (sm_workers (payouts n))[i := Idle]\<rparr>)"
      by (rule sync_step.restart) (use restarts(2) in \<open>simp add: payouts_def\<close>)
    with step.IH have "sync_reach L key ok k ((payouts n)\<lparr>sm_workers := (sm_workers (payouts n))[i := Idle]\<rparr>)"
      by (rule sync_reach.step)
    then show ?thesis by (simp add: restarts(1) payouts_def)
  qed
qed

subsection \<open>The books\<close>

lemma network_books:
  assumes "network_reach R verify hostname uuid_in threshold L key ok db0 k n" "wf_db db0" "below threshold db0"
    and "0 < threshold" "threshold \<le> 999999"
  shows "in_order threshold (plant_db (nt_plant n)) \<and> account_worth pk (plant_db (nt_plant n)) = account_worth pk db0"
  using assms(1)
proof (induction rule: network_reach.induct)
  case (start pl)
  then have "t_sync_events db0 = []" by simp
  with start assms(2,3) show ?case by (auto simp: in_order_def)
next
  case (step n n')
  from step.hyps(2) show ?case
  proof (cases rule: network_step.cases)
    case (acts pl)
    from step.IH have o: "in_order threshold (plant_db (nt_plant n))" by blast
    have "wf_db (plant_db pl)" by (rule acts(4) [OF in_orderD(1) [OF o]])
    from plant_step_in_order [OF assms(4,5) o acts(2) this] step.IH show ?thesis by (simp add: acts(1))
  next
    case (sends i ve w' s' es')
    have "payout_rows (SolanaSql es') = payout_rows (SolanaSql (t_sync_events (plant_db (nt_plant n))))"
      using worker_step_rows [OF sends(4)] by (simp add: sends(5) payouts_def)
    note payees = payout_rows_payees [OF this]
    from worker_in_order [OF payees] db_with_events(3) [OF payees] step.IH show ?thesis
      by (simp add: sends(1) with_events_def set_grpc_def Let_def)
  next
    case (restarts i)
    with step.IH show ?thesis by simp
  qed
qed

subsection \<open>Properties\<close>

text \<open>
  C1. The chain pays authenticated work only: in every run of the whole program, with any number of sync workers, requests
  and replies lost and restarts at any point, each transaction on the chain pays the address of an owner with a queued
  payout of that amount, and that owner has a node that answered a challenge with its own signature.
\<close>
theorem chain_pays_authenticated:
  assumes "length (sl_sha256 L (bytes ''global:add_reward'')) = 32"
    and "network_reach R verify hostname uuid_in threshold L key ok db0 k n" "tx \<in> set (nt_chain n)"
  shows "\<exists>e node. e \<in> set (t_sync_events (plant_db (nt_plant n))) \<and> node_address L (e_RunnerPubkey e) = Some (recipient tx)
    \<and> chain_amount tx = amount_raw (fl (e_Amount e))
    \<and> credentialed verify (w_log (pl_world (nt_plant n))) node (e_RunnerPubkey e)"
proof -
  let ?es = "t_sync_events (plant_db (nt_plant n))"
  have sha: "8 \<le> length (sl_sha256 L (bytes ''global:add_reward''))" using assms(1) by simp
  have "carried L (payouts n)" by (rule carried_reach [OF sha network_payouts [OF assms(2)]])
  then have "list_all2 (carries L (SolanaSql ?es)) (nt_chain n) (nt_paid n)"
    by (simp add: carried_def chain_ok_def payouts_def)
  with assms(3) obtain i where "carries L (SolanaSql ?es) tx i"
    by (auto simp: list_all2_conv_all_nth in_set_conv_nth)
  then obtain pk a where pk: "payout_of (SolanaSql ?es) i = Some (pk, a)" "node_address L pk = Some (recipient tx)"
    "chain_amount tx = amount_raw (fl a)" by (auto simp: carries_def)
  from pk(1) obtain e where e: "e \<in> set ?es" "payee e = (pk, a)" by (rule payout_rowE)
  from network_plant [OF assms(2)] have plant: "plant_inv verify db0 (nt_plant n)" and "t_sync_events db0 = []"
    using plant_reach_inv by blast+
  then have "runner_account pk (plant_db (nt_plant n)) \<noteq> runner_account pk db0"
    using e by (auto simp: runner_account_def Let_def queued_def filter_empty_conv)
  with plant obtain node where "credentialed verify (w_log (pl_world (nt_plant n))) node pk"
    unfolding plant_inv_def by blast
  with e pk show ?thesis by auto
qed

text \<open>
  C2. The chain pays each runner what it earned: in every run of the whole program with one sync worker, whatever the rest of
  it does, whichever database, Redis and broker requests are lost and wherever it restarts, the raw units sent to a runner's
  address never exceed what settled results earned it since the start beyond its balance, provided that the chain loses no
  reply (with a lost one a payout is sent twice), no other queued owner has that address, and the balances at the start are
  below the threshold, which is at most 999999.
\<close>
theorem network_pays_earnings:
  assumes "length (sl_sha256 L (bytes ''global:add_reward'')) = 32"
    and "network_reach R verify hostname uuid_in threshold L key ok db0 1 n" "wf_db db0" "below threshold db0"
    and "0 < threshold" "threshold \<le> 999999" "\<And>ve. ok ve \<Longrightarrow> xe_send (ve_rpc ve) \<noteq> ReplyLost"
    and "\<forall>e \<in> set (t_sync_events (plant_db (nt_plant n))).
      node_address L (e_RunnerPubkey e) = Some addr \<longrightarrow> e_RunnerPubkey e = pk"
  shows "onchain (chain_to addr (nt_chain n)) \<le> 1000000000 * (drawn pk (plant_db (nt_plant n)) - drawn pk db0)"
proof -
  let ?es = "t_sync_events (plant_db (nt_plant n))"
  have books: "in_order threshold (plant_db (nt_plant n))" "account_worth pk (plant_db (nt_plant n)) = account_worth pk db0"
    and "t_sync_events db0 = []"
    using network_books [OF assms(2-6)] network_plant [OF assms(2)] by blast+
  then have d: "drawn pk (plant_db (nt_plant n)) - drawn pk db0
      = (\<Sum>e\<leftarrow>filter (\<lambda>e. e_RunnerPubkey e = pk) ?es. e_Amount e)" by (simp add: drawn_queued)
  have payables: "\<forall>e \<in> set ?es. payable (e_Amount e)" using in_orderD(3) [OF books(1)] by blast
  have "8 \<le> length (sl_sha256 L (bytes ''global:add_reward''))" using assms(1) by simp
  from sole_paid_to [OF this network_payouts [OF assms(2)] assms(7) _ payables assms(8)]
  show ?thesis unfolding d by (simp add: payouts_def)
qed

subsection \<open>Runs\<close>

lemma network_reach_steps:
  assumes "(network_step R verify hostname uuid_in threshold L key ok)\<^sup>*\<^sup>* n n'"
    and "network_reach R verify hostname uuid_in threshold L key ok db0 k n"
  shows "network_reach R verify hostname uuid_in threshold L key ok db0 k n'"
  using assms(1) by induction (use assms(2) network_reach.step in blast)+

text \<open>What the only worker does alone is a run of the network.\<close>

lemma worker_step_network:
  fixes n :: "'s network"
  assumes "nt_workers n = [w]" "worker_step L key ve (w, sm_state (payouts n)) = (w', s')" "ok ve"
  obtains n' :: "'s network" where "network_step R verify hostname uuid_in threshold L key ok n n'"
    "nt_workers n' = [w']" "sm_state (payouts n') = s'"
proof -
  obtain es' where es': "sy_table s' = SolanaSql es'"
    using worker_step_SolanaSql [OF assms(2), of "t_sync_events (plant_db (nt_plant n))"] by (auto simp: payouts_def)
  let ?n = "\<lparr>nt_plant = with_events es' (nt_plant n), nt_chain = sy_chain s', nt_paid = sy_paid s',
      nt_workers = (nt_workers n)[0 := w']\<rparr>"
  have "network_step R verify hostname uuid_in threshold L key ok n ?n"
    by (rule sends [where ve = ve]) (use assms es' in simp_all)
  moreover have "sm_state (payouts ?n) = s'"
    by (simp add: payouts_def with_events_def set_grpc_def Let_def flip: es')
  ultimately show ?thesis using that [of ?n] assms(1) by simp
qed

lemma worker_run_network:
  fixes n :: "'s network"
  assumes "nt_workers n = [w]" "worker_run L key ves (w, sm_state (payouts n)) = (w', s')" "\<forall>ve \<in> set ves. ok ve"
  shows "\<exists>n'. (network_step R verify hostname uuid_in threshold L key ok)\<^sup>*\<^sup>* n n' \<and> nt_workers n' = [w'] \<and> sm_state (payouts n') = s'"
  using assms
proof (induction ves arbitrary: n w)
  case (Cons ve ves)
  obtain w1 s1 where s1: "worker_step L key ve (w, sm_state (payouts n)) = (w1, s1)" by fastforce
  have ve: "ok ve" "\<forall>ve \<in> set ves. ok ve" using Cons.prems(3) by simp_all
  obtain n1 :: "'s network" where n1: "network_step R verify hostname uuid_in threshold L key ok n n1" "nt_workers n1 = [w1]"
    "sm_state (payouts n1) = s1" by (rule worker_step_network [where ok = ok, OF Cons.prems(1) s1 ve(1)])
  have "worker_run L key ves (w1, sm_state (payouts n1)) = (w', s')" using Cons.prems(2) by (simp add: s1 n1(3))
  from Cons.IH [OF n1(2) this ve(2)] obtain n' where "nt_workers n' = [w']" "sm_state (payouts n') = s'"
    and "(network_step R verify hostname uuid_in threshold L key ok)\<^sup>*\<^sup>* n1 n'" by blast
  with n1(1) converse_rtranclp_into_rtranclp show ?case by (metis (no_types, lifting))
qed auto

text \<open>The two steps of a good report, under fresh identifiers.\<close>

lemma report_network:
  fixes n :: "'s network" and uuid :: "nat \<Rightarrow> string"
  assumes "i < length (w_sessions (pl_world (nt_plant n)))" "w_sessions (pl_world (nt_plant n)) ! i = Active node pk"
    and "g = w_grpc (pl_world (nt_plant n))" "result_accepted R verify re node r (g_rdb g)"
    and "re_open re \<or> (\<exists>c. g_rabbitCh g = Some (c, False))" "re_publish re \<noteq> RequestLost" "pl_results (nt_plant n) = []"
    and "pb_JobId r = job_id mon pk' sent_at" "CHR '':'' \<notin> set mon" "mon \<noteq> []" "uuid_in mon = Some c"
    and "wf_db (g_db g)" "roomy (g_db g)" "settle_spec threshold (1 / 100) c pk (ledger_of (g_db g)) = Some L'"
    and "item = result_item node (g_miners g pk) r" "row_error uuid_in (g_db g) (build_log now pk item) = None"
    and "inj uuid" "\<forall>i. uuid i \<notin> e_ID ` set (t_sync_events (g_db g))"
  obtains n' where "(network_step R verify hostname uuid_in threshold L key ok)\<^sup>*\<^sup>* n n'"
    "nt_chain n' = nt_chain n" "nt_paid n' = nt_paid n" "nt_workers n' = nt_workers n" "ledger_of (plant_db (nt_plant n')) = L'"
    "queue_grows (t_sync_events (g_db g)) (t_sync_events (plant_db (nt_plant n')))"
proof -
  obtain pl' pl'' where s: "plant_step R verify hostname uuid_in threshold (nt_plant n) pl'"
    "plant_step R verify hostname uuid_in threshold pl' pl''" "ledger_of (plant_db pl'') = L'" "plant_db pl' = g_db g"
    "\<exists>b a. handle_delivery decode_packet uuid_in threshold
        \<lparr>ce_now = now, ce_settle = (\<lambda>i. (uuid i, now, net_up)), ce_insert = Delivered\<rparr> b (g_db g) = (plant_db pl'', a)"
    by (rule report_steps [where now = now and uuid = uuid, OF assms(1-16)])
  from s(5) obtain b a where h: "handle_delivery decode_packet uuid_in threshold
      \<lparr>ce_now = now, ce_settle = (\<lambda>i. (uuid i, now, net_up)), ce_insert = Delivered\<rparr> b (g_db g) = (plant_db pl'', a)" by blast
  have grows: "queue_grows (t_sync_events (g_db g)) (t_sync_events (plant_db pl''))"
    by (rule delivery_grows [OF h]) (use assms(17,18) in simp_all)
  let ?n1 = "n\<lparr>nt_plant := pl'\<rparr>"
  have "network_step R verify hostname uuid_in threshold L key ok n ?n1"
    by (rule acts [OF s(1)]) (simp_all add: s(4) queue_grows_refl flip: assms(3))
  moreover have "network_step R verify hostname uuid_in threshold L key ok ?n1 (?n1\<lparr>nt_plant := pl''\<rparr>)"
    by (rule acts) (use s(2,4) grows delivery_wf [OF assms(12) h] in simp_all)
  ultimately have "(network_step R verify hostname uuid_in threshold L key ok)\<^sup>*\<^sup>* n (?n1\<lparr>nt_plant := pl''\<rparr>)"
    by (meson converse_rtranclp_into_rtranclp r_into_rtranclp)
  from that [OF this] s(3) grows show ?thesis by simp
qed

lemma demo_queue:
  assumes "settle_spec (1 / 100) (1 / 100) ''m'' ''r'' (ledger_of demo_pipe_db) = Some L"
  shows "lg_queued L = (\<lambda>pk. if pk = ''r'' then [3 / 200] else [])"
proof -
  have "new_reward 20 = 3 / 200" by (simp add: new_reward_stake)
  with assms show ?thesis
    by (auto simp: settle_spec_def ledger_of_def demo_pipe_db_def demo_node_db_def demo_db_def demo_user_def
        demo_monitor_row_def demo_runner_def Let_def queued_def)
qed

lemma queue_of_ledger:
  assumes "\<And>pk. queued pk es = (if pk = r then [a] else [])"
  shows "\<exists>e. es = [e] \<and> e_RunnerPubkey e = r \<and> e_Amount e = a"
proof -
  have "e_RunnerPubkey e = r" if "e \<in> set es" for e
    using assms [of "e_RunnerPubkey e"] that by (auto simp: queued_def filter_empty_conv split: if_splits)
  then have "filter (\<lambda>e. e_RunnerPubkey e = r) es = es" by (simp add: filter_id_conv)
  with assms [of r] have "map e_Amount es = [a]" by (simp add: queued_def)
  with \<open>filter (\<lambda>e. e_RunnerPubkey e = r) es = es\<close> show ?thesis by (cases es) (auto split: if_splits)
qed

definition demo_pipe_network :: "ref_state plant \<Rightarrow> ref_state network" where
  "demo_pipe_network pl = \<lparr>nt_plant = pl, nt_chain = [], nt_paid = [], nt_workers = [Idle]\<rparr>"

lemma demo_network_ready:
  obtains pl :: "ref_state plant" where
    "network_reach ref_redis (\<lambda>_ _ _. True) demo_host Some (1 / 100) demo_lib ''key'' reliable demo_pipe_db 1 (demo_pipe_network pl)"
    "pl_world pl = demo_session 0 demo_pipe_world" "pl_results pl = []" "t_sync_events demo_pipe_db = []"
proof -
  obtain pl :: "ref_state plant" where pl: "plant_reach ref_redis (\<lambda>_ _ _. True) demo_host Some (1 / 100) demo_pipe_db pl"
    "pl_world pl = demo_session 0 demo_pipe_world" "pl_results pl = []" by (rule demo_connected)
  have none: "t_sync_events demo_pipe_db = []" by (simp add: demo_pipe_db_def demo_node_db_def demo_db_def)
  from that [OF _ pl(2,3) none] network_reach.start [OF pl(1) demo_conditions(4) [OF pl(2)] none, of demo_lib "''key''" reliable 1]
  show ?thesis by (simp add: demo_pipe_network_def)
qed

lemma demo_report_queued:
  obtains n where "network_reach ref_redis (\<lambda>_ _ _. True) demo_host Some (1 / 100) demo_lib ''key'' reliable demo_pipe_db 1 (n :: ref_state network)"
    "nt_workers n = [Idle]" "nt_chain n = []" "nt_paid n = []"
    "\<exists>e. t_sync_events (plant_db (nt_plant n)) = [e] \<and> e_RunnerPubkey e = ''r'' \<and> e_Status e = PENDING"
proof -
  obtain pl :: "ref_state plant" where r: "network_reach ref_redis (\<lambda>_ _ _. True) demo_host Some (1 / 100) demo_lib ''key'' reliable
      demo_pipe_db 1 (demo_pipe_network pl)"
    and pl: "pl_world pl = demo_session 0 demo_pipe_world" "pl_results pl = []" and none: "t_sync_events demo_pipe_db = []"
    by (rule demo_network_ready)
  let ?n = "demo_pipe_network pl"
  have n: "nt_plant ?n = pl" "nt_chain ?n = []" "nt_paid ?n = []" "nt_workers ?n = [Idle]" by (simp_all add: demo_pipe_network_def)
  note c = demo_conditions [OF pl(1)]
  obtain L where L: "settle_spec (1 / 100) (1 / 100) ''m'' ''r'' (ledger_of demo_pipe_db) = Some L" by (rule demo_ledger)
  obtain n' where n': "(network_step ref_redis (\<lambda>_ _ _. True) demo_host Some (1 / 100) demo_lib ''key'' reliable)\<^sup>*\<^sup>* ?n n'"
    "nt_chain n' = nt_chain ?n" "nt_paid n' = nt_paid ?n" "nt_workers n' = nt_workers ?n" "ledger_of (plant_db (nt_plant n')) = L"
    "queue_grows (t_sync_events (g_db (w_grpc (pl_world pl)))) (t_sync_events (plant_db (nt_plant n')))"
    by (rule report_network [where re = "demo_result_env 2" and now = 5 and hostname = demo_host and uuid_in = Some and threshold = "1 / 100"
        and n = ?n and R = ref_redis and verify = "\<lambda>_ _ _. True" and r = demo_report and L' = L and c = "''m''" and uuid = digits_of
        and L = demo_lib and key = "''key''" and ok = reliable, unfolded n(1), OF c(1,2) refl _ _ c(8) pl(2) c(5,6) _ _ _ _ _ refl])
       (use demo_report_facts L none in \<open>simp_all add: c n inj_def\<close>)
  have "queued pk (t_sync_events (plant_db (nt_plant n'))) = (if pk = ''r'' then [3 / 200] else [])" for pk
    using demo_queue [OF L] arg_cong [OF n'(5), of "\<lambda>L. lg_queued L pk"] by (simp add: ledger_of_def)
  from queue_of_ledger [OF this] obtain e where e: "t_sync_events (plant_db (nt_plant n')) = [e]" "e_RunnerPubkey e = ''r''" by blast
  moreover from n'(6) c(4) none e(1) have "e_Status e = PENDING" by (auto simp: queue_grows_def)
  ultimately show ?thesis using that [OF network_reach_steps [OF n'(1) r]] n n'(2-4) by simp
qed

lemma demo_paid_network:
  obtains n tx where "network_reach ref_redis (\<lambda>_ _ _. True) demo_host Some (1 / 100) demo_lib ''key'' reliable demo_pipe_db 1 (n :: ref_state network)"
    "nt_chain n = [tx]" "\<forall>e \<in> set (t_sync_events (plant_db (nt_plant n))). e_RunnerPubkey e = ''r''"
proof -
  obtain n :: "ref_state network" where n: "network_reach ref_redis (\<lambda>_ _ _. True) demo_host Some (1 / 100) demo_lib ''key'' reliable demo_pipe_db 1 n"
    "nt_workers n = [Idle]" "nt_chain n = []" "nt_paid n = []"
    "\<exists>e. t_sync_events (plant_db (nt_plant n)) = [e] \<and> e_RunnerPubkey e = ''r'' \<and> e_Status e = PENDING"
    by (rule demo_report_queued)
  from n(5) obtain e where e: "t_sync_events (plant_db (nt_plant n)) = [e]" "e_RunnerPubkey e = ''r''" "e_Status e = PENDING"
    by blast
  let ?ves = "replicate 4 (demo_step_env Delivered)"
  obtain w' s' where run: "worker_run demo_lib ''key'' ?ves (Idle, sm_state (payouts n)) = (w', s')" by fastforce
  have "\<forall>ve \<in> set ?ves. reliable ve" by (simp add: reliable_def demo_step_env_def demo_rpc_def)
  from worker_run_network [OF n(2) run, of reliable ref_redis "\<lambda>_ _ _. True" demo_host Some "1 / 100"] this obtain n' where
    n': "(network_step ref_redis (\<lambda>_ _ _. True) demo_host Some (1 / 100) demo_lib ''key'' reliable)\<^sup>*\<^sup>* n n'"
    "sm_state (payouts n') = s'" by blast
  have q: "sm_state (payouts n) = \<lparr>sy_table = SolanaSql [e], sy_chain = [], sy_paid = []\<rparr>"
    by (simp add: payouts_def e(1) n(3,4))
  have "\<exists>tx. sy_chain s' = [tx]" "sy_table s' = SolanaSql [e\<lparr>e_Status := DONE, e_TxSignature := Some ''sig'', e_UpdatedAt := 1\<rparr>]"
    using run unfolding q by (auto simp: e(2,3) demo_run_simps eval_nat_numeral)
  then obtain tx where "nt_chain n' = [tx]" "\<forall>x \<in> set (t_sync_events (plant_db (nt_plant n'))). e_RunnerPubkey x = ''r''"
    using e(2) by (auto simp: payouts_def simp flip: n'(2))
  with that [OF network_reach_steps [OF n'(1) n(1)]] show ?thesis by blast
qed

theorem chain_pays_authenticated_witness:
  "\<exists>(n :: ref_state network) tx node.
     network_reach ref_redis (\<lambda>_ _ _. True) demo_host Some (1 / 100) demo_lib ''key'' reliable demo_pipe_db 1 n
     \<and> nt_chain n = [tx] \<and> credentialed (\<lambda>_ _ _. True) (w_log (pl_world (nt_plant n))) node ''r''"
proof -
  obtain n :: "ref_state network" and tx where n: "network_reach ref_redis (\<lambda>_ _ _. True) demo_host Some (1 / 100) demo_lib ''key'' reliable demo_pipe_db 1 n"
    "nt_chain n = [tx]" "\<forall>e \<in> set (t_sync_events (plant_db (nt_plant n))). e_RunnerPubkey e = ''r''" by (rule demo_paid_network)
  then have "tx \<in> set (nt_chain n)" by simp
  from chain_pays_authenticated [OF demo_lib_facts(1) n(1) this] n(3) obtain node where
    "credentialed (\<lambda>_ _ _. True) (w_log (pl_world (nt_plant n))) node ''r''" by metis
  with n(1,2) show ?thesis by blast
qed

theorem network_pays_earnings_witness:
  "\<exists>(n :: ref_state network) tx.
     network_reach ref_redis (\<lambda>_ _ _. True) demo_host Some (1 / 100) demo_lib ''key'' reliable demo_pipe_db 1 n
     \<and> nt_chain n = [tx] \<and> onchain [tx] \<le> 1000000000 * (drawn ''r'' (plant_db (nt_plant n)) - drawn ''r'' demo_pipe_db)"
proof -
  obtain n :: "ref_state network" and tx where n: "network_reach ref_redis (\<lambda>_ _ _. True) demo_host Some (1 / 100) demo_lib ''key'' reliable demo_pipe_db 1 n"
    "nt_chain n = [tx]" "\<forall>e \<in> set (t_sync_events (plant_db (nt_plant n))). e_RunnerPubkey e = ''r''" by (rule demo_paid_network)
  have "below (1 / 100) demo_pipe_db"
    by (simp add: below_def demo_pipe_db_def demo_node_db_def demo_db_def demo_runner_def)
  from network_pays_earnings [OF demo_lib_facts(1) n(1) demo_report_facts(2) this _ _ demo_lib_facts(2), of "recipient tx" "''r''"] n(3)
  have "onchain (chain_to (recipient tx) (nt_chain n)) \<le> 1000000000 * (drawn ''r'' (plant_db (nt_plant n)) - drawn ''r'' demo_pipe_db)"
    by simp
  moreover have "chain_to (recipient tx) (nt_chain n) = [tx]" by (simp add: n(2) chain_to_def)
  ultimately show ?thesis using n(1,2) by auto
qed

end
