(* ===== verification/Drain.thy ===== *)
theory Drain
  imports Payouts
begin

text \<open>
  The payout queue drains: while the database, the chain and the keys are in order, the loop of \<^verbatim>\<open>solana_sync.go\<close> pays
  every pending event, in rounds of at most ten.
\<close>

subsection \<open>One event\<close>

text \<open>Every request of a step is answered.\<close>

definition healthy :: "step_env \<Rightarrow> bool" where
  "healthy ve \<longleftrightarrow> ve_up ve \<and> 0 < ve_rows ve \<and> ve_mark ve = Delivered \<and> ve_final ve = Delivered
     \<and> xe_blockhash (ve_rpc ve) \<noteq> None \<and> xe_build (ve_rpc ve) \<and> xe_sign (ve_rpc ve) \<and> xe_send (ve_rpc ve) = Delivered"

definition payable_to :: "solana_lib \<Rightarrow> pending_event \<Rightarrow> bool" where
  "payable_to L e \<longleftrightarrow> node_address L (ev_RunnerPubkey e) \<noteq> None"

lemma healthy_send:
  assumes "healthy ve" "GetBackendPrivateKey L key \<noteq> None" "payable_to L e"
  obtains s' where "send_reward L key ve e s = (s', Accepted (xe_sig (ve_rpc ve)))" "sy_table s' = sy_table s"
    "sy_paid s' = sy_paid s @ [ev_ID e]"
proof -
  obtain tx where "executeRewardTx L key (ve_rpc ve) (ev_RunnerPubkey e) (ev_Amount e) (sy_chain s)
      = (sy_chain s @ [tx], Accepted (xe_sig (ve_rpc ve)))"
    using assms
    by (auto simp: executeRewardTx_def healthy_def payable_to_def node_address_def Let_def split: option.splits)
  then show ?thesis
    by (intro that [of "s\<lparr>sy_chain := sy_chain s @ [tx], sy_paid := sy_paid s @ [ev_ID e]\<rparr>"]) (simp_all add: send_reward_def)
qed

text \<open>The three steps of an event: marked, sent, done.\<close>

lemma healthy_event:
  assumes "healthy v1" "healthy v2" "healthy v3" "GetBackendPrivateKey L key \<noteq> None" "payable_to L e"
    and "sy_table s = SolanaSql es" "ev_ID e \<in> set (event_ids (sy_table s))"
  obtains s' es' where "worker_run L key [v1, v2, v3] (Batch (e # b), s) = (Batch b, s')" "sy_table s' = SolanaSql es'"
    "payout_rows (sy_table s') = payout_rows (sy_table s)" "sy_paid s' = sy_paid s @ [ev_ID e]"
    "status_of (sy_table s') = (status_of (sy_table s))(ev_ID e \<mapsto> DONE)"
proof -
  obtain t1 r1 where m: "MarkProcessing Delivered (ev_ID e) (sy_table s) = (t1, r1)" by fastforce
  note m' = mark_status [OF m]
  have r1: "r1 = Inr ()" "\<exists>xs. t1 = SolanaSql xs" using m by (auto simp: MarkProcessing_def sync_exec_def assms(6))
  obtain s2 where c: "send_reward L key v2 e (s\<lparr>sy_table := t1\<rparr>) = (s2, Accepted (xe_sig (ve_rpc v2)))" "sy_table s2 = t1"
    "sy_paid s2 = sy_paid s @ [ev_ID e]"
    using healthy_send [OF assms(2,4,5), of "s\<lparr>sy_table := t1\<rparr>"] by auto
  obtain t3 r3 where d: "MarkDone (ve_now v3) Delivered (ev_ID e) (xe_sig (ve_rpc v2)) t1 = (t3, r3)" by fastforce
  note d' = done_status [OF d]
  have t3: "\<exists>xs. t3 = SolanaSql xs" using d r1(2) by (auto simp: MarkDone_def sync_exec_def)
  have run: "worker_run L key [v1, v2, v3] (Batch (e # b), s) = (Batch b, s2\<lparr>sy_table := t3\<rparr>)"
    using assms(1,3) m r1(1) c d by (simp add: healthy_def)
  have "status_of t1 (ev_ID e) \<noteq> None"
    using m' assms(7) status_of_ids by simp
  then have st: "status_of t3 = (status_of (sy_table s))(ev_ID e \<mapsto> DONE)"
    using d' m' by (auto simp: fun_upd_idem)
  have "payout_rows t1 = payout_rows (sy_table s)" "payout_rows t3 = payout_rows t1"
    using mark_rows(1) [of Delivered "ev_ID e" "sy_table s"]
      mark_rows(2) [of "ve_now v3" Delivered "ev_ID e" "xe_sig (ve_rpc v2)" t1] by (simp_all add: m d)
  with run st t3 c(3) show ?thesis by (auto intro: that)
qed

subsection \<open>A batch and a round\<close>

definition settled_to :: "(string \<Rightarrow> sync_status option) \<Rightarrow> string list \<Rightarrow> string \<Rightarrow> sync_status option" where
  "settled_to st ids i = (if i \<in> set ids then Some DONE else st i)"

lemma settled_to_simps:
  "settled_to st [] = st"
  "settled_to (st(i \<mapsto> DONE)) ids = settled_to st (i # ids)"
  "settled_to (settled_to st ids) ids' = settled_to st (ids @ ids')"
  by (auto simp: settled_to_def fun_eq_iff)

lemma healthy_batch:
  assumes "length ves = 3 * length b" "\<forall>ve \<in> set ves. healthy ve" "GetBackendPrivateKey L key \<noteq> None"
    and "\<forall>e \<in> set b. payable_to L e \<and> ev_ID e \<in> set (event_ids (sy_table s))" "\<exists>es. sy_table s = SolanaSql es"
  shows "\<exists>s'. worker_run L key ves (Batch b, s) = (Batch [], s') \<and> (\<exists>es. sy_table s' = SolanaSql es)
    \<and> payout_rows (sy_table s') = payout_rows (sy_table s) \<and> sy_paid s' = sy_paid s @ map ev_ID b
    \<and> status_of (sy_table s') = settled_to (status_of (sy_table s)) (map ev_ID b)"
  using assms(1,2,4,5)
proof (induction b arbitrary: ves s)
  case Nil
  then show ?case by (simp add: settled_to_simps)
next
  case (Cons e b)
  from Cons.prems(1) obtain v1 v2 v3 vs where ves: "ves = [v1, v2, v3] @ vs" "length vs = 3 * length b"
    by (auto simp: length_Suc_conv numeral_3_eq_3)
  obtain es where "sy_table s = SolanaSql es" using Cons.prems(4) by blast
  from healthy_event [OF _ _ _ assms(3) _ this, of v1 v2 v3 e b] Cons.prems(2,3) ves(1)
  obtain s1 es1 where 1: "worker_run L key [v1, v2, v3] (Batch (e # b), s) = (Batch b, s1)" "sy_table s1 = SolanaSql es1"
    "payout_rows (sy_table s1) = payout_rows (sy_table s)" "sy_paid s1 = sy_paid s @ [ev_ID e]"
    "status_of (sy_table s1) = (status_of (sy_table s))(ev_ID e \<mapsto> DONE)" by auto
  have "\<forall>e \<in> set b. payable_to L e \<and> ev_ID e \<in> set (event_ids (sy_table s1))"
    using Cons.prems(3) by (simp add: event_ids_rows 1(3))
  with Cons.IH [OF ves(2), of s1] Cons.prems(2) ves(1) 1(2) obtain s' where
    "worker_run L key vs (Batch b, s1) = (Batch [], s')" "\<exists>es. sy_table s' = SolanaSql es"
    "payout_rows (sy_table s') = payout_rows (sy_table s1)" "sy_paid s' = sy_paid s1 @ map ev_ID b"
    "status_of (sy_table s') = settled_to (status_of (sy_table s1)) (map ev_ID b)" by auto
  with 1 show ?case
    unfolding ves(1) worker_run_simps(3) 1(1) by (simp add: settled_to_simps)
qed

definition pending :: "sync_table \<Rightarrow> string set" where
  "pending tbl = {i. status_of tbl i = Some PENDING}"

lemma finite_pending [simp]: "finite (pending tbl)"
proof (rule finite_subset)
  show "pending tbl \<subseteq> set (event_ids tbl)"
  proof
    fix i assume "i \<in> pending tbl"
    then have "status_of tbl i \<noteq> None" by (simp add: pending_def)
    then show "i \<in> set (event_ids tbl)" by (simp add: status_of_ids)
  qed
qed simp

lemma pending_rows:
  assumes "distinct (map e_ID es)"
  shows "pending (SolanaSql es) = e_ID ` set (filter (\<lambda>e. e_Status e = PENDING) es)"
proof
  show "pending (SolanaSql es) \<subseteq> e_ID ` set (filter (\<lambda>e. e_Status e = PENDING) es)"
    by (auto simp: pending_def status_of_def column_def dest!: map_of_SomeD)
  show "e_ID ` set (filter (\<lambda>e. e_Status e = PENDING) es) \<subseteq> pending (SolanaSql es)"
    using status_row [OF assms] by (auto simp: pending_def)
qed

text \<open>The owners of the pending events can be paid.\<close>

definition all_payable :: "solana_lib \<Rightarrow> sync_table \<Rightarrow> bool" where
  "all_payable L tbl \<longleftrightarrow> (\<forall>i \<in> pending tbl. \<forall>pk a. payout_of tbl i = Some (pk, a) \<longrightarrow> node_address L pk \<noteq> None)"

lemma fetched_batch:
  assumes "sy_table s = SolanaSql es" "distinct (map e_ID es)" "pending (sy_table s) \<noteq> {}" "all_payable L (sy_table s)" "0 < rows"
  obtains b where "FetchPending True rows 10 (sy_table s) = Inr b" "b \<noteq> []" "distinct (map ev_ID b)"
    "ev_ID ` set b \<subseteq> pending (sy_table s)" "\<forall>e \<in> set b. payable_to L e"
proof -
  let ?b = "map scan_event (take rows (take 10 (sort_key e_CreatedAt (filter (\<lambda>e. e_Status e = PENDING) es))))"
  have b: "FetchPending True rows 10 (sy_table s) = Inr ?b" by (simp add: FetchPending_def assms(1))
  have d: "distinct (event_ids (sy_table s))" using assms(1,2) by (simp add: event_ids_def)
  note f = fetched_pending [OF b d]
  have "filter (\<lambda>e. e_Status e = PENDING) es \<noteq> []"
    using assms(3) pending_rows [OF assms(2)] by (metis assms(1) image_empty list.set(1))
  then have "sort_key e_CreatedAt (filter (\<lambda>e. e_Status e = PENDING) es) \<noteq> []"
    using length_sort [of e_CreatedAt "filter (\<lambda>e. e_Status e = PENDING) es"] by (metis length_0_conv)
  then have "?b \<noteq> []" using assms(5) by simp
  moreover have p: "ev_ID ` set ?b \<subseteq> pending (sy_table s)" using f(2) by (auto simp: pending_def)
  moreover have "payable_to L e" if e: "e \<in> set ?b" for e
  proof -
    obtain a where "payout_of (sy_table s) (ev_ID e) = Some (ev_RunnerPubkey e, a)"
      using fetched_scanned [OF b d e] by (auto simp: scanned_def)
    moreover have "ev_ID e \<in> pending (sy_table s)" using p e by blast
    ultimately show ?thesis using assms(4) unfolding all_payable_def payable_to_def by blast
  qed
  ultimately show ?thesis using that [OF b _ f(1)] by blast
qed

lemma healthy_round:
  assumes "sy_table s = SolanaSql es" "distinct (map e_ID es)" "pending (sy_table s) \<noteq> {}" "all_payable L (sy_table s)"
    and "GetBackendPrivateKey L key \<noteq> None" "\<forall>ve \<in> set ves. healthy ve" "5 * card (pending (sy_table s)) \<le> length ves"
  obtains k s' ids where "k \<le> 5 * length ids" "worker_run L key (take k ves) (Idle, s) = (Idle, s')" "ids \<noteq> []"
    "\<exists>es. sy_table s' = SolanaSql es" "payout_rows (sy_table s') = payout_rows (sy_table s)"
    "sy_paid s' = sy_paid s @ ids" "distinct ids" "set ids \<subseteq> pending (sy_table s)"
    "status_of (sy_table s') = settled_to (status_of (sy_table s)) ids"
proof -
  have "pending (sy_table s) \<noteq> {} \<Longrightarrow> 0 < card (pending (sy_table s))" by (simp add: card_gt_0_iff finite_pending)
  with assms(3,7) have "hd ves \<in> set ves" by (cases ves) auto
  with assms(6) have "0 < ve_rows (hd ves)" by (simp add: healthy_def)
  from fetched_batch [OF assms(1-4) this] obtain b where
    b: "FetchPending True (ve_rows (hd ves)) 10 (sy_table s) = Inr b" "b \<noteq> []"
    "distinct (map ev_ID b)" "ev_ID ` set b \<subseteq> pending (sy_table s)" "\<forall>e \<in> set b. payable_to L e" .
  let ?m = "length b"
  have "card (ev_ID ` set b) = ?m" using distinct_card [OF b(3)] by simp
  with card_mono [OF finite_pending b(4)] have m: "?m \<le> card (pending (sy_table s))" by simp
  have "1 \<le> ?m" using b(2) by (cases b) auto
  with m assms(7) have len: "3 * ?m + 2 \<le> length ves" "3 * ?m + 2 \<le> 5 * ?m" by linarith+
  define mid where "mid = take (3 * ?m) (tl ves)"
  have ves: "take (3 * ?m + 2) ves = [hd ves] @ mid @ [ves ! (3 * ?m + 1)]" "length mid = 3 * ?m"
    "set mid \<subseteq> set ves" "hd ves \<in> set ves" "ves ! (3 * ?m + 1) \<in> set ves"
  proof -
    obtain v vs where v: "ves = v # vs" using len(1) by (cases ves) auto
    then show "length mid = 3 * ?m" "set mid \<subseteq> set ves" "hd ves \<in> set ves"
      using len(1) by (auto simp: mid_def dest: in_set_takeD)
    show "ves ! (3 * ?m + 1) \<in> set ves" by (rule nth_mem) (use len(1) in simp)
    show "take (3 * ?m + 2) ves = [hd ves] @ mid @ [ves ! (3 * ?m + 1)]"
      using len(1) by (simp add: v mid_def take_Suc_conv_app_nth)
  qed
  have "\<forall>e \<in> set b. payable_to L e \<and> ev_ID e \<in> set (event_ids (sy_table s))"
  proof
    fix e assume "e \<in> set b"
    with b(4,5) have "payable_to L e" "status_of (sy_table s) (ev_ID e) \<noteq> None" by (auto simp: pending_def)
    then show "payable_to L e \<and> ev_ID e \<in> set (event_ids (sy_table s))" by (simp add: status_of_ids)
  qed
  from healthy_batch [OF ves(2) _ assms(5) this] ves(3) assms(1,6) obtain s' where
    s': "worker_run L key mid (Batch b, s) = (Batch [], s')" "\<exists>es. sy_table s' = SolanaSql es"
    "payout_rows (sy_table s') = payout_rows (sy_table s)" "sy_paid s' = sy_paid s @ map ev_ID b"
    "status_of (sy_table s') = settled_to (status_of (sy_table s)) (map ev_ID b)" by auto
  have "worker_run L key ([hd ves] @ mid @ [ves ! (3 * ?m + 1)]) (Idle, s) = (Idle, s')"
    using assms(6) ves(4) b(1,2) by (simp add: s'(1) healthy_def)
  then have "worker_run L key (take (3 * ?m + 2) ves) (Idle, s) = (Idle, s')" by (simp only: ves(1))
  with that [of "3 * ?m + 2" "map ev_ID b" s'] len(2) b s' show ?thesis by simp
qed

lemma healthy_run:
  assumes "card (pending (sy_table s)) = n" "\<exists>es. sy_table s = SolanaSql es \<and> distinct (map e_ID es)"
    and "all_payable L (sy_table s)" "GetBackendPrivateKey L key \<noteq> None" "\<forall>ve \<in> set ves. healthy ve" "5 * n \<le> length ves"
  shows "\<exists>k s' ids. k \<le> 5 * n \<and> worker_run L key (take k ves) (Idle, s) = (Idle, s') \<and> sy_paid s' = sy_paid s @ ids
    \<and> distinct ids \<and> set ids = pending (sy_table s) \<and> status_of (sy_table s') = settled_to (status_of (sy_table s)) ids"
  using assms(1-3,5,6)
proof (induction n arbitrary: s ves rule: less_induct)
  case (less n)
  show ?case
  proof (cases "pending (sy_table s) = {}")
    case True
    then show ?thesis by (intro exI [of _ 0] exI [of _ s] exI [of _ "[]"]) (simp add: settled_to_simps)
  next
    case False
    from less.prems(2) obtain es where es: "sy_table s = SolanaSql es" "distinct (map e_ID es)" by blast
    have len: "5 * card (pending (sy_table s)) \<le> length ves" using less.prems(1,5) by simp
    from healthy_round [OF es False less.prems(3) assms(4) less.prems(4) len] obtain k s1 ids where
      1: "k \<le> 5 * length ids" "worker_run L key (take k ves) (Idle, s) = (Idle, s1)" "ids \<noteq> []"
      "\<exists>es. sy_table s1 = SolanaSql es" "payout_rows (sy_table s1) = payout_rows (sy_table s)"
      "sy_paid s1 = sy_paid s @ ids" "distinct ids" "set ids \<subseteq> pending (sy_table s)"
      "status_of (sy_table s1) = settled_to (status_of (sy_table s)) ids" .
    have p1: "pending (sy_table s1) = pending (sy_table s) - set ids"
      by (auto simp: pending_def 1(9) settled_to_def)
    have c: "card (pending (sy_table s1)) = n - length ids" "length ids \<le> n" "0 < length ids"
      using card_Diff_subset [OF _ 1(8)] card_mono [OF finite_pending 1(8)] distinct_card [OF 1(7)] 1(3) less.prems(1)
      by (simp_all add: p1)
    have d1: "\<exists>es. sy_table s1 = SolanaSql es \<and> distinct (map e_ID es)"
    proof -
      obtain es1 where e1: "sy_table s1 = SolanaSql es1" using 1(4) by blast
      have "event_ids (sy_table s1) = event_ids (sy_table s)" by (simp add: event_ids_rows 1(5))
      with es show ?thesis by (simp add: e1 event_ids_def)
    qed
    have a1: "all_payable L (sy_table s1)"
      using less.prems(3) by (auto simp: all_payable_def p1 payout_of_def 1(5))
    have h1: "\<forall>ve \<in> set (drop k ves). healthy ve" using less.prems(4) by (auto dest: in_set_dropD)
    have l1: "5 * (n - length ids) \<le> length (drop k ves)" using less.prems(5) 1(1) c(2) by simp
    have "n - length ids < n" using c(2,3) by linarith
    from less.IH [OF this c(1) d1 a1 h1 l1] obtain k' s' ids' where
      2: "k' \<le> 5 * (n - length ids)" "worker_run L key (take k' (drop k ves)) (Idle, s1) = (Idle, s')"
      "sy_paid s' = sy_paid s1 @ ids'" "distinct ids'" "set ids' = pending (sy_table s1)"
      "status_of (sy_table s') = settled_to (status_of (sy_table s1)) ids'" by blast
    have "worker_run L key (take (k + k') ves) (Idle, s) = (Idle, s')"
      unfolding take_add worker_run_simps(3) 1(2) by (rule 2(2))
    moreover have "k + k' \<le> 5 * n" using 1(1) 2(1) c(2) by (simp add: diff_mult_distrib2)
    moreover have "distinct (ids @ ids')" "set (ids @ ids') = pending (sy_table s)"
      using 1(7,8) 2(4,5) p1 by auto
    moreover have "sy_paid s' = sy_paid s @ (ids @ ids')" using 1(6) 2(3) by simp
    moreover have "status_of (sy_table s') = settled_to (status_of (sy_table s)) (ids @ ids')"
      unfolding 2(6) 1(9) settled_to_simps ..
    ultimately show ?thesis by blast
  qed
qed

subsection \<open>Properties\<close>

text \<open>
  C8. Payouts arrive: when the owner of every pending event has a node address, a worker with a valid key, whose requests are
  answered, even with the rows of a fetch cut short, pays every pending event exactly once, and is back at the start of its
  loop with all of them done and the other events as they were, within five steps for each.
\<close>
theorem healthy_worker_pays_all:
  assumes "sy_table s = SolanaSql es" "distinct (map e_ID es)" "GetBackendPrivateKey L key \<noteq> None"
    and "\<forall>e \<in> set es. e_Status e = PENDING \<longrightarrow> node_address L (e_RunnerPubkey e) \<noteq> None"
    and "\<forall>ve \<in> set ves. healthy ve" "5 * length (filter (\<lambda>e. e_Status e = PENDING) es) \<le> length ves"
  shows "\<exists>k s' ids. k \<le> 5 * length (filter (\<lambda>e. e_Status e = PENDING) es)
    \<and> worker_run L key (take k ves) (Idle, s) = (Idle, s')
    \<and> sy_paid s' = sy_paid s @ ids \<and> distinct ids \<and> set ids = {e_ID e | e. e \<in> set es \<and> e_Status e = PENDING}
    \<and> (\<forall>i. status_of (sy_table s') i = (if i \<in> set ids then Some DONE else status_of (sy_table s) i))"
proof -
  let ?P = "filter (\<lambda>e. e_Status e = PENDING) es"
  have p: "pending (sy_table s) = {e_ID e | e. e \<in> set es \<and> e_Status e = PENDING}"
    using pending_rows [OF assms(2)] assms(1) by auto
  have "distinct (map e_ID ?P)" by (rule distinct_map_filter [OF assms(2)])
  from distinct_card [OF this] have c: "card (pending (sy_table s)) = length ?P"
    using pending_rows [OF assms(2)] assms(1) by simp
  have "node_address L pk \<noteq> None" if "i \<in> pending (sy_table s)" "payout_of (sy_table s) i = Some (pk, a)" for i pk a
  proof -
    from that(1) p obtain e where e: "e \<in> set es" "e_Status e = PENDING" "i = e_ID e" by auto
    with that(2) payout_row [OF assms(2)] assms(1) have "e_RunnerPubkey e = pk" by simp
    with e assms(4) show ?thesis by blast
  qed
  then have "all_payable L (sy_table s)" by (auto simp: all_payable_def)
  with healthy_run [OF c _ _ assms(3,5,6)] assms(1,2) obtain k s' ids where
    "k \<le> 5 * length ?P" "worker_run L key (take k ves) (Idle, s) = (Idle, s')" "sy_paid s' = sy_paid s @ ids"
    "distinct ids" "set ids = pending (sy_table s)" "status_of (sy_table s') = settled_to (status_of (sy_table s)) ids"
    by blast
  then show ?thesis unfolding p by (intro exI [of _ k] exI [of _ s'] exI [of _ ids]) (simp add: settled_to_def)
qed

theorem healthy_worker_pays_all_witness:
  "\<exists>k s'. k \<le> 5 \<and> worker_run demo_lib ''key'' (take k (replicate 5 (demo_step_env Delivered))) (Idle, sm_state (demo_system 1 ''r''))
       = (Idle, s') \<and> sy_paid s' = [''e''] \<and> status_of (sy_table s') ''e'' = Some DONE"
proof -
  have "\<exists>k s' ids. k \<le> 5 * length (filter (\<lambda>e. e_Status e = PENDING) [demo_event ''e'' ''r''])
    \<and> worker_run demo_lib ''key'' (take k (replicate 5 (demo_step_env Delivered))) (Idle, sm_state (demo_system 1 ''r'')) = (Idle, s')
    \<and> sy_paid s' = sy_paid (sm_state (demo_system 1 ''r'')) @ ids \<and> distinct ids
    \<and> set ids = {e_ID e | e. e \<in> set [demo_event ''e'' ''r''] \<and> e_Status e = PENDING}
    \<and> (\<forall>i. status_of (sy_table s') i
         = (if i \<in> set ids then Some DONE else status_of (sy_table (sm_state (demo_system 1 ''r''))) i))"
    by (rule healthy_worker_pays_all)
       (auto simp: demo_system_def demo_event_def demo_lib_def GetBackendPrivateKey_def node_address_def programID_def
         demo_step_env_def demo_rpc_def healthy_def)
  then obtain k s' ids where k: "k \<le> 5" and r: "worker_run demo_lib ''key''
      (take k (replicate 5 (demo_step_env Delivered))) (Idle, sm_state (demo_system 1 ''r'')) = (Idle, s')"
    and ids: "sy_paid s' = ids" "distinct ids" "set ids = {''e''}"
    and st: "\<forall>i. status_of (sy_table s') i
         = (if i \<in> set ids then Some DONE else status_of (sy_table (sm_state (demo_system 1 ''r''))) i)"
    by (auto simp: demo_system_def demo_event_def)
  from ids(2,3) have "ids = [''e'']" by (cases ids) (auto simp: subset_singleton_iff)
  with k r ids(1) st show ?thesis by auto
qed

subsection \<open>Paying twice\<close>

text \<open>A lone payout, and the transactions that the steps of its payment send.\<close>

abbreviation lone :: "SolanaSyncEvent \<Rightarrow> nat \<Rightarrow> system" where
  "lone e n \<equiv> \<lparr>sm_state = \<lparr>sy_table = SolanaSql [e], sy_chain = [], sy_paid = []\<rparr>, sm_workers = replicate n Idle\<rparr>"

abbreviation unanswered :: "step_env \<Rightarrow> step_env" where
  "unanswered ve \<equiv> ve\<lparr>ve_rpc := (ve_rpc ve)\<lparr>xe_send := ReplyLost\<rparr>\<rparr>"

definition pays :: "solana_lib \<Rightarrow> SolanaSyncEvent \<Rightarrow> rpc_env \<Rightarrow> transaction \<Rightarrow> bool" where
  "pays L e xe tx \<longleftrightarrow> node_address L (e_RunnerPubkey e) = Some (recipient tx)
     \<and> chain_amount tx = amount_raw (fl (e_Amount e)) \<and> Some (tx_blockhash tx) = xe_blockhash xe"

lemma executeRewardTx_pays:
  assumes "8 \<le> length (sl_sha256 L (bytes ''global:add_reward''))" "GetBackendPrivateKey L key \<noteq> None"
    and "node_address L (e_RunnerPubkey e) \<noteq> None" "xe_blockhash xe \<noteq> None" "xe_build xe" "xe_sign xe"
  obtains tx where "pays L e xe tx"
    "\<And>ch. executeRewardTx L key (xe\<lparr>xe_send := Delivered\<rparr>) (e_RunnerPubkey e) (fl (e_Amount e)) ch = (ch @ [tx], Accepted (xe_sig xe))"
    "\<And>ch. executeRewardTx L key (xe\<lparr>xe_send := ReplyLost\<rparr>) (e_RunnerPubkey e) (fl (e_Amount e)) ch = (ch @ [tx], Rejected)"
proof -
  obtain sk program node pda h where f: "GetBackendPrivateKey L key = Some sk" "sl_pubkey L programID = Some program"
    "sl_pubkey L (e_RunnerPubkey e) = Some node"
    "sl_address L [bytes ''node'', node, sl_sha256 L (bytes ''test1@gmail.com'')] program = Some pda"
    "node_address L (e_RunnerPubkey e) = Some pda" "xe_blockhash xe = Some h"
    using assms(2-4) by (auto simp: node_address_def split: option.splits)
  let ?tx = "\<lparr>tx_instructions = [\<lparr>in_program = program,
      in_accounts = [\<lparr>am_key = pda, am_signer = False, am_writable = True\<rparr>,
        \<lparr>am_key = sl_public L sk, am_signer = True, am_writable = False\<rparr>],
      in_data = reward_data L (fl (e_Amount e))\<rparr>], tx_blockhash = h, tx_payer = sl_public L sk\<rparr>"
  show thesis
  proof (rule that [of ?tx])
    show "pays L e xe ?tx"
      using f(5,6) reward_data_amount [OF assms(1)] by (simp add: pays_def recipient_def chain_amount_def)
  qed (simp_all add: executeRewardTx_def f assms(5,6))
qed

text \<open>
  C36. Both conditions of the at-most-once guarantee are needed: whatever the payout, two workers with nothing lost can
  both pay it, since the locks of the fetch end with the statement; and one worker pays it again when the chain takes a
  transaction whose reply is lost, since the event is then put back. With blockhashes fetched at different times these
  are two different transactions of the full amount to the same address, so the chain has no reason to refuse the second.
\<close>
theorem payouts_can_double:
  assumes "8 \<le> length (sl_sha256 L (bytes ''global:add_reward''))" "GetBackendPrivateKey L key \<noteq> None"
    and "node_address L (e_RunnerPubkey e) \<noteq> None" "e_Status e = PENDING"
    and "healthy v" "healthy w" "xe_blockhash (ve_rpc v) \<noteq> xe_blockhash (ve_rpc w)"
  shows "\<exists>y z tx1 tx2. sync_reach L key healthy 2 y
    \<and> sync_reach L key (\<lambda>ve. healthy ve \<or> (\<exists>u. healthy u \<and> ve = unanswered u)) 1 z
    \<and> sy_chain (sm_state y) = [tx1, tx2] \<and> sy_paid (sm_state y) = [e_ID e, e_ID e]
    \<and> sy_chain (sm_state z) = [tx1, tx2] \<and> sy_paid (sm_state z) = [e_ID e, e_ID e]
    \<and> tx1 \<noteq> tx2 \<and> pays L e (ve_rpc v) tx1 \<and> pays L e (ve_rpc w) tx2"
proof -
  have h: "xe_blockhash (ve_rpc u) \<noteq> None" "xe_build (ve_rpc u)" "xe_sign (ve_rpc u)" "ve_up u" "ve_mark u = Delivered"
    "ve_final u = Delivered" "(ve_rpc u)\<lparr>xe_send := Delivered\<rparr> = ve_rpc u" "\<exists>n. ve_rows u = Suc n" if "healthy u" for u
    using that by (auto simp: healthy_def gr0_conv_Suc intro: rpc_env.equality)
  note hv = h [OF assms(5)] and hw = h [OF assms(6)]
  obtain m n where rows: "ve_rows v = Suc m" "ve_rows w = Suc n" using hv(8) hw(8) by blast
  obtain t1 where t1: "pays L e (ve_rpc v) t1"
    "\<And>ch. executeRewardTx L key (ve_rpc v) (e_RunnerPubkey e) (fl (e_Amount e)) ch = (ch @ [t1], Accepted (xe_sig (ve_rpc v)))"
    "\<And>ch. executeRewardTx L key ((ve_rpc v)\<lparr>xe_send := ReplyLost\<rparr>) (e_RunnerPubkey e) (fl (e_Amount e)) ch = (ch @ [t1], Rejected)"
    using executeRewardTx_pays [OF assms(1-3) hv(1-3)] hv(7) by metis
  obtain t2 where t2: "pays L e (ve_rpc w) t2"
    "\<And>ch. executeRewardTx L key (ve_rpc w) (e_RunnerPubkey e) (fl (e_Amount e)) ch = (ch @ [t2], Accepted (xe_sig (ve_rpc w)))"
    using executeRewardTx_pays [OF assms(1-3) hw(1-3)] hw(7) by metis
  note defs = act_on_def FetchPending_def scan_event_def MarkProcessing_def MarkPendingAgain_def sync_exec_def send_reward_def
  let ?two = "[(0, v), (1, w), (0, v), (1, w), (0, v), (1, w)]"
  let ?one = "[(0, unanswered v), (0, unanswered v), (0, unanswered v), (0, unanswered v), (0, w), (0, w), (0, w), (0, w)]"
  have start: "sync_reach L key ok n (lone e n)" for ok n
    using assms(4) by (intro sync_reach.start) simp_all
  have "sync_reach L key healthy 2 (fold (act_on L key) ?two (lone e 2))"
    by (rule act_run [OF start]) (simp add: assms(5,6))
  moreover have "sync_reach L key (\<lambda>ve. healthy ve \<or> (\<exists>u. healthy u \<and> ve = unanswered u)) 1
      (fold (act_on L key) ?one (lone e 1))"
    by (rule act_run [OF start]) (use assms(5,6) in auto)
  moreover have "sy_chain (sm_state (fold (act_on L key) ?two (lone e 2))) = [t1, t2]
      \<and> sy_paid (sm_state (fold (act_on L key) ?two (lone e 2))) = [e_ID e, e_ID e]"
    by (simp add: defs rows hv(4,5) hw(4,5) t1(2) t2(2) assms(4) numeral_2_eq_2)
  moreover have "sy_chain (sm_state (fold (act_on L key) ?one (lone e 1))) = [t1, t2]
      \<and> sy_paid (sm_state (fold (act_on L key) ?one (lone e 1))) = [e_ID e, e_ID e]"
    by (simp add: defs rows hv(4-6) hw(4-6) t1(3) t2(2) assms(4))
  moreover have "t1 \<noteq> t2" using t1(1) t2(1) assms(7) by (auto simp: pays_def)
  ultimately show ?thesis using t1(1) t2(1) by blast
qed

theorem payouts_can_double_witness:
  "\<exists>y tx1 tx2. sync_reach demo_lib ''key'' healthy 2 y \<and> sy_chain (sm_state y) = [tx1, tx2]
     \<and> sy_paid (sm_state y) = [''e'', ''e''] \<and> tx1 \<noteq> tx2"
proof -
  let ?v = "demo_step_env Delivered"
  let ?w = "?v\<lparr>ve_rpc := (ve_rpc ?v)\<lparr>xe_blockhash := Some [7]\<rparr>\<rparr>"
  have "8 \<le> length (sl_sha256 demo_lib (bytes ''global:add_reward''))" "GetBackendPrivateKey demo_lib ''key'' \<noteq> None"
    "node_address demo_lib (e_RunnerPubkey (demo_event ''e'' ''r'')) \<noteq> None" "e_Status (demo_event ''e'' ''r'') = PENDING"
    "healthy ?v" "healthy ?w" "xe_blockhash (ve_rpc ?v) \<noteq> xe_blockhash (ve_rpc ?w)" "e_ID (demo_event ''e'' ''r'') = ''e''"
    by (auto simp: demo_event_def demo_lib_def GetBackendPrivateKey_def node_address_def programID_def demo_step_env_def
        demo_rpc_def healthy_def)
  note h = this
  obtain y z tx1 tx2 where "sync_reach demo_lib ''key'' healthy 2 y" "sy_chain (sm_state y) = [tx1, tx2]" "tx1 \<noteq> tx2"
    "sy_paid (sm_state y) = [e_ID (demo_event ''e'' ''r''), e_ID (demo_event ''e'' ''r'')]"
    using payouts_can_double [OF h(1-7)] by blast
  then show ?thesis unfolding h(8) by blast
qed

end
