(* ===== verification/Progress.thy ===== *)
theory Progress
  imports Network Drain
begin

text \<open>
  From a report to the chain: the run in which a good report is settled, its runner reaches the threshold and the sync
  worker sends the payout.
\<close>

subsection \<open>The parts of the run\<close>

lemma fresh_uuids:
  assumes "finite S"
  obtains uuid :: "nat \<Rightarrow> string" where "inj uuid" "\<forall>i. uuid i \<notin> S"
proof -
  have "infinite (- S)" by (simp add: assms Compl_eq_Diff_UNIV infinite_UNIV_listI)
  from infinite_countable_subset [OF this] show ?thesis using that by blast
qed

lemma worker_run_rows:
  "worker_run L key ves (w, s) = (w', s') \<Longrightarrow> payout_rows (sy_table s') = payout_rows (sy_table s)"
proof (induction ves arbitrary: w s)
  case (Cons ve ves)
  obtain w1 s1 where 1: "worker_step L key ve (w, s) = (w1, s1)" by fastforce
  with Cons worker_step_rows [OF 1] show ?case by simp
qed simp

text \<open>What the settlement of a runner at the threshold queues.\<close>

lemma settle_spec_queues:
  assumes "settle_spec threshold cost c pk (ledger_of db) = Some (ledger_of db')"
    and "lg_balance (ledger_of db) pk = Some x" "lg_stake (ledger_of db) pk = Some s" "threshold \<le> x + new_reward s"
    and "queue_grows (t_sync_events db) (t_sync_events db')"
  obtains e where "t_sync_events db' = t_sync_events db @ [e]" "payee e = (pk, x + new_reward s)" "e_Status e = PENDING"
    "e_ID e \<notin> set (map e_ID (t_sync_events db))"
proof -
  have q: "lg_queued (ledger_of db') = (lg_queued (ledger_of db))(pk := lg_queued (ledger_of db) pk @ [x + new_reward s])"
  proof -
    have "Some (lg_queued (ledger_of db')) = map_option lg_queued (settle_spec threshold cost c pk (ledger_of db))"
      by (simp add: assms(1))
    moreover have "settle_spec threshold cost c pk (ledger_of db) \<noteq> None" by (simp add: assms(1))
    then have "map_option lg_queued (settle_spec threshold cost c pk (ledger_of db))
        = Some ((lg_queued (ledger_of db))(pk := lg_queued (ledger_of db) pk @ [x + new_reward s]))"
      using assms(2-4) by (auto simp: settle_spec_def Let_def split: option.splits if_splits)
    ultimately show ?thesis by simp
  qed
  from assms(5) obtain new where new: "t_sync_events db' = t_sync_events db @ new"
    "e_ID ` set new \<inter> e_ID ` set (t_sync_events db) = {}" "\<forall>e \<in> set new. e_Status e = PENDING"
    by (auto simp: queue_grows_def)
  have "queued k new = (if k = pk then [x + new_reward s] else [])" for k
    using arg_cong [OF q, of "\<lambda>f. f k"] by (simp add: ledger_of_def new(1) split: if_splits)
  from queue_of_ledger [OF this] obtain e where "new = [e]" "e_RunnerPubkey e = pk" "e_Amount e = x + new_reward s" by blast
  with new that show ?thesis by auto
qed

text \<open>The position of a payment in the chain.\<close>

lemma paid_on_chain:
  assumes "chain_ok L s'" "sy_paid s' = old @ ids" "i \<in> set ids"
  obtains tx where "tx \<in> set (drop (length old) (sy_chain s'))" "carries L (sy_table s') tx i"
proof -
  have c: "list_all2 (carries L (sy_table s')) (sy_chain s') (old @ ids)"
    using assms(1,2) by (simp add: chain_ok_def)
  then obtain us vs where v: "sy_chain s' = us @ vs" "length us = length old" "list_all2 (carries L (sy_table s')) vs ids"
    by (auto simp: list_all2_append2)
  with assms(3) obtain tx where "tx \<in> set vs" "carries L (sy_table s') tx i"
    by (metis in_set_conv_nth list_all2_conv_all_nth)
  with that v(1,2) show ?thesis by auto
qed

subsection \<open>Properties\<close>

text \<open>
  C4. Honest work reaches the chain: when a connected miner sends a good report whose reward takes its owner to the threshold,
  and the worker's key is valid, its requests are answered and the owners with pending payouts have addresses, then a run of
  the whole program leads from the report to a new transaction on chain that pays the owner's address its whole
  balance, and leaves the worker idle.
\<close>
theorem honest_work_reaches_chain:
  fixes n :: "'s network"
  assumes "length (sl_sha256 L (bytes ''global:add_reward'')) = 32" "GetBackendPrivateKey L key \<noteq> None" "healthy ve" "ok ve"
    and "network_reach R verify hostname uuid_in threshold L key ok db0 1 n" "nt_workers n = [Idle]"
    and "i < length (w_sessions (pl_world (nt_plant n)))" "w_sessions (pl_world (nt_plant n)) ! i = Active node pk"
    and "g = w_grpc (pl_world (nt_plant n))" "result_accepted R verify re node r (g_rdb g)"
    and "re_open re \<or> (\<exists>c. g_rabbitCh g = Some (c, False))" "re_publish re \<noteq> RequestLost" "pl_results (nt_plant n) = []"
    and "pb_JobId r = job_id mon pk' sent_at" "CHR '':'' \<notin> set mon" "mon \<noteq> []" "uuid_in mon = Some c"
    and "wf_db (g_db g)" "roomy (g_db g)" "settle_spec threshold (1 / 100) c pk (ledger_of (g_db g)) = Some L'"
    and "item = result_item node (g_miners g pk) r" "row_error uuid_in (g_db g) (build_log now pk item) = None"
    and "lg_balance (ledger_of (g_db g)) pk = Some x" "lg_stake (ledger_of (g_db g)) pk = Some s" "threshold \<le> x + new_reward s"
    and "node_address L pk = Some addr"
    and "\<forall>e \<in> set (t_sync_events (g_db g)). e_Status e = PENDING \<longrightarrow> node_address L (e_RunnerPubkey e) \<noteq> None"
  shows "\<exists>n' tx. (network_step R verify hostname uuid_in threshold L key ok)\<^sup>*\<^sup>* n n' \<and> nt_workers n' = [Idle]
    \<and> tx \<in> set (drop (length (nt_chain n)) (nt_chain n')) \<and> recipient tx = addr
    \<and> chain_amount tx = amount_raw (fl (x + new_reward s))"
proof -
  let ?S = "network_step R verify hostname uuid_in threshold L key ok"
  let ?es = "t_sync_events (g_db g)"
  obtain uuid :: "nat \<Rightarrow> string" where u: "inj uuid" "\<forall>i. uuid i \<notin> e_ID ` set ?es"
    using fresh_uuids [of "e_ID ` set ?es"] by auto
  obtain n1 :: "'s network" where n1: "?S\<^sup>*\<^sup>* n n1" "nt_chain n1 = nt_chain n" "nt_paid n1 = nt_paid n" "nt_workers n1 = nt_workers n"
    "ledger_of (plant_db (nt_plant n1)) = L'" "queue_grows ?es (t_sync_events (plant_db (nt_plant n1)))"
    by (rule report_network [where now = now and L = L and key = key and ok = ok, OF assms(7-22) u])
  have spec: "settle_spec threshold (1 / 100) c pk (ledger_of (g_db g)) = Some (ledger_of (plant_db (nt_plant n1)))"
    by (simp add: assms(20) n1(5))
  obtain e where e: "t_sync_events (plant_db (nt_plant n1)) = ?es @ [e]" "payee e = (pk, x + new_reward s)" "e_Status e = PENDING"
    by (rule settle_spec_queues [OF spec assms(23-25) n1(6)])
  let ?s = "sm_state (payouts n1)"
  have t: "sy_table ?s = SolanaSql (?es @ [e])" by (simp add: payouts_def e(1))
  have sha: "8 \<le> length (sl_sha256 L (bytes ''global:add_reward''))" using assms(1) by simp
  have ok: "chain_ok L (sm_state (payouts m))" if "?S\<^sup>*\<^sup>* n m" for m
    using carried_reach [OF sha network_payouts [OF network_reach_steps [OF that assms(5)]]] by (simp add: carried_def)
  have d: "distinct (map e_ID (?es @ [e]))" using ok [OF n1(1)] by (simp add: chain_ok_def t event_ids_def)
  have "node_address L q \<noteq> None" if q: "j \<in> pending (sy_table ?s)" "payout_of (sy_table ?s) j = Some (q, a)" for j q a
  proof -
    from q(1) obtain f where f: "f \<in> set (?es @ [e])" "e_Status f = PENDING" "e_ID f = j"
      unfolding t pending_rows [OF d] by (auto split: if_splits)
    with payout_row [OF d f(1)] q(2) have "e_RunnerPubkey f = q" by (simp add: t)
    with f assms(26,27) e(2) show ?thesis by auto
  qed
  then have "all_payable L (sy_table ?s)" by (auto simp: all_payable_def)
  from healthy_run [OF refl _ this assms(2), of "replicate (5 * card (pending (sy_table ?s))) ve"] d t assms(3)
  obtain k s' ids where run: "worker_run L key (take k (replicate (5 * card (pending (sy_table ?s))) ve)) (Idle, ?s) = (Idle, s')"
    and ids: "sy_paid s' = sy_paid ?s @ ids" "set ids = pending (sy_table ?s)" by auto
  have "\<forall>v \<in> set (take k (replicate (5 * card (pending (sy_table ?s))) ve)). ok v"
    using assms(4) by (auto dest: in_set_takeD)
  from worker_run_network [OF _ run this, of R verify hostname uuid_in threshold] n1(4) assms(6) obtain n2 :: "'s network" where
    n2: "?S\<^sup>*\<^sup>* n1 n2" "nt_workers n2 = [Idle]" "sm_state (payouts n2) = s'" by auto
  have steps: "?S\<^sup>*\<^sup>* n n2" using n1(1) n2(1) by (rule rtranclp_trans)
  have "e_ID e \<in> set ids" unfolding ids(2) t pending_rows [OF d] using e(3) by simp
  from paid_on_chain [OF ok [OF steps, unfolded n2(3)] ids(1) this] obtain tx where
    tx: "tx \<in> set (drop (length (sy_paid ?s)) (sy_chain s'))" "carries L (sy_table s') tx (e_ID e)" .
  have "payout_of (sy_table s') (e_ID e) = Some (pk, x + new_reward s)"
    using payout_row [OF d, of e] worker_run_rows [OF run] e(2) by (simp add: payout_of_def t)
  with tx(2) assms(26) have "recipient tx = addr" "chain_amount tx = amount_raw (fl (x + new_reward s))"
    by (simp_all add: carries_def)
  moreover have "length (sy_paid ?s) = length (nt_chain n)"
    using ok [OF n1(1)] n1(2) by (auto simp: chain_ok_def payouts_def dest: list_all2_lengthD)
  moreover have "sy_chain s' = nt_chain n2" by (simp add: payouts_def flip: n2(3))
  ultimately show ?thesis using steps n2(2) tx(1) by auto
qed

lemma demo_ready_account:
  "lg_balance (ledger_of demo_pipe_db) ''r'' = Some 0" "lg_stake (ledger_of demo_pipe_db) ''r'' = Some 20"
  by (simp_all add: ledger_of_def demo_pipe_db_def demo_node_db_def demo_db_def demo_runner_def)

theorem honest_work_reaches_chain_witness:
  "\<exists>(n :: ref_state network) tx addr. node_address demo_lib ''r'' = Some addr
     \<and> network_reach ref_redis (\<lambda>_ _ _. True) demo_host Some (1 / 100) demo_lib ''key'' reliable demo_pipe_db 1 n
     \<and> tx \<in> set (nt_chain n) \<and> recipient tx = addr \<and> chain_amount tx = amount_raw (fl (3 / 200))"
proof -
  obtain pl :: "ref_state plant" where r: "network_reach ref_redis (\<lambda>_ _ _. True) demo_host Some (1 / 100) demo_lib ''key'' reliable
      demo_pipe_db 1 (demo_pipe_network pl)"
    and pl: "pl_world pl = demo_session 0 demo_pipe_world" "pl_results pl = []" and none: "t_sync_events demo_pipe_db = []"
    by (rule demo_network_ready)
  let ?n = "demo_pipe_network pl"
  have n: "nt_plant ?n = pl" "nt_workers ?n = [Idle]" by (simp_all add: demo_pipe_network_def)
  note c = demo_conditions [OF pl(1)]
  obtain L where L: "settle_spec (1 / 100) (1 / 100) ''m'' ''r'' (ledger_of demo_pipe_db) = Some L" by (rule demo_ledger)
  have reward: "new_reward 20 = 3 / 200" by (simp add: new_reward_stake)
  obtain addr where addr: "node_address demo_lib ''r'' = Some addr"
    by (simp add: node_address_def demo_lib_def programID_def)
  have ve: "GetBackendPrivateKey demo_lib ''key'' \<noteq> None" "healthy (demo_step_env Delivered)" "reliable (demo_step_env Delivered)"
    by (simp_all add: demo_lib_def GetBackendPrivateKey_def healthy_def reliable_def demo_step_env_def demo_rpc_def)
  have "\<exists>n' tx. (network_step ref_redis (\<lambda>_ _ _. True) demo_host Some (1 / 100) demo_lib ''key'' reliable)\<^sup>*\<^sup>* ?n n'
      \<and> nt_workers n' = [Idle] \<and> tx \<in> set (drop (length (nt_chain ?n)) (nt_chain n')) \<and> recipient tx = addr
      \<and> chain_amount tx = amount_raw (fl (0 + new_reward 20))"
    by (rule honest_work_reaches_chain [where re = "demo_result_env 2" and now = 5 and hostname = demo_host and uuid_in = Some
        and threshold = "1 / 100" and n = ?n and R = ref_redis and verify = "\<lambda>_ _ _. True" and r = demo_report and L' = L
        and c = "''m''" and L = demo_lib and key = "''key''" and ok = reliable and x = 0 and s = 20,
        unfolded n(1), OF demo_lib_facts(1) ve r n(2) c(1,2) refl _ _ c(8) pl(2) c(5,6) _ _ _ _ _ refl _ _ _ _ addr])
       (use demo_report_facts demo_ready_account L none in \<open>simp_all add: c reward\<close>)
  then obtain n' tx where n': "(network_step ref_redis (\<lambda>_ _ _. True) demo_host Some (1 / 100) demo_lib ''key'' reliable)\<^sup>*\<^sup>* ?n n'"
    "tx \<in> set (drop (length (nt_chain ?n)) (nt_chain n'))" "recipient tx = addr" "chain_amount tx = amount_raw (fl (3 / 200))"
    by (auto simp: reward)
  from network_reach_steps [OF n'(1) r] in_set_dropD [OF n'(2)] n'(3,4) addr show ?thesis by blast
qed

end
