(* ===== verification/Forgery.thy ===== *)
theory Forgery
  imports Rest Pipeline
begin

text \<open>
  From a submission over HTTP to the tables: what \<^verbatim>\<open>controllers/results.go\<close> publishes and what \<^verbatim>\<open>workers/result_processor.go\<close>
  makes of it. No step of that way looks at a signature.
\<close>

subsection \<open>The message and its settlement\<close>

lemma results_routed: "''processing_queue'' \<in> set (routed booted (results_message runner signature rs))"
  by (simp add: results_message_def routed_def booted_def declareQueues_def topology_simps)

lemma decode_results:
  "\<forall>r \<in> set rs. item_ok r \<Longrightarrow>
     decode_packet (msg_body (results_message runner signature rs)) = Some (MarshalResultPacket runner signature rs)"
  unfolding results_message_def by (simp add: decode_encode_packet MarshalResultPacket_def)

subsection \<open>Properties\<close>

text \<open>
  C39. Whoever knows a live nonce is paid: a request with one result that gives the nonce as its job id, and any runner, any
  monitor and any signature, is published as it is and routed to the processing queue. When the result processor takes that
  message, on tables whose ledger allows a settlement of that monitor and that runner, it answers with an
  acknowledgement, the ledger has made that settlement, and the forged measurement is stored under the runner's name.
\<close>
theorem rest_pays_unsigned_results:
  fixes uuid :: "nat \<Rightarrow> string"
  assumes "redis_server R str zset" "sb_rate se = (f1, f2, t)" "snd (CheckRateLimit R f1 f2 t runner 600 rdb) = None"
    and "n \<noteq> []" "rGET R (snd (sb_nonce se 0)) (nonce_key n) rdb \<noteq> None" "fst (sb_nonce se 0) = Delivered"
    and "sb_publish se = Delivered"
    and "decode_body submit_fields zero_submit b = Some \<lparr>sr_RunnerPubkey = runner, sr_Signature = signature, sr_Results = [r]\<rparr>"
    and "runner \<noteq> []" "pr_JobID r = n" "pr_MonitorID r \<noteq> []" "item_ok r"
    and "SubmitResults R se b (rdb, c) = ((rdb', c'), resp)"
    and "wf_db db" "roomy db" "uuid_in (pr_MonitorID r) = Some mon"
    and "settle_spec threshold (1 / 100) mon runner (ledger_of db) = Some L"
    and "row_error uuid_in db (build_log now runner r) = None"
  shows "rsp_status resp = 202
    \<and> (\<exists>m. sent c' = sent c @ [m] \<and> ''processing_queue'' \<in> set (routed booted m)
        \<and> (\<exists>db' l. handle_delivery decode_packet uuid_in threshold
              \<lparr>ce_now = now, ce_settle = (\<lambda>i. (uuid i, now, net_up)), ce_insert = Delivered\<rparr> (msg_body m) db = (db', Ack)
            \<and> ledger_of db' = L \<and> t_ping_logs db' = t_ping_logs db @ [l]
            \<and> p_RunnerPubkey l = runner \<and> p_MonitorID l = mon \<and> p_Success l = pr_Success r))"
proof -
  let ?m = "results_message runner signature [r]"
  let ?env = "\<lambda>i. (uuid i, now, net_up)"
  obtain rdb2 where "SubmitResults R se b (rdb, c) =
      ((rdb2, c\<lparr>sent := sent c @ [?m]\<rparr>), respond 202 (Value ''results queued''))"
    using submit_one [OF assms(1-3) _ _ assms(6-9), of c] assms(4,5,10) by blast
  with assms(13) have sent: "rsp_status resp = 202" "sent c' = sent c @ [?m]" by auto
  obtain db' k where p: "ProcessPacket uuid_in threshold now ?env Delivered (MarshalResultPacket runner signature [r]) db = (db', Inr 0)"
    "ledger_of db' = L" "t_ping_logs db' = t_ping_logs db @ [(build_log now runner r)\<lparr>p_ID := k, p_MonitorID := mon\<rparr>]"
    using one_result_settled [of db uuid_in r mon threshold runner L now ?env "MarshalResultPacket runner signature [r]"]
      assms(11,14-18) by (auto simp: MarshalResultPacket_def)
  have "handle_delivery decode_packet uuid_in threshold
      \<lparr>ce_now = now, ce_settle = ?env, ce_insert = Delivered\<rparr> (msg_body ?m) db = (db', Ack)"
    using decode_results [of "[r]" runner signature] assms(12) p(1) by (simp add: handle_delivery_def)
  moreover have "p_RunnerPubkey ((build_log now runner r)\<lparr>p_ID := k, p_MonitorID := mon\<rparr>) = runner"
    "p_Success ((build_log now runner r)\<lparr>p_ID := k, p_MonitorID := mon\<rparr>) = pr_Success r"
    by (simp_all add: build_log_def)
  ultimately show ?thesis
    using sent p(2,3) results_routed
    by (intro conjI exI [of _ ?m] exI [of _ db'] exI [of _ "(build_log now runner r)\<lparr>p_ID := k, p_MonitorID := mon\<rparr>"]) simp_all
qed

text \<open>A database in which the submitter has a runner node, and its ledger.\<close>

definition eve_db :: db where
  "eve_db = (demo_db 3 20 0)\<lparr>t_runner_nodes := [demo_runner ''eve'' 20 0], t_partitions := [(0, 1000000000000)]\<rparr>"

lemma eve_db_facts: "wf_db eve_db" "roomy eve_db"
  "row_error Some eve_db (build_log 0 ''eve'' (demo_result ''m'' 1\<lparr>pr_JobID := j\<rparr>)) = None"
  by (simp_all add: wf_db_def roomy_def roomy_runners_def eve_db_def demo_db_def demo_user_def demo_monitor_row_def demo_runner_def
      row_error_def build_log_def demo_result_def bigint_ok_def int4_def in_partition_def)

lemma eve_ledger:
  obtains L where "settle_spec (1 / 100) (1 / 100) ''m'' ''eve'' (ledger_of eve_db) = Some L" "lg_queued L ''eve'' = [3 / 200]"
proof -
  have "new_reward 20 = 3 / 200" by (simp add: new_reward_stake)
  then have "map_option (\<lambda>L. lg_queued L ''eve'') (settle_spec (1 / 100) (1 / 100) ''m'' ''eve'' (ledger_of eve_db)) = Some [3 / 200]"
    by (simp add: settle_spec_def ledger_of_def eve_db_def demo_db_def demo_user_def demo_monitor_row_def demo_runner_def
        Let_def queued_def)
  then show ?thesis using that by auto
qed

theorem rest_pays_unsigned_results_witness:
  "\<exists>rdb' c' resp m db'. SubmitResults ref_redis demo_submit (Some (demo_body ''n'')) (demo_nonces, \<lparr>opened = 0, sent = []\<rparr>) = ((rdb', c'), resp)
     \<and> rsp_status resp = 202 \<and> sent c' = [m]
     \<and> handle_delivery decode_packet Some (1 / 100)
         \<lparr>ce_now = 0, ce_settle = (\<lambda>i. (digits_of i, 0, net_up)), ce_insert = Delivered\<rparr> (msg_body m) eve_db = (db', Ack)
     \<and> lg_queued (ledger_of db') ''eve'' = [3 / 200]"
proof -
  let ?r = "demo_result ''m'' 1\<lparr>pr_JobID := ''n''\<rparr>"
  obtain rdb' c' resp where r: "SubmitResults ref_redis demo_submit (Some (demo_body ''n'')) (demo_nonces, \<lparr>opened = 0, sent = []\<rparr>) =
      ((rdb', c'), resp)" by (metis prod.exhaust)
  obtain L where L: "settle_spec (1 / 100) (1 / 100) ''m'' ''eve'' (ledger_of eve_db) = Some L" "lg_queued L ''eve'' = [3 / 200]"
    by (rule eve_ledger)
  have h: "item_ok ?r" "pr_JobID ?r = ''n''" "pr_MonitorID ?r \<noteq> []" "Some (pr_MonitorID ?r) = Some ''m''"
    "sb_rate demo_submit = (Delivered, Delivered, 0)" "sb_publish demo_submit = Delivered" "sb_nonce demo_submit 0 = (Delivered, 1)"
    by (simp_all add: demo_submit_def item_ok_def demo_result_def int64_def)
  have live: "rGET ref_redis (snd (sb_nonce demo_submit 0)) (nonce_key ''n'') demo_nonces \<noteq> None"
    "fst (sb_nonce demo_submit 0) = Delivered" by (simp_all add: demo_live h(7))
  have "rsp_status resp = 202 \<and> (\<exists>m. sent c' = sent \<lparr>opened = 0, sent = []\<rparr> @ [m] \<and> ''processing_queue'' \<in> set (routed booted m)
      \<and> (\<exists>db' l. handle_delivery decode_packet Some (1 / 100)
          \<lparr>ce_now = 0, ce_settle = (\<lambda>i. (digits_of i, 0, net_up)), ce_insert = Delivered\<rparr> (msg_body m) eve_db = (db', Ack)
        \<and> ledger_of db' = L \<and> t_ping_logs db' = t_ping_logs eve_db @ [l]
        \<and> p_RunnerPubkey l = ''eve'' \<and> p_MonitorID l = ''m'' \<and> p_Success l = pr_Success ?r))"
    by (rule rest_pays_unsigned_results [OF ref_server h(5) demo_rate _ live h(6) demo_decode _ h(2,3,1) r eve_db_facts(1,2) h(4) L(1)
        eve_db_facts(3)]) simp_all
  with r L(2) show ?thesis by fastforce
qed

end
