(* ===== verification/Spec2Isabelle.thy ===== *)
theory Spec2Isabelle
  imports Application Progress Forgery
begin

text \<open>
  A verification library for the backend of a decentralised uptime monitor (Go, \<^verbatim>\<open>src/\<close>). Users create monitors; a scheduler
  turns due monitors into jobs for online runner nodes; miners probe the targets and report over gRPC (or REST); a processor
  settles each report, charging the owner of the monitor and rewarding the runner; when a runner's balance reaches the
  threshold a payout is queued and a worker sends it to the Solana chain.

  \<^bold>\<open>How the parts meet.\<close> PostgreSQL holds the tables, Redis the schedule \<^verbatim>\<open>scheduler:due\<close> and the nonces, RabbitMQ the queues
  \<^verbatim>\<open>job_queue\<close> (scheduler to gRPC bridge) and \<^verbatim>\<open>processing_queue\<close> (results to processor, through the exchange
  \<^verbatim>\<open>monitor_updates\<close>), the process memory the registry of online nodes and the sessions of the miners.

  \<^bold>\<open>Theories and sources.\<close>
  \<^item> \<open>Prelude\<close>: type synonyms, time units, \<open>fate\<close> and \<open>remote\<close> (below), results, updates of lists, \<open>Unix\<close>.
  \<^item> \<open>Redis\<close>: what the code uses of Redis as the locale \<open>redis_server\<close> over a record of operations, with an instance.
  \<^item> \<open>Models\<close>: the records of \<^verbatim>\<open>db/repositories/storage.go\<close> and \<^verbatim>\<open>dto/\<close>. \<open>Store\<close>: the tables, the repositories
    \<^verbatim>\<open>user.go\<close>, \<^verbatim>\<open>monitor.go\<close> and \<^verbatim>\<open>runners.go\<close>, one definition per method, the SQL over lists of rows.
  \<^item> \<open>Validator\<close>: \<^verbatim>\<open>anticheat/validator.go\<close>: nonces, identity, signatures, rate limit, latency detector.
  \<^item> \<open>Registry\<close>: \<^verbatim>\<open>services/registry.go\<close>: the in-memory registry, its eviction and the matching of monitors to nodes.
  \<^item> \<open>Settlement\<close>: \<open>ProcessJobSettlement\<close> of \<^verbatim>\<open>storage.go\<close> as a transaction with rollback and ambiguous commit, and the procedure
    of \<^verbatim>\<open>solana.sql\<close>; the abstract ledger it refines.
  \<^item> \<open>PingLogs\<close>: \<^verbatim>\<open>db/repositories/ping_log.go\<close>, \<^verbatim>\<open>services/ping_log_service.go\<close>, and the consumer of
    \<^verbatim>\<open>workers/result_processor.go\<close>: its prefetched deliveries, how each is handled, and answers that reach the broker or not.
  \<^item> \<open>Wire\<close>: the JSON messages of the queues with Go's decoding rules. \<open>Broker\<close>: publishing with one reconnection, queues and
    bindings.
  \<^item> \<open>Scheduler\<close>: one tick of \<^verbatim>\<open>workers/schedular.go\<close> and \<^verbatim>\<open>services/schedular_sync.go\<close>. \<open>RunnerService\<close>:
    \<^verbatim>\<open>services/runner_service.go\<close>.
  \<^item> \<open>Grpc\<close>: \<^verbatim>\<open>grpc/server.go\<close>: handshake, results, batches and the bridge, as functions and as the step relation \<open>grpc_step\<close>.
  \<^item> \<open>Binary64\<close>: rounding to binary64, for the two places where it shows. \<open>Solana\<close>: the transaction of \<^verbatim>\<open>executeRewardTx\<close> in
    \<^verbatim>\<open>workers/solana_sync.go\<close> and the client \<^verbatim>\<open>solana/solana_client.go\<close>. \<open>SyncEvents\<close>: \<^verbatim>\<open>db/repositories/solana.go\<close> and the
    worker's loop, as a function of a batch and as the step relation \<open>sync_step\<close> of several workers with restarts.
    \<open>Payouts\<close>: what the transactions are worth against the table. \<open>Drain\<close>: a worker whose requests are answered empties the
    queue. \<open>Treasury\<close>: settlements and the worker as one system \<open>treasury_step\<close> over the table of payouts.
  \<^item> \<open>Partitions\<close>: \<^verbatim>\<open>workers/partition_cron.go\<close> with the calendar of \<^verbatim>\<open>time.Time\<close> for UTC.
  \<^item> \<open>Auth\<close>: \<^verbatim>\<open>services/user_service.go\<close>, \<^verbatim>\<open>middleware/jwt.go\<close>. \<open>MonitorService\<close>, \<open>RewardService\<close>: \<^verbatim>\<open>services/monitor_service.go\<close>,
    \<^verbatim>\<open>services/reward_service.go\<close>.
  \<^item> \<open>Rest\<close>: \<open>SubmitResults\<close> of \<^verbatim>\<open>controllers/ping.go\<close>. \<open>Http\<close>: \<^verbatim>\<open>router/router.go\<close> and \<^verbatim>\<open>controllers/\<close>, composed in \<open>serve\<close>.
  \<^item> \<open>Workers\<close>: the loops \<^verbatim>\<open>StartScheduler\<close> and \<^verbatim>\<open>StartResultProcessor\<close> around the tick and the consumer; when a channel
    closes, the broker takes back what was not acknowledged.
  \<^item> \<open>Application\<close>: \<^verbatim>\<open>config/env/env.go\<close>, \<^verbatim>\<open>config/db/db.go\<close>, \<^verbatim>\<open>app/application.go\<close>, \<^verbatim>\<open>NewServer\<close> of \<^verbatim>\<open>grpc/server.go\<close>,
    \<^verbatim>\<open>workers/sync_cron.go\<close> and \<^verbatim>\<open>main.go\<close>.
  \<^item> \<open>Pipeline\<close>: the scheduler, the gRPC server and the processor as one system \<open>plant_step\<close> over the queues. \<open>Network\<close>: that
    system and the sync workers with the chain as \<open>network_step\<close>, with its projections to the two. \<open>Books\<close>: what a step of the
    plant keeps of the tables and the accounts. \<open>Progress\<close>: the run from a report to the chain. \<open>Forgery\<close>: from a submission
    over HTTP to the ledger. This theory: a job's way
    from the tick to its miner.

  \<^bold>\<open>Conventions.\<close> A request to another system meets a \<open>fate\<close>: it is delivered, or it is lost before it acts, or its reply is lost
  after it acted; so every error branch of the source is a value, and a property that needs delivery says so. Clocks, fresh
  uuids and nonces, the iteration order of maps and the answers of libraries (ed25519, SHA-256, bcrypt, JWT, base58, the
  Solana RPC, \<^verbatim>\<open>uuid_in\<close>, \<^verbatim>\<open>url.Parse\<close>, \<^verbatim>\<open>strconv.ParseFloat\<close>) are parameters, whose documented laws are named hypotheses with
  concrete instances in the witnesses. Instants are nanoseconds since the Unix epoch. Numbers of type NUMERIC are rationals
  with the rounding of their column; a binary64 is a rational, rounded by \<open>fl\<close> where the result can tell. A result is
  \<open>Inl\<close> an error or \<open>Inr\<close> a value.

  \<^bold>\<open>What the lemmas show.\<close> Type and shape invariants (aligned partitions, authenticated miners, runners that earn only through an authenticated node,
  payouts below the threshold, transactions that carry their event's amount), the behaviour of every operation on its branches, a refinement (settlement and ledger),
  equivalences (machine and loop of the sync worker, the matching and its closed formula), round trips (queue messages, amounts
  on chain, tokens), termination of the worker's rounds, progress (a good report is settled, and paid on chain once its runner is at the threshold; a healthy worker empties the queue),
  truthful HTTP statuses, and what fails: duplicated payouts, requeued packets, forged submissions, missing owner checks. The parts are composed from the tick to the
  settlement (\<open>only_authenticated_runners_earn\<close>, \<open>honest_work_is_paid\<close>), from the settlement to the chain
  (\<open>supply_bounded\<close>) and end to end (\<open>chain_pays_authenticated\<close>, \<open>network_pays_earnings\<close>,
  \<open>honest_work_reaches_chain\<close>). In the composed systems the rest of the program may change anything but the runners' accounts
  and, where the tables matter, keeps the constraints of the schema. Interfaces are locales
  (\<open>redis_server\<close>, \<open>nonce_gate\<close> and its clients \<open>gated_handler\<close>, \<open>heartbeat_registry\<close>, \<open>settlement\<close>), each interpreted on
  the definitions of the model.

  \<^bold>\<open>Bounds and loops.\<close> Endless loops are step relations or take the list of what they meet (ticks, deliveries, weeks), so no
  fuel is needed; loops over data are structural. In the composed systems a consumer may take any message of its queue, so that
  every order that prefetching and requeueing allow is covered. A round of the sync worker ends after at most three steps an event and one
  more (\<open>round_terminates\<close>).

  \<^bold>\<open>Not modelled.\<close> Generated protocol-buffer code beyond the messages; keep-alive options of the gRPC server; the text of JSON responses, CORS, request ids and the logs; sleeps and timeouts of requests; dashboard
  types of \<^verbatim>\<open>dto/dto.go\<close> that no code uses. The HTTP interface is modelled though \<^verbatim>\<open>Run\<close> has the start of its server commented
  out (\<open>started_servers\<close>).
\<close>

subsection \<open>From the scheduler to the miner\<close>

text \<open>
  C7. A dispatched job reaches its miner: when the scheduler dispatches a monitor to a node and neither the nonce nor the
  message is lost, then the nonce it drew is in Redis until its time to live has passed, and exactly one message went out; that
  message is routed to the job queue, and when the bridge takes it while the owner's miner is connected with room in its
  buffer, the batch appended there is that job, with the nonce that was stored.
\<close>
theorem job_reaches_miner:
  assumes "redis_server R str zset" "dispatch R now de pk m st = st'"
    and "de_set de = Delivered" "pe_first (de_publish de) = Delivered"
    and "pk \<noteq> []" "g_miners g pk = Some cm" "length (g_chans g (cm_sendCh cm)) < 64"
    and "int64 now" "int64 (now + m_CheckIntervalSeconds m * 2)"
  shows "\<exists>x. sent (sa_conn (ts_amqp st')) = sent (sa_conn (ts_amqp st)) @ [x]
    \<and> (\<forall>t. rGET R t (nonce_key (de_nonce de)) (ts_rdb st') =
         (if t < de_time de + nonceTTL (m_CheckIntervalSeconds m) then Some (Str ''1'') else None))
    \<and> ''job_queue'' \<in> set (routed (declareQueues tp) x)
    \<and> ConsumeJob up (msg_body x) g =
       (g\<lparr>g_chans := (g_chans g)(cm_sendCh cm := g_chans g (cm_sendCh cm)
            @ [ServerMessage_JobBatch
                \<lparr>jb_BatchId = job_id (m_ID m) pk now,
                 jb_Jobs = [\<lparr>job_JobId = job_id (m_ID m) pk now, job_TargetUrl = m_TargetURL m,
                             job_TimeoutMs = 10000, job_TaskNonce = de_nonce de\<rparr>]\<rparr>])\<rparr>,
        Ack)"
proof -
  let ?x = "\<lparr>msg_exchange = [], msg_key = ''job_queue'', msg_body = encode_JobPayload (job_payload now (de_nonce de) pk m)\<rparr>"
  have "sent (sa_conn (ts_amqp st')) = sent (sa_conn (ts_amqp st)) @ [?x]"
    using sent_dispatch [of R now "\<lambda>_. de" pk m st] assms(2,4) by (auto simp: job_message_def)
  moreover have "rGET R t (nonce_key (de_nonce de)) (ts_rdb st') =
      (if t < de_time de + nonceTTL (m_CheckIntervalSeconds m) then Some (Str ''1'') else None)" for t
    using redis_server.dispatch_get_own [OF assms(1,3), of t now pk m st] assms(2) by simp
  moreover have "''job_queue'' \<in> set (routed (declareQueues tp) ?x)"
    by (simp add: declareQueues_def routed_def topology_simps)
  moreover have "ConsumeJob up (msg_body ?x) g =
       (g\<lparr>g_chans := (g_chans g)(cm_sendCh cm := g_chans g (cm_sendCh cm)
            @ [ServerMessage_JobBatch
                \<lparr>jb_BatchId = job_id (m_ID m) pk now,
                 jb_Jobs = [\<lparr>job_JobId = job_id (m_ID m) pk now, job_TargetUrl = m_TargetURL m,
                             job_TimeoutMs = 10000, job_TaskNonce = de_nonce de\<rparr>]\<rparr>])\<rparr>,
        Ack)"
    using assms(5-) by (simp add: ConsumeJob_def decode_encode_job job_payload_def job_batch_def offer_def sendCh_capacity_def)
  ultimately show ?thesis by blast
qed

theorem job_reaches_miner_witness:
  "\<exists>x. sent (sa_conn (ts_amqp (dispatch ref_redis 7 (te_dispatch demo_tick_env ''r'') ''r'' demo_due demo_tick_state))) = [x]
     \<and> snd (ConsumeJob True (msg_body x) (w_grpc (demo_world 1))) = Ack"
proof -
  have g: "g_miners (w_grpc (demo_world 1)) ''r'' = Some (demo_miner 0)"
    "g_chans (w_grpc (demo_world 1)) (cm_sendCh (demo_miner 0)) = []"
    by (simp_all add: demo_world_def demo_session_def demo_miner_def)
  have i: "int64 7" "int64 (7 + m_CheckIntervalSeconds demo_due * 2)"
    by (simp_all add: int64_def demo_due_def demo_monitor_row_def scan_monitor_def Monitor.truncate_def)
  have e: "de_set (te_dispatch demo_tick_env ''r'') = Delivered" "pe_first (de_publish (te_dispatch demo_tick_env ''r'')) = Delivered"
    by (simp_all add: demo_tick_env_def)
  have "sent (sa_conn (ts_amqp demo_tick_state)) = []" by (simp add: demo_tick_state_def idle_amqp_def)
  with job_reaches_miner [OF ref_server refl e _ g(1) _ i, of demo_tick_state _ True] g(2) show ?thesis by fastforce
qed

end
